(* ===== verification/Prelude.thy ===== *)
theory Prelude
  imports Main
    "HOL-Library.Word"
    "HOL-Library.AList"
    "HOL-Library.Char_ord"
    "HOL-Library.List_Lexorder"
    "HOL-Library.Sublist"
    "HOL-Library.Code_Target_Nat"
begin

text \<open>
  What every component theory shares: the machine integer types of the Rust
  sources with their saturating operations, Rust's \<open>Result\<close> with the question
  mark operator, UTF-8 strings as byte lists, hash maps and ordered maps as
  association lists, and the bounded first-in first-out eviction loop that five
  components of the runtime repeat, with the interface (a locale) that their
  duplicate-detection windows share.
\<close>

named_theorems result_simps \<open>rewriting of Result values and the question mark operator\<close>
named_theorems sat_simps \<open>saturating machine arithmetic read through unat\<close>
named_theorems window_simps \<open>bounded first-in first-out windows\<close>

section \<open>Machine integers\<close>

type_synonym u8 = "8 word"
type_synonym u16 = "16 word"
type_synonym u32 = "32 word"
type_synonym u64 = "64 word"
type_synonym usize = nat

text \<open>\<open>saturating_add\<close>, \<open>saturating_sub\<close> and \<open>saturating_mul\<close> of the fixed-width unsigned types.\<close>

definition saturating_add :: "'a::len word \<Rightarrow> 'a word \<Rightarrow> 'a word" where
  "saturating_add a b = (if unat a + unat b < 2 ^ LENGTH('a) then a + b else - 1)"

definition saturating_sub :: "'a::len word \<Rightarrow> 'a word \<Rightarrow> 'a word" where
  "saturating_sub a b = (if b \<le> a then a - b else 0)"

definition saturating_mul :: "'a::len word \<Rightarrow> 'a word \<Rightarrow> 'a word" where
  "saturating_mul a b = (if unat a * unat b < 2 ^ LENGTH('a) then a * b else - 1)"

text \<open>A \<open>usize\<close> is a \<open>nat\<close> below the word size of a 64-bit target; only its saturating addition can reach the bound.\<close>

definition usize_max :: nat where
  "usize_max = 2 ^ 64 - 1"

definition usize_saturating_add :: "usize \<Rightarrow> usize \<Rightarrow> usize" where
  "usize_saturating_add a b = min (a + b) usize_max"

lemma unat_minus_one_word [sat_simps]: "unat (- 1 :: 'a::len word) = 2 ^ LENGTH('a) - 1"
  by (simp add: unsigned_minus_1_eq_mask mask_eq_exp_minus_1)

lemma unat_saturating_add [sat_simps]:
  "unat (saturating_add a b) = min (unat a + unat b) (2 ^ LENGTH('a) - 1)"
  for a b :: "'a::len word"
  by (auto simp: saturating_add_def unat_minus_one_word unat_word_ariths)

lemma unat_saturating_mul [sat_simps]:
  "unat (saturating_mul a b) = min (unat a * unat b) (2 ^ LENGTH('a) - 1)"
  for a b :: "'a::len word"
  by (auto simp: saturating_mul_def unat_minus_one_word unat_word_ariths)

lemma unat_saturating_sub [sat_simps]:
  "unat (saturating_sub a b) = unat a - unat b"
  for a b :: "'a::len word"
  by (auto simp: saturating_sub_def unat_sub word_le_nat_alt)

lemma saturating_add_one_le_iff:
  "a < b \<Longrightarrow> saturating_add a 1 \<le> b" for a b :: u64
  by (simp add: word_le_nat_alt word_less_nat_alt sat_simps)

section \<open>Results\<close>

text \<open>
  \<open>Result<T, E>\<close> is the sum \<open>'e + 'a\<close> with \<open>Inl\<close> for \<open>Err\<close>. The question mark
  operator is \<open>and_then\<close>: it returns the error at once or goes on with the value.
\<close>

definition and_then :: "'e + 'a \<Rightarrow> ('a \<Rightarrow> 'e + 'b) \<Rightarrow> 'e + 'b" where
  "and_then r k = (case r of Inl e \<Rightarrow> Inl e | Inr x \<Rightarrow> k x)"

definition map_err :: "('e \<Rightarrow> 'f) \<Rightarrow> 'e + 'a \<Rightarrow> 'f + 'a" where
  "map_err f r = (case r of Inl e \<Rightarrow> Inl (f e) | Inr x \<Rightarrow> Inr x)"

definition is_ok :: "'e + 'a \<Rightarrow> bool" where
  "is_ok r = (case r of Inl _ \<Rightarrow> False | Inr _ \<Rightarrow> True)"

text \<open>A \<open>for\<close> loop whose body may return an error.\<close>

fun try_each :: "('a \<Rightarrow> 'e + unit) \<Rightarrow> 'a list \<Rightarrow> 'e + unit" where
  "try_each f [] = Inr ()"
| "try_each f (x # xs) = and_then (f x) (\<lambda>_. try_each f xs)"

lemma and_then_simps [simp, result_simps]:
  "and_then (Inl e) k = Inl e"
  "and_then (Inr x) k = k x"
  by (simp_all add: and_then_def)

lemma map_err_simps [simp, result_simps]:
  "map_err f (Inl e) = Inl (f e)"
  "map_err f (Inr x) = Inr x"
  by (simp_all add: map_err_def)

lemma is_ok_simps [simp, result_simps]:
  "is_ok (Inl e) = False"
  "is_ok (Inr x) = True"
  by (simp_all add: is_ok_def)

lemma and_then_eq_Inr [result_simps]:
  "and_then r k = Inr y \<longleftrightarrow> (\<exists>x. r = Inr x \<and> k x = Inr y)"
  by (cases r) auto

lemma and_then_eq_Inl [result_simps]:
  "and_then r k = Inl e \<longleftrightarrow> r = Inl e \<or> (\<exists>x. r = Inr x \<and> k x = Inl e)"
  by (cases r) auto

lemma map_err_eq_Inr [result_simps]: "map_err f r = Inr y \<longleftrightarrow> r = Inr y"
  by (cases r) auto

lemma map_err_eq_Inl [result_simps]: "map_err f r = Inl e \<longleftrightarrow> (\<exists>d. r = Inl d \<and> e = f d)"
  by (cases r) auto

lemma is_ok_iff [result_simps]: "is_ok r \<longleftrightarrow> (\<exists>x. r = Inr x)"
  by (cases r) auto

lemma try_each_Inr [result_simps]: "try_each f xs = Inr u \<longleftrightarrow> (\<forall>x \<in> set xs. f x = Inr ())"
  by (induction xs) (auto simp: and_then_eq_Inr)

lemma try_each_InlD: "try_each f xs = Inl e \<Longrightarrow> \<exists>x \<in> set xs. f x = Inl e"
  by (induction xs) (auto simp: and_then_eq_Inl)

section \<open>Strings\<close>

text \<open>
  A Rust \<open>String\<close> is a valid UTF-8 byte sequence: \<open>len()\<close> counts bytes, so a string is
  HOL's list of 8-bit characters. \<open>chars\<close> splits it at the bytes that are not UTF-8
  continuation bytes (128 to 191), which are the character boundaries of valid UTF-8.
\<close>

definition is_continuation :: "char \<Rightarrow> bool" where
  "is_continuation c = (128 \<le> (of_char c :: nat) \<and> (of_char c :: nat) < 192)"

fun chars :: "string \<Rightarrow> string list" where
  "chars [] = []"
| "chars (c # s) =
     (case chars s of
        [] \<Rightarrow> [[c]]
      | [] # rest \<Rightarrow> [c] # rest
      | (d # ds) # rest \<Rightarrow>
          if is_continuation d then (c # d # ds) # rest else [c] # (d # ds) # rest)"

definition contains_any :: "char list \<Rightarrow> string \<Rightarrow> bool" where
  "contains_any cs s = list_ex (\<lambda>c. c \<in> set cs) s"

fun contains_str :: "string \<Rightarrow> string \<Rightarrow> bool" where
  "contains_str needle [] = (needle = [])"
| "contains_str needle (c # s) = (prefix needle (c # s) \<or> contains_str needle s)"

abbreviation NUL :: char where "NUL \<equiv> CHR 0x00"
abbreviation LF :: char where "LF \<equiv> CHR 0x0A"
abbreviation CR :: char where "CR \<equiv> CHR 0x0D"

definition to_ascii_lower :: "char \<Rightarrow> char" where
  "to_ascii_lower c =
     (if 65 \<le> (of_char c :: nat) \<and> (of_char c :: nat) \<le> 90
      then char_of ((of_char c :: nat) + 32) else c)"

definition to_ascii_lowercase :: "string \<Rightarrow> string" where
  "to_ascii_lowercase s = map to_ascii_lower s"

definition is_ascii_digit :: "char \<Rightarrow> bool" where
  "is_ascii_digit c = (48 \<le> (of_char c :: nat) \<and> (of_char c :: nat) \<le> 57)"

definition is_ascii_alphanumeric :: "char \<Rightarrow> bool" where
  "is_ascii_alphanumeric c =
     (let n = (of_char c :: nat)
      in 48 \<le> n \<and> n \<le> 57 \<or> 65 \<le> n \<and> n \<le> 90 \<or> 97 \<le> n \<and> n \<le> 122)"

text \<open>Decimal rendering of an unsigned integer, as \<open>format!("{}")\<close> prints it.\<close>

fun decimal :: "nat \<Rightarrow> string" where
  "decimal n =
     (if n < 10 then [char_of (48 + n)] else decimal (n div 10) @ [char_of (48 + n mod 10)])"

declare decimal.simps [simp del]

lemma concat_chars [simp]: "concat (chars s) = s"
  by (induction s) (auto split: list.splits)

lemma length_concat_take_chars: "length (concat (take n (chars s))) \<le> length s"
proof -
  have "s = concat (take n (chars s)) @ concat (drop n (chars s))"
    by (metis append_take_drop_id concat_append concat_chars)
  then show ?thesis by (metis le_add1 length_append)
qed

lemma contains_any_iff: "contains_any cs s \<longleftrightarrow> set cs \<inter> set s \<noteq> {}"
  by (auto simp: contains_any_def list_ex_iff)

lemma contains_str_iff: "contains_str n s \<longleftrightarrow> sublist n s"
  by (induction s) (auto simp: sublist_Cons_right)

section \<open>Maps\<close>

text \<open>
  A \<open>HashMap\<close> is an association list with distinct keys (no iteration order is relied on;
  \<open>len()\<close> is its length); a \<open>BTreeMap\<close> is one whose keys ascend.
\<close>

type_synonym ('k, 'v) hashmap = "('k \<times> 'v) list"
type_synonym ('k, 'v) btreemap = "('k \<times> 'v) list"

abbreviation hm_get :: "('k, 'v) hashmap \<Rightarrow> 'k \<Rightarrow> 'v option" where
  "hm_get \<equiv> map_of"
abbreviation hm_insert :: "'k \<Rightarrow> 'v \<Rightarrow> ('k, 'v) hashmap \<Rightarrow> ('k, 'v) hashmap" where
  "hm_insert \<equiv> AList.update"
abbreviation hm_remove :: "'k \<Rightarrow> ('k, 'v) hashmap \<Rightarrow> ('k, 'v) hashmap" where
  "hm_remove \<equiv> AList.delete"
abbreviation hm_keys :: "('k, 'v) hashmap \<Rightarrow> 'k list" where
  "hm_keys m \<equiv> map fst m"
abbreviation hm_ok :: "('k, 'v) hashmap \<Rightarrow> bool" where
  "hm_ok m \<equiv> distinct (map fst m)"

fun bt_insert :: "'k::linorder \<Rightarrow> 'v \<Rightarrow> ('k, 'v) btreemap \<Rightarrow> ('k, 'v) btreemap" where
  "bt_insert k v [] = [(k, v)]"
| "bt_insert k v ((l, w) # m) =
     (if k < l then (k, v) # (l, w) # m
      else if k = l then (k, v) # m
      else (l, w) # bt_insert k v m)"

definition bt_from_list :: "('k::linorder \<times> 'v) list \<Rightarrow> ('k, 'v) btreemap" where
  "bt_from_list ps = foldl (\<lambda>m (k, v). bt_insert k v m) [] ps"

definition bt_extend :: "('k::linorder, 'v) btreemap \<Rightarrow> ('k, 'v) btreemap \<Rightarrow> ('k, 'v) btreemap" where
  "bt_extend m n = foldl (\<lambda>m (k, v). bt_insert k v m) m n"

abbreviation bt_ok :: "('k::linorder, 'v) btreemap \<Rightarrow> bool" where
  "bt_ok m \<equiv> sorted_wrt (<) (map fst m)"

lemma map_of_bt_insert [simp]: "map_of (bt_insert k v m) = (map_of m)(k \<mapsto> v)"
  by (induction m rule: bt_insert.induct) auto

lemma set_keys_bt_insert [simp]: "fst ` set (bt_insert k v m) = insert k (fst ` set m)"
  by (induction k v m rule: bt_insert.induct) auto

lemma bt_ok_insert: "bt_ok m \<Longrightarrow> bt_ok (bt_insert k v m)"
  by (induction k v m rule: bt_insert.induct) auto

lemma map_of_foldl_bt_insert:
  "map_of (foldl (\<lambda>m (k, v). bt_insert k v m) m ps) k =
     (case map_of (rev ps) k of None \<Rightarrow> map_of m k | Some v \<Rightarrow> Some v)"
  by (induction ps arbitrary: m) (auto simp: map_of_append split: option.splits)

lemma bt_ok_foldl: "bt_ok m \<Longrightarrow> bt_ok (foldl (\<lambda>m (k, v). bt_insert k v m) m ps)"
  by (induction ps arbitrary: m) (auto simp: bt_ok_insert)

lemma bt_insert_above:
  "\<forall>l \<in> fst ` set m. l < k \<Longrightarrow> bt_insert k v m = m @ [(k, v)]"
  by (induction k v m rule: bt_insert.induct) force+

lemma bt_from_list_id: "bt_ok m \<Longrightarrow> bt_from_list m = m"
proof -
  have "foldl (\<lambda>m (k, v). bt_insert k v m) m n = m @ n" if "bt_ok (m @ n)"
    for m n :: "('a::linorder, 'b) btreemap"
    using that
  proof (induction n arbitrary: m)
    case Nil
    then show ?case by simp
  next
    case (Cons p n)
    obtain k v where p: "p = (k, v)" by force
    from Cons.prems p have "\<forall>l \<in> fst ` set m. l < k" by (auto simp: sorted_wrt_append)
    then have ins: "bt_insert k v m = m @ [(k, v)]" by (rule bt_insert_above)
    from Cons.prems have "bt_ok ((m @ [(k, v)]) @ n)" by (simp add: p)
    then show ?case using Cons.IH [of "m @ [(k, v)]"] by (simp add: p ins)
  qed
  from this [of "[]" m] show "bt_ok m \<Longrightarrow> bt_from_list m = m"
    by (simp add: bt_from_list_def)
qed

lemma bt_ok_distinct: "bt_ok m \<Longrightarrow> distinct (map fst m)"
  using strict_sorted_iff by blast

lemma hm_remove_keys [simp]: "fst ` set (hm_remove k m) = fst ` set m - {k}"
  by (auto simp: AList.delete_eq)

section \<open>Bounded first-in first-out eviction\<close>

text \<open>
  The loop \<open>while order.len() > maximum { if let Some(k) = order.pop_front() { drop(k) } }\<close>:
  it pops the oldest entries and lets \<open>f\<close> forget each of them in the rest of the state.
\<close>

fun evict_while :: "nat \<Rightarrow> ('k \<Rightarrow> 's \<Rightarrow> 's) \<Rightarrow> 'k list \<Rightarrow> 's \<Rightarrow> 'k list \<times> 's" where
  "evict_while mx f [] s = ([], s)"
| "evict_while mx f (k # ks) s =
     (if mx < length (k # ks) then evict_while mx f ks (f k s) else (k # ks, s))"

lemma evict_while_eq [window_simps]:
  "evict_while mx f q s =
     (drop (length q - mx) q, fold f (take (length q - mx) q) s)"
proof (induction q arbitrary: s)
  case Nil
  then show ?case by simp
next
  case (Cons k q)
  show ?case
  proof (cases "mx < length (k # q)")
    case True
    then have "length (k # q) - mx = Suc (length q - mx)" by simp
    with True Cons.IH show ?thesis by simp
  next
    case False
    then show ?thesis by simp
  qed
qed

lemma fold_remove_set: "fold (\<lambda>k s. s - {k}) ks s = s - set ks"
  by (induction ks arbitrary: s) auto

lemma set_drop_distinct: "distinct q \<Longrightarrow> set (drop n q) = set q - set (take n q)"
  using set_take_disj_set_drop_if_distinct [of q n n]
  by (metis Diff_Diff_Int Diff_Un Diff_cancel Un_Diff append_take_drop_id inf_sup_aci(1) le_refl
      set_append sup_bot.right_neutral Diff_triv)

section \<open>The interface of a duplicate-detection window\<close>

text \<open>
  The interaction broker, the event journal and the retained runtime each remember the most
  recent identifiers in a set beside a queue, and forget the oldest when the queue exceeds
  its limit. The locale states what such a window promises; the lemmas below are what the
  components rely on, proved once.
\<close>

locale fifo_window =
  fixes ids :: "'w \<Rightarrow> 'k list"
    and limit :: "'w \<Rightarrow> nat"
    and seen :: "'w \<Rightarrow> 'k \<Rightarrow> bool"
    and remember :: "'w \<Rightarrow> 'k \<Rightarrow> 'w"
    and invar :: "'w \<Rightarrow> bool"
  assumes seen_iff: "invar w \<Longrightarrow> seen w k \<longleftrightarrow> k \<in> set (ids w)"
    and ids_fresh: "invar w \<Longrightarrow> \<not> seen w k \<Longrightarrow>
      ids (remember w k) = drop (Suc (length (ids w)) - limit w) (ids w @ [k])"
    and ids_seen: "invar w \<Longrightarrow> seen w k \<Longrightarrow> ids (remember w k) = ids w"
    and limit_remember: "invar w \<Longrightarrow> limit (remember w k) = limit w"
    and limit_pos: "invar w \<Longrightarrow> 0 < limit w"
    and length_ids: "invar w \<Longrightarrow> length (ids w) \<le> limit w"
    and invar_remember: "invar w \<Longrightarrow> invar (remember w k)"
begin

lemma seen_remember: "invar w \<Longrightarrow> seen (remember w k) k"
proof (cases "seen w k")
  case True
  assume inv: "invar w"
  with True have "k \<in> set (ids (remember w k))" by (simp add: ids_seen seen_iff)
  with inv show ?thesis by (simp add: seen_iff invar_remember)
next
  case False
  assume inv: "invar w"
  have "Suc (length (ids w)) - limit w \<le> length (ids w)"
    using limit_pos [OF inv] by simp
  then have "k \<in> set (drop (Suc (length (ids w)) - limit w) (ids w @ [k]))"
    by simp
  with inv False show ?thesis by (simp add: seen_iff invar_remember ids_fresh)
qed

lemma forgets_only_oldest:
  assumes inv: "invar w" and x: "seen w x" and gone: "\<not> seen (remember w k) x"
  shows "length (ids w) = limit w \<and> ids w \<noteq> [] \<and> hd (ids w) = x \<and> \<not> seen w k"
proof -
  have fresh: "\<not> seen w k" using assms by (metis ids_seen seen_iff invar_remember)
  let ?n = "Suc (length (ids w)) - limit w"
  have mem: "x \<in> set (ids w)" using inv x by (simp add: seen_iff)
  have "x \<notin> set (drop ?n (ids w @ [k]))"
    using gone inv fresh by (simp add: seen_iff invar_remember ids_fresh)
  moreover have "?n \<le> 1" using length_ids [OF inv] by simp
  ultimately have n: "?n = 1" using mem by (cases ?n) auto
  with mem \<open>x \<notin> set (drop ?n (ids w @ [k]))\<close> have "hd (ids w) = x"
    by (cases "ids w") auto
  with n mem fresh show ?thesis using length_ids [OF inv] by auto
qed

lemma kept_while_recent:
  assumes "invar w" and "ids w = xs @ k # ys" and "length ys + length js < limit w"
  shows "seen (foldl remember w js) k"
  using assms
proof (induction js arbitrary: w xs ys)
  case Nil
  then show ?case by (simp add: seen_iff)
next
  case (Cons j js)
  have inv': "invar (remember w j)" using Cons.prems(1) by (rule invar_remember)
  have lim': "limit (remember w j) = limit w" using Cons.prems(1) by (rule limit_remember)
  show ?case
  proof (cases "seen w j")
    case True
    with Cons.prems have "ids (remember w j) = xs @ k # ys" by (simp add: ids_seen)
    with Cons.IH [OF inv'] Cons.prems(3) lim' show ?thesis by simp
  next
    case False
    let ?n = "Suc (length (ids w)) - limit w"
    have "?n \<le> length xs" using Cons.prems(2,3) length_ids [OF Cons.prems(1)] by auto
    then have "ids (remember w j) = drop ?n xs @ k # (ys @ [j])"
      using Cons.prems False by (simp add: ids_fresh)
    with Cons.IH [OF inv', of "drop ?n xs" "ys @ [j]"] Cons.prems(3) lim' show ?thesis by simp
  qed
qed

lemma remembered_for_limit:
  assumes inv: "invar w" and fresh: "\<not> seen w k" and few: "length js < limit w"
  shows "seen (foldl remember (remember w k) js) k"
proof (rule kept_while_recent)
  let ?n = "Suc (length (ids w)) - limit w"
  show "invar (remember w k)" using inv by (rule invar_remember)
  show "ids (remember w k) = drop ?n (ids w) @ k # []"
    using inv fresh limit_pos [OF inv] by (simp add: ids_fresh)
  show "length [] + length js < limit (remember w k)"
    using few inv by (simp add: limit_remember)
qed

end

section \<open>Shared facts of queues, tables and counters\<close>

lemma evict_while_snoc:
  assumes "length q \<le> mx" "0 < mx"
  shows "evict_while mx f (q @ [x]) s =
    (if length q < mx then (q @ [x], s) else (tl q @ [x], f (hd q) s))"
proof (cases "length q < mx")
  case True
  then show ?thesis by (simp add: evict_while_eq)
next
  case False
  with assms obtain y ys where "q = y # ys" "length q = mx" by (cases q) auto
  then show ?thesis by (simp add: evict_while_eq)
qed

lemma unat_lt64: "unat (w :: u64) < 2 ^ 64"
  using unsigned_less [of w, where ?'a = nat] by simp

lemma unat_of_nat_small: "n < 2 ^ 64 \<Longrightarrow> unat (of_nat n :: u64) = n"
  by (simp add: unsigned_of_nat take_bit_nat_eq_self)

lemma list_all_hm_insert:
  "list_all P m \<Longrightarrow> P (k, v) \<Longrightarrow> list_all P (hm_insert k v m)"
  by (induction m) auto

lemma list_all_hm_remove: "list_all P m \<Longrightarrow> list_all P (hm_remove k m)"
  by (auto simp: list_all_iff AList.delete_eq)

lemma list_all_hm_iff:
  "hm_ok m \<Longrightarrow> list_all (\<lambda>(k, v). P k v) m \<longleftrightarrow> (\<forall>k v. hm_get m k = Some v \<longrightarrow> P k v)"
  by (auto simp: list_all_iff dest: map_of_SomeD)

lemma list_all_hm_get: "list_all (\<lambda>(k, v). P k v) m \<Longrightarrow> hm_get m k = Some v \<Longrightarrow> P k v"
  by (auto simp: list_all_iff dest: map_of_SomeD)

lemma hm_insert_keys [simp]: "fst ` set (hm_insert k v m) = insert k (fst ` set m)"
  by (induction m) auto

lemma hm_ok_insert [simp]: "hm_ok m \<Longrightarrow> hm_ok (hm_insert k v m)"
  by (rule AList.distinct_update)

lemma hm_ok_remove [simp]: "hm_ok m \<Longrightarrow> hm_ok (hm_remove k m)"
  by (rule AList.distinct_delete)

lemma distinct_tl_hd: "distinct q \<Longrightarrow> q \<noteq> [] \<Longrightarrow> set (tl q) = set q - {hd q}"
  by (cases q) auto

named_theorems table_simps

lemma hm_get_insert [table_simps]: "hm_get (hm_insert k v m) = (hm_get m)(k \<mapsto> v)"
  by (rule AList.update_conv')

lemma hm_get_remove [table_simps]: "hm_get (hm_remove k m) = (hm_get m)(k := None)"
  by (rule AList.delete_conv')

lemma hm_insert_length [table_simps]:
  "length (hm_insert k v m) = (if hm_get m k = None then Suc (length m) else length m)"
  by (induction m) auto

lemma hm_remove_length: "length (hm_remove k m) \<le> length m"
  by (rule AList.length_delete_le)

end
