(* ===== verification/Lifecycle.thy ===== *)
theory Lifecycle
  imports Prelude
begin

text \<open>
  Model of \<^verbatim>\<open>src/lifecycle.rs\<close>: the validated runtime and invocation identifiers, the status,
  delivery, retry and failure vocabulary that every other component speaks. Identifiers are
  ordered as their strings (the derived \<open>Ord\<close>), which is what the event journal sorts by.
\<close>

section \<open>Identifiers\<close>

definition MAX_IDENTIFIER_BYTES :: usize where
  "MAX_IDENTIFIER_BYTES = 256"

datatype RuntimeIdentifierError =
    Empty string
  | ContainsNul string
  | TooLong string usize usize

definition validate_identifier :: "string \<Rightarrow> string \<Rightarrow> RuntimeIdentifierError + string" where
  "validate_identifier kind value =
     (if value = [] then Inl (RuntimeIdentifierError.Empty kind)
      else if NUL \<in> set value then Inl (RuntimeIdentifierError.ContainsNul kind)
      else if length value > MAX_IDENTIFIER_BYTES
      then Inl (RuntimeIdentifierError.TooLong kind MAX_IDENTIFIER_BYTES (length value))
      else Inr value)"

datatype RuntimeId = RuntimeId (runtime_id_str: string)
datatype InvocationId = InvocationId (invocation_id_str: string)

definition RuntimeId_new :: "string \<Rightarrow> RuntimeIdentifierError + RuntimeId" where
  "RuntimeId_new value = and_then (validate_identifier ''runtime'' value) (\<lambda>v. Inr (RuntimeId v))"

definition InvocationId_new :: "string \<Rightarrow> RuntimeIdentifierError + InvocationId" where
  "InvocationId_new value =
     and_then (validate_identifier ''invocation'' value) (\<lambda>v. Inr (InvocationId v))"

instantiation RuntimeId :: linorder
begin

definition less_eq_RuntimeId :: "RuntimeId \<Rightarrow> RuntimeId \<Rightarrow> bool" where
  "less_eq_RuntimeId a b = (runtime_id_str a \<le> runtime_id_str b)"

definition less_RuntimeId :: "RuntimeId \<Rightarrow> RuntimeId \<Rightarrow> bool" where
  "less_RuntimeId a b = (runtime_id_str a < runtime_id_str b)"

instance
  by standard (auto simp: less_eq_RuntimeId_def less_RuntimeId_def RuntimeId.expand)

end

instantiation InvocationId :: linorder
begin

definition less_eq_InvocationId :: "InvocationId \<Rightarrow> InvocationId \<Rightarrow> bool" where
  "less_eq_InvocationId a b = (invocation_id_str a \<le> invocation_id_str b)"

definition less_InvocationId :: "InvocationId \<Rightarrow> InvocationId \<Rightarrow> bool" where
  "less_InvocationId a b = (invocation_id_str a < invocation_id_str b)"

instance
  by standard (auto simp: less_eq_InvocationId_def less_InvocationId_def InvocationId.expand)

end

section \<open>Status, delivery and failure vocabulary\<close>

datatype RuntimeStatus = Starting | Ready | Busy | Degraded | Stopping | Stopped | Failed

record RuntimeHealth =
  health_runtime_id :: RuntimeId
  health_status :: RuntimeStatus
  health_observed_at_unix_ms :: u64
  health_detail :: "string option"

datatype ConfigurationImpact = Live | RestartRequired | ReacquireRequired | Unsupported

datatype InterruptOutcome = Interrupted | AlreadyFinished | RuntimeDisposed | Unconfirmed

datatype DeliveryState = NotSent | PossiblySent | Accepted

datatype RetryAdvice =
    Never
  | Immediate
  | After u64
  | ReconnectAndAttach
  | RequiresUserAction

datatype RuntimeFailureKind =
    RuntimeAlreadyExists
  | RuntimeNotFound
  | RuntimeDisposed
  | RuntimeBusy
  | InvocationAlreadyExists
  | InvalidRequest
  | Authentication
  | Permission
  | CapabilityUnavailable
  | RateLimited
  | Network
  | Transport
  | ProviderProtocol
  | ProviderProcess
  | Timeout
  | Cancelled
  | Indeterminate

record RuntimeFailure =
  failure_runtime_id :: "RuntimeId option"
  failure_invocation_id :: "InvocationId option"
  failure_kind :: RuntimeFailureKind
  failure_retry :: RetryAdvice
  failure_delivery :: DeliveryState
  failure_message :: string
  failure_provider_code :: "string option"

section \<open>Properties\<close>

lemma validate_identifier_Inr:
  "validate_identifier kind v = Inr w \<longleftrightarrow>
     w = v \<and> v \<noteq> [] \<and> NUL \<notin> set v \<and> length v \<le> 256"
  by (auto simp: validate_identifier_def MAX_IDENTIFIER_BYTES_def)

text \<open>
  A runtime identifier is accepted exactly when it is non-empty, holds no NUL byte and has
  at most 256 bytes, and the accepted identifier prints back as the string it was made from.
\<close>

theorem RuntimeId_new_accepts_iff:
  "(\<exists>i. RuntimeId_new v = Inr i \<and> runtime_id_str i = v) \<longleftrightarrow>
     v \<noteq> [] \<and> NUL \<notin> set v \<and> length v \<le> 256"
  by (auto simp: RuntimeId_new_def and_then_eq_Inr validate_identifier_Inr)

end
