(* ===== verification/Json.thy ===== *)
theory Json
  imports Prelude
begin

text \<open>
  The JSON values the sources handle (\<open>serde_json::Value\<close>) and the three accessors they use on
  them: \<open>get\<close>, \<open>as_str\<close> and \<open>pointer\<close> along object keys. Numbers keep serde's three
  representations; a float is its 64 bits. Encoding and decoding of JSON text belong to the
  serde crates and are parameters of the definitions that call them.
\<close>

type_synonym f64 = "64 word"

datatype JsonNumber = PosInt u64 | NegInt u64 | Float f64

datatype Value =
    Null
  | Bool bool
  | Number JsonNumber
  | String string
  | Array "Value list"
  | Object "(string \<times> Value) list"

fun json_get :: "Value \<Rightarrow> string \<Rightarrow> Value option" where
  "json_get (Object m) k = map_of m k"
| "json_get _ k = None"

fun json_as_str :: "Value \<Rightarrow> string option" where
  "json_as_str (String s) = Some s"
| "json_as_str _ = None"

text \<open>\<open>pointer("/a/b")\<close> for a path of object keys.\<close>

fun json_pointer :: "Value \<Rightarrow> string list \<Rightarrow> Value option" where
  "json_pointer v [] = Some v"
| "json_pointer v (k # ks) =
     (case json_get v k of None \<Rightarrow> None | Some w \<Rightarrow> json_pointer w ks)"

end
