(* ===== verification/Relay.thy ===== *)
theory Relay
  imports Lifecycle Json
begin

text \<open>
  Model of \<^verbatim>\<open>src/relay/mod.rs\<close>: the validated identifiers, messages, durable envelopes, grants and
  typed errors of the application-owned agent relay, with the authorisation predicates of a
  \<open>MessagingGrant\<close> and the host-derived routing context.
\<close>

section \<open>Validated identifiers\<close>

definition AGENT_MESSAGE_SCHEMA_VERSION :: u16 where "AGENT_MESSAGE_SCHEMA_VERSION = 1"
definition MAX_RELAY_IDENTIFIER_BYTES :: usize where "MAX_RELAY_IDENTIFIER_BYTES = 256"
definition MAX_RELAY_METADATA_ENTRIES :: usize where "MAX_RELAY_METADATA_ENTRIES = 32"
definition MAX_RELAY_METADATA_BYTES :: usize where "MAX_RELAY_METADATA_BYTES = 8 * 1024"
definition MAX_AGENT_MESSAGE_ATTACHMENTS :: usize where "MAX_AGENT_MESSAGE_ATTACHMENTS = 16"
definition MAX_AGENT_MESSAGE_BYTES :: usize where "MAX_AGENT_MESSAGE_BYTES = 256 * 1024"
definition MAX_AGENT_MESSAGE_TTL_SECONDS :: u32 where
  "MAX_AGENT_MESSAGE_TTL_SECONDS = 7 * 24 * 60 * 60"

datatype AgentRelayValidationError =
    EmptyIdentifier string
  | InvalidIdentifierCharacters string
  | IdentifierTooLong string usize usize
  | TooManyMetadataEntries usize usize
  | MetadataTooLarge usize usize
  | InvalidField string string

fun display_validation_error :: "AgentRelayValidationError \<Rightarrow> string" where
  "display_validation_error (EmptyIdentifier kind) = kind @ '' cannot be empty''"
| "display_validation_error (InvalidIdentifierCharacters kind) =
     kind @ '' cannot contain NUL or newline characters''"
| "display_validation_error (IdentifierTooLong kind maximum actual) =
     kind @ '' is '' @ decimal actual @ '' bytes; the maximum is '' @ decimal maximum"
| "display_validation_error (TooManyMetadataEntries maximum actual) =
     ''relay metadata has '' @ decimal actual @ '' entries; the maximum is '' @ decimal maximum"
| "display_validation_error (MetadataTooLarge maximum actual) =
     ''relay metadata is '' @ decimal actual @ '' bytes; the maximum is '' @ decimal maximum"
| "display_validation_error (InvalidField field text) =
     ''invalid relay field `'' @ field @ ''`: '' @ text"

definition relay_validate_identifier :: "string \<Rightarrow> string \<Rightarrow> AgentRelayValidationError + string" where
  "relay_validate_identifier kind value =
     (if value = [] then Inl (EmptyIdentifier kind)
      else if contains_any [NUL, LF, CR] value then Inl (InvalidIdentifierCharacters kind)
      else if length value > MAX_RELAY_IDENTIFIER_BYTES
      then Inl (IdentifierTooLong kind MAX_RELAY_IDENTIFIER_BYTES (length value))
      else Inr value)"

datatype AgentAddress = AgentAddress (address_str: string)
datatype AgentMessageId = AgentMessageId (message_id_str: string)
datatype AgentThreadId = AgentThreadId (thread_id_str: string)
datatype AgentIdempotencyKey = AgentIdempotencyKey (idempotency_key_str: string)

definition AgentAddress_new :: "string \<Rightarrow> AgentRelayValidationError + AgentAddress" where
  "AgentAddress_new value =
     and_then (relay_validate_identifier ''agent address'' value) (\<lambda>v. Inr (AgentAddress v))"

definition AgentMessageId_new :: "string \<Rightarrow> AgentRelayValidationError + AgentMessageId" where
  "AgentMessageId_new value =
     and_then (relay_validate_identifier ''agent message id'' value) (\<lambda>v. Inr (AgentMessageId v))"

definition AgentThreadId_new :: "string \<Rightarrow> AgentRelayValidationError + AgentThreadId" where
  "AgentThreadId_new value =
     and_then (relay_validate_identifier ''agent thread id'' value) (\<lambda>v. Inr (AgentThreadId v))"

definition AgentIdempotencyKey_new :: "string \<Rightarrow> AgentRelayValidationError + AgentIdempotencyKey" where
  "AgentIdempotencyKey_new value =
     and_then (relay_validate_identifier ''agent message idempotency key'' value)
       (\<lambda>v. Inr (AgentIdempotencyKey v))"

text \<open>
  Metadata is bounded by entries, key shape and encoded size. The JSON encoder is a
  parameter: \<open>to_vec\<close> returns the encoded bytes or the encoder's error text.
\<close>

datatype AgentRelayMetadata = AgentRelayMetadata (metadata_map: "(string, Value) btreemap")

definition AgentRelayMetadata_new ::
    "((string, Value) btreemap \<Rightarrow> string + string) \<Rightarrow> (string, Value) btreemap
      \<Rightarrow> AgentRelayValidationError + AgentRelayMetadata" where
  "AgentRelayMetadata_new to_vec values =
     (if length values > MAX_RELAY_METADATA_ENTRIES
      then Inl (TooManyMetadataEntries MAX_RELAY_METADATA_ENTRIES (length values))
      else and_then
        (try_each (\<lambda>(key, _). and_then (relay_validate_identifier ''relay metadata key'' key) (\<lambda>_. Inr ()))
           values)
        (\<lambda>_. and_then (map_err (InvalidField ''metadata'') (to_vec values))
          (\<lambda>bytes. if length bytes > MAX_RELAY_METADATA_BYTES
             then Inl (MetadataTooLarge MAX_RELAY_METADATA_BYTES (length bytes))
             else Inr (AgentRelayMetadata values))))"

section \<open>Messages and envelopes\<close>

record AgentMessageAttachment =
  attachment_id :: string
  attachment_uri :: string
  attachment_name :: "string option"
  attachment_media_type :: "string option"
  attachment_digest :: "string option"
  attachment_metadata :: AgentRelayMetadata

definition attachment_validate :: "AgentMessageAttachment \<Rightarrow> AgentRelayValidationError + unit" where
  "attachment_validate a =
     and_then (relay_validate_identifier ''attachment id'' (attachment_id a))
       (\<lambda>_. if attachment_uri a = [] \<or> length (attachment_uri a) > 4096
              \<or> contains_any [NUL, LF, CR] (attachment_uri a)
         then Inl (InvalidField ''message.attachments.uri''
           ''must be non-empty, at most 4096 bytes, and contain no NUL or newlines'')
         else try_each (\<lambda>(field, value).
             case value of
               None \<Rightarrow> Inr ()
             | Some v \<Rightarrow>
                 if length v > 512 \<or> contains_any [NUL, LF, CR] v
                 then Inl (InvalidField field
                   ''must be at most 512 bytes and contain no NUL or newlines'')
                 else Inr ())
           [(''message.attachments.name'', attachment_name a),
            (''message.attachments.media_type'', attachment_media_type a),
            (''message.attachments.digest'', attachment_digest a)])"

record AgentMessage =
  message_content :: string
  message_attachments :: "AgentMessageAttachment list"
  message_metadata :: AgentRelayMetadata

definition AgentMessage_text :: "string \<Rightarrow> AgentMessage" where
  "AgentMessage_text content =
     \<lparr>message_content = content, message_attachments = [], message_metadata = AgentRelayMetadata []\<rparr>"

definition message_validate :: "AgentMessage \<Rightarrow> AgentRelayValidationError + unit" where
  "message_validate m =
     (if message_content m = [] \<or> length (message_content m) > MAX_AGENT_MESSAGE_BYTES
      then Inl (InvalidField ''message.content''
        (''must be non-empty and at most '' @ decimal MAX_AGENT_MESSAGE_BYTES @ '' bytes''))
      else if NUL \<in> set (message_content m)
      then Inl (InvalidField ''message.content'' ''cannot contain NUL'')
      else if length (message_attachments m) > MAX_AGENT_MESSAGE_ATTACHMENTS
      then Inl (InvalidField ''message.attachments''
        (''may contain at most '' @ decimal MAX_AGENT_MESSAGE_ATTACHMENTS @ '' references''))
      else try_each attachment_validate (message_attachments m))"

record AgentMessageEnvelope =
  envelope_schema_version :: u16
  envelope_message_id :: AgentMessageId
  envelope_idempotency_key :: AgentIdempotencyKey
  envelope_thread_id :: AgentThreadId
  envelope_reply_to :: "AgentMessageId option"
  envelope_sender :: AgentAddress
  envelope_recipient :: AgentAddress
  envelope_message :: AgentMessage
  envelope_created_at_unix_ms :: u64
  envelope_ttl_seconds :: u32
  envelope_hop_count :: u8
  envelope_hop_limit :: u8

definition envelope_validate :: "AgentMessageEnvelope \<Rightarrow> AgentRelayValidationError + unit" where
  "envelope_validate e =
     (if envelope_schema_version e \<noteq> AGENT_MESSAGE_SCHEMA_VERSION
      then Inl (InvalidField ''schema_version''
        (''unsupported version '' @ decimal (unat (envelope_schema_version e)) @
         ''; expected '' @ decimal (unat AGENT_MESSAGE_SCHEMA_VERSION)))
      else and_then (message_validate (envelope_message e))
        (\<lambda>_. if envelope_ttl_seconds e = 0 \<or> envelope_ttl_seconds e > MAX_AGENT_MESSAGE_TTL_SECONDS
          then Inl (InvalidField ''ttl_seconds''
            (''must be between 1 and '' @ decimal (unat MAX_AGENT_MESSAGE_TTL_SECONDS) @ '' seconds''))
          else if envelope_hop_limit e = 0 \<or> envelope_hop_count e > envelope_hop_limit e
          then Inl (InvalidField ''hop_count''
            ''hop limit must be positive and cannot be lower than hop count'')
          else Inr ()))"

definition is_expired_at :: "AgentMessageEnvelope \<Rightarrow> u64 \<Rightarrow> bool" where
  "is_expired_at e now_unix_ms =
     (let ttl_ms = saturating_mul (ucast (envelope_ttl_seconds e)) 1000
      in now_unix_ms \<ge> saturating_add (envelope_created_at_unix_ms e) ttl_ms)"

record AgentMessageProvenance =
  prov_message_id :: AgentMessageId
  prov_thread_id :: AgentThreadId
  prov_sender :: AgentAddress
  prov_recipient :: AgentAddress
  prov_reply_to :: "AgentMessageId option"
  prov_hop_count :: u8
  prov_hop_limit :: u8

definition provenance_of :: "AgentMessageEnvelope \<Rightarrow> AgentMessageProvenance" where
  "provenance_of e =
     \<lparr>prov_message_id = envelope_message_id e,
      prov_thread_id = envelope_thread_id e,
      prov_sender = envelope_sender e,
      prov_recipient = envelope_recipient e,
      prov_reply_to = envelope_reply_to e,
      prov_hop_count = envelope_hop_count e,
      prov_hop_limit = envelope_hop_limit e\<rparr>"

section \<open>Delivery state, activity and errors\<close>

datatype AgentDeliveryStatus = Queued | Dispatching | Delivered | Rejected | Expired

record AgentDeliveryReceipt =
  receipt_message_id :: AgentMessageId
  receipt_idempotency_key :: AgentIdempotencyKey
  receipt_thread_id :: AgentThreadId
  receipt_status :: AgentDeliveryStatus
  receipt_attempts :: u32
  receipt_updated_at_unix_ms :: u64
  receipt_detail :: "string option"

datatype AgentRelayActivityKind = Discovery | Send | Reply | Status | Rejected | LimitReached

datatype AgentRelayDeliveryState = NotAccepted | Accepted | PossiblyAccepted

datatype AgentRelayRetryAdvice = Never | Immediate | After u64 | Reconcile | RequiresUserAction

datatype AgentRelayErrorKind =
    InvalidRequest
  | UnauthorizedRecipient
  | UnauthorizedSender
  | ApprovalRequired
  | RecipientNotFound
  | MessageNotFound
  | RateLimited
  | BudgetExceeded
  | HopLimitExceeded
  | Expired
  | Unavailable
  | Indeterminate

record AgentRelayError =
  relay_error_kind :: AgentRelayErrorKind
  relay_error_retry :: AgentRelayRetryAdvice
  relay_error_delivery :: AgentRelayDeliveryState
  relay_error_message :: string
  relay_error_message_id :: "AgentMessageId option"

definition AgentRelayError_permanent :: "AgentRelayErrorKind \<Rightarrow> string \<Rightarrow> AgentRelayError" where
  "AgentRelayError_permanent k text =
     \<lparr>relay_error_kind = k,
      relay_error_retry = AgentRelayRetryAdvice.Never,
      relay_error_delivery = NotAccepted,
      relay_error_message = text,
      relay_error_message_id = None\<rparr>"

record AgentRelayActivity =
  activity_kind :: AgentRelayActivityKind
  activity_sender :: AgentAddress
  activity_recipient :: "AgentAddress option"
  activity_message_id :: "AgentMessageId option"
  activity_thread_id :: "AgentThreadId option"
  activity_delivery_status :: "AgentDeliveryStatus option"
  activity_error_kind :: "AgentRelayErrorKind option"
  activity_detail :: "string option"

section \<open>Grants\<close>

datatype AgentAddressPattern = Exact AgentAddress | Prefix string

definition pattern_prefix :: "string \<Rightarrow> AgentRelayValidationError + AgentAddressPattern" where
  "pattern_prefix value =
     and_then (relay_validate_identifier ''agent address prefix'' value) (\<lambda>v. Inr (Prefix v))"

fun pattern_matches :: "AgentAddressPattern \<Rightarrow> AgentAddress \<Rightarrow> bool" where
  "pattern_matches (Exact exact) address = (exact = address)"
| "pattern_matches (Prefix p) address = prefix p (address_str address)"

fun pattern_validate :: "AgentAddressPattern \<Rightarrow> AgentRelayValidationError + unit" where
  "pattern_validate (Prefix p) =
     and_then (relay_validate_identifier ''agent address prefix'' p) (\<lambda>_. Inr ())"
| "pattern_validate (Exact _) = Inr ()"

record AgentDiscoveryGrant =
  discovery_addresses :: "AgentAddressPattern list"
  discovery_max_results :: u16

record AgentSendGrant =
  send_recipients :: "AgentAddressPattern list"

record AgentReceiveGrant =
  receive_senders :: "AgentAddressPattern list"

datatype AgentMessageApproval = NotRequired | HostPolicy | Required

record AgentMessagingLimits =
  max_hops :: u8
  max_message_bytes :: usize
  max_messages_per_turn :: u32
  max_bytes_per_turn :: usize
  max_messages_per_minute :: "u32 option"
  max_ttl_seconds :: u32

definition AgentMessagingLimits_default :: AgentMessagingLimits where
  "AgentMessagingLimits_default =
     \<lparr>max_hops = 4,
      max_message_bytes = 64 * 1024,
      max_messages_per_turn = 16,
      max_bytes_per_turn = 256 * 1024,
      max_messages_per_minute = Some 30,
      max_ttl_seconds = 24 * 60 * 60\<rparr>"

record MessagingGrant =
  grant_discovery :: "AgentDiscoveryGrant option"
  grant_send :: "AgentSendGrant option"
  grant_receive :: "AgentReceiveGrant option"
  grant_approval :: AgentMessageApproval
  grant_limits :: AgentMessagingLimits

definition MessagingGrant_default :: MessagingGrant where
  "MessagingGrant_default =
     \<lparr>grant_discovery = None, grant_send = None, grant_receive = None,
      grant_approval = HostPolicy, grant_limits = AgentMessagingLimits_default\<rparr>"

definition limits_in_range :: "AgentMessagingLimits \<Rightarrow> bool" where
  "limits_in_range limits \<longleftrightarrow>
     \<not> (max_hops limits = 0
        \<or> max_message_bytes limits = 0
        \<or> max_message_bytes limits > MAX_AGENT_MESSAGE_BYTES
        \<or> max_messages_per_turn limits = 0
        \<or> max_bytes_per_turn limits < max_message_bytes limits
        \<or> max_messages_per_minute limits = Some 0
        \<or> max_ttl_seconds limits = 0
        \<or> max_ttl_seconds limits > MAX_AGENT_MESSAGE_TTL_SECONDS)"

definition grant_validate :: "MessagingGrant \<Rightarrow> AgentRelayValidationError + unit" where
  "grant_validate g =
     and_then
       (try_each pattern_validate
          ((case grant_discovery g of None \<Rightarrow> [] | Some d \<Rightarrow> discovery_addresses d) @
           (case grant_send g of None \<Rightarrow> [] | Some d \<Rightarrow> send_recipients d) @
           (case grant_receive g of None \<Rightarrow> [] | Some d \<Rightarrow> receive_senders d)))
       (\<lambda>_. if (case grant_discovery g of None \<Rightarrow> False | Some d \<Rightarrow> discovery_max_results d = 0)
         then Inl (InvalidField ''discovery.max_results'' ''must be greater than zero'')
         else if \<not> limits_in_range (grant_limits g)
         then Inl (InvalidField ''limits''
           ''limits must be non-zero, internally consistent, and within SDK ceilings'')
         else Inr ())"

definition permits_discovery :: "MessagingGrant \<Rightarrow> AgentAddress \<Rightarrow> bool" where
  "permits_discovery g address =
     (case grant_discovery g of
        None \<Rightarrow> False
      | Some d \<Rightarrow> list_ex (\<lambda>p. pattern_matches p address) (discovery_addresses d))"

definition permits_send_to :: "MessagingGrant \<Rightarrow> AgentAddress \<Rightarrow> bool" where
  "permits_send_to g recipient =
     (case grant_send g of
        None \<Rightarrow> False
      | Some d \<Rightarrow> list_ex (\<lambda>p. pattern_matches p recipient) (send_recipients d))"

definition permits_receive_from :: "MessagingGrant \<Rightarrow> AgentAddress \<Rightarrow> bool" where
  "permits_receive_from g sender =
     (case grant_receive g of
        None \<Rightarrow> False
      | Some d \<Rightarrow> list_ex (\<lambda>p. pattern_matches p sender) (receive_senders d))"

section \<open>Directory, context and requests\<close>

datatype AgentAvailability = Online | Busy | Offline | Unknown

record AgentDirectoryEntry =
  entry_address :: AgentAddress
  entry_display_name :: string
  entry_description :: "string option"
  entry_availability :: AgentAvailability
  entry_metadata :: AgentRelayMetadata

record AgentDiscoveryQuery =
  query_text :: "string option"
  query_cursor :: "string option"
  query_limit :: u16

record AgentDirectoryPage =
  page_agents :: "AgentDirectoryEntry list"
  page_next_cursor :: "string option"

record AgentRelayContext =
  context_sender :: AgentAddress
  context_capability_id :: string
  context_inbound :: "AgentMessageProvenance option"
  context_approval :: AgentMessageApproval

definition context_for_turn ::
    "AgentAddress \<Rightarrow> string \<Rightarrow> AgentMessageApproval \<Rightarrow> AgentRelayValidationError + AgentRelayContext" where
  "context_for_turn sender capability_id approval =
     and_then (relay_validate_identifier ''relay capability id'' capability_id)
       (\<lambda>cid. Inr \<lparr>context_sender = sender, context_capability_id = cid,
                   context_inbound = None, context_approval = approval\<rparr>)"

definition context_for_inbound_turn ::
    "AgentAddress \<Rightarrow> string \<Rightarrow> AgentMessageApproval \<Rightarrow> AgentMessageProvenance
      \<Rightarrow> AgentRelayValidationError + AgentRelayContext" where
  "context_for_inbound_turn sender capability_id approval inbound =
     (if prov_recipient inbound \<noteq> sender
      then Inl (InvalidField ''inbound.recipient'' ''must match the scoped agent address'')
      else and_then (context_for_turn sender capability_id approval)
        (\<lambda>c. Inr (c\<lparr>context_inbound := Some inbound\<rparr>)))"

definition next_hop_count :: "AgentRelayContext \<Rightarrow> u8" where
  "next_hop_count c =
     (case context_inbound c of
        None \<Rightarrow> 0
      | Some inbound \<Rightarrow> saturating_add (prov_hop_count inbound) 1)"

record SendAgentMessageRequest =
  send_recipient :: AgentAddress
  send_idempotency_key :: AgentIdempotencyKey
  send_thread_id :: "AgentThreadId option"
  send_reply_to :: "AgentMessageId option"
  send_message :: AgentMessage
  send_ttl_seconds :: u32
  send_hop_count :: u8
  send_hop_limit :: u8

record ReplyToAgentMessageRequest =
  reply_in_reply_to :: AgentMessageId
  reply_idempotency_key :: AgentIdempotencyKey
  reply_message :: AgentMessage
  reply_ttl_seconds :: u32
  reply_hop_count :: u8
  reply_hop_limit :: u8

datatype AgentDeliveryQuery = MessageId AgentMessageId | IdempotencyKey AgentIdempotencyKey

section \<open>Properties\<close>

lemma relay_validate_identifier_Inr:
  "relay_validate_identifier kind v = Inr w \<longleftrightarrow>
     w = v \<and> v \<noteq> [] \<and> NUL \<notin> set v \<and> LF \<notin> set v \<and> CR \<notin> set v \<and> length v \<le> 256"
  by (auto simp: relay_validate_identifier_def MAX_RELAY_IDENTIFIER_BYTES_def contains_any_iff)

lemma envelope_validate_hops:
  "envelope_validate e = Inr () \<Longrightarrow>
     0 < envelope_hop_limit e \<and> envelope_hop_count e \<le> envelope_hop_limit e"
  by (auto simp: envelope_validate_def and_then_eq_Inr word_gt_0 not_less split: if_splits)

lemma envelope_validate_ttl:
  "envelope_validate e = Inr () \<Longrightarrow>
     0 < unat (envelope_ttl_seconds e) \<and> unat (envelope_ttl_seconds e) \<le> 604800"
  by (auto simp: envelope_validate_def and_then_eq_Inr MAX_AGENT_MESSAGE_TTL_SECONDS_def not_less
      word_le_nat_alt unat_gt_0 split: if_splits)

lemma unat_ttl_ms: "unat (saturating_mul (ucast t) 1000 :: u64) = unat t * 1000" for t :: u32
proof -
  have "unat t < 2 ^ 32" using unsigned_less [of t] by simp
  then have "unat t * 1000 \<le> 2 ^ 64 - 1" by simp
  then show ?thesis by (simp add: sat_simps unsigned_ucast_eq take_bit_nat_eq_self)
qed

text \<open>
  An envelope is still deliverable at a time exactly when that time lies before its creation
  time plus its time to live in milliseconds, where the deadline stops at the largest \<open>u64\<close>;
  no multiplication or addition wraps around.
\<close>

theorem is_expired_at_deadline:
  "is_expired_at e now \<longleftrightarrow>
     min (unat (envelope_created_at_unix_ms e) + 1000 * unat (envelope_ttl_seconds e)) (2 ^ 64 - 1)
       \<le> unat now"
  by (simp add: is_expired_at_def word_le_nat_alt unat_ttl_ms unat_saturating_add mult.commute)

end
