(* ===== verification/RelayMcp.thy ===== *)
theory RelayMcp
  imports Relay
begin

text \<open>
  Model of \<^verbatim>\<open>src/relay/mcp.rs\<close>: the tool bridge that binds a host-scoped sender and a grant to an
  application-owned router. The router, the JSON decoders that serde derives for the tool
  inputs and the JSON encoder of typed results are parameters. Every operation returns its
  result, the bridge with its updated budget, the activities it emitted and the calls it made
  to the router, in order.
\<close>

section \<open>Tool inputs, results and the router\<close>

definition AGENT_RELAY_TOOL_DISCOVER :: string where "AGENT_RELAY_TOOL_DISCOVER = ''agent_relay_discover''"
definition AGENT_RELAY_TOOL_SEND :: string where "AGENT_RELAY_TOOL_SEND = ''agent_relay_send''"
definition AGENT_RELAY_TOOL_REPLY :: string where "AGENT_RELAY_TOOL_REPLY = ''agent_relay_reply''"
definition AGENT_RELAY_TOOL_STATUS :: string where "AGENT_RELAY_TOOL_STATUS = ''agent_relay_status''"
definition MCP_PROTOCOL_VERSION :: string where "MCP_PROTOCOL_VERSION = ''2025-06-18''"
definition DEFAULT_DISCOVERY_LIMIT :: u16 where "DEFAULT_DISCOVERY_LIMIT = 20"
definition DEFAULT_TTL_SECONDS :: u32 where "DEFAULT_TTL_SECONDS = 3600"

record DiscoverToolInput =
  discover_query :: "string option"
  discover_cursor :: "string option"
  discover_limit :: "u16 option"

record SendToolInput =
  send_input_recipient :: AgentAddress
  send_input_idempotency_key :: AgentIdempotencyKey
  send_input_thread_id :: "AgentThreadId option"
  send_input_reply_to :: "AgentMessageId option"
  send_input_content :: string
  send_input_attachments :: "AgentMessageAttachment list"
  send_input_metadata :: AgentRelayMetadata
  send_input_ttl_seconds :: u32

record ReplyToolInput =
  reply_input_in_reply_to :: AgentMessageId
  reply_input_idempotency_key :: AgentIdempotencyKey
  reply_input_content :: string
  reply_input_attachments :: "AgentMessageAttachment list"
  reply_input_metadata :: AgentRelayMetadata
  reply_input_ttl_seconds :: u32

record StatusToolInput =
  status_input_message_id :: "AgentMessageId option"
  status_input_idempotency_key :: "AgentIdempotencyKey option"

text \<open>The decoders serde derives for the four inputs: a value or the decoder's error text.\<close>

record ToolParsers =
  parse_discover :: "Value \<Rightarrow> string + DiscoverToolInput"
  parse_send :: "Value \<Rightarrow> string + SendToolInput"
  parse_reply :: "Value \<Rightarrow> string + ReplyToolInput"
  parse_status :: "Value \<Rightarrow> string + StatusToolInput"

text \<open>The application's router: the four operations of \<open>AgentMessageRouter\<close>.\<close>

record AgentMessageRouter =
  router_discover :: "AgentRelayContext \<Rightarrow> AgentDiscoveryQuery \<Rightarrow> AgentRelayError + AgentDirectoryPage"
  router_send :: "AgentRelayContext \<Rightarrow> SendAgentMessageRequest \<Rightarrow> AgentRelayError + AgentDeliveryReceipt"
  router_reply :: "AgentRelayContext \<Rightarrow> ReplyToAgentMessageRequest \<Rightarrow> AgentRelayError + AgentDeliveryReceipt"
  router_delivery_status :: "AgentRelayContext \<Rightarrow> AgentDeliveryQuery \<Rightarrow> AgentRelayError + AgentDeliveryReceipt"

datatype RouterCall =
    DiscoverCall AgentRelayContext AgentDiscoveryQuery
  | SendCall AgentRelayContext SendAgentMessageRequest
  | ReplyCall AgentRelayContext ReplyToAgentMessageRequest
  | StatusCall AgentRelayContext AgentDeliveryQuery

datatype ToolPayload =
    PagePayload AgentDirectoryPage
  | ReceiptPayload AgentDeliveryReceipt
  | ErrorPayload AgentRelayError

record AgentRelayMcpToolResult =
  result_is_error :: bool
  result_content :: string
  result_structured_content :: ToolPayload

definition tool_success :: "string \<Rightarrow> ToolPayload \<Rightarrow> AgentRelayMcpToolResult" where
  "tool_success summary value =
     \<lparr>result_is_error = False, result_content = summary, result_structured_content = value\<rparr>"

definition tool_error :: "AgentRelayError \<Rightarrow> AgentRelayMcpToolResult" where
  "tool_error err =
     \<lparr>result_is_error = True, result_content = relay_error_message err,
      result_structured_content = ErrorPayload err\<rparr>"

section \<open>The bridge and its budget\<close>

text \<open>An \<open>Instant\<close> is a monotonic clock reading in nanoseconds.\<close>

type_synonym Instant = nat

record BridgeBudget =
  budget_message_count :: u32
  budget_message_bytes :: usize
  budget_recent_messages :: "Instant list"

definition BridgeBudget_new :: BridgeBudget where
  "BridgeBudget_new =
     \<lparr>budget_message_count = 0, budget_message_bytes = 0, budget_recent_messages = []\<rparr>"

record AgentRelayMcpBridge =
  bridge_context :: AgentRelayContext
  bridge_grant :: MessagingGrant
  bridge_budget :: BridgeBudget

definition bridge_new :: "AgentRelayContext \<Rightarrow> MessagingGrant \<Rightarrow> AgentRelayMcpBridge" where
  "bridge_new c g = \<lparr>bridge_context = c, bridge_grant = g, bridge_budget = BridgeBudget_new\<rparr>"

definition bridge_for_turn ::
    "AgentAddress \<Rightarrow> string \<Rightarrow> MessagingGrant \<Rightarrow> AgentRelayValidationError + AgentRelayMcpBridge" where
  "bridge_for_turn sender capability_id g =
     and_then (grant_validate g)
       (\<lambda>_. and_then (context_for_turn sender capability_id (grant_approval g))
         (\<lambda>c. Inr (bridge_new c g)))"

definition bridge_for_inbound_turn ::
    "AgentAddress \<Rightarrow> string \<Rightarrow> MessagingGrant \<Rightarrow> AgentMessageProvenance
      \<Rightarrow> AgentRelayValidationError + AgentRelayMcpBridge" where
  "bridge_for_inbound_turn sender capability_id g inbound =
     and_then (grant_validate g)
       (\<lambda>_. and_then (context_for_inbound_turn sender capability_id (grant_approval g) inbound)
         (\<lambda>c. Inr (bridge_new c g)))"

type_synonym 'a effect =
  "(AgentRelayError + 'a) \<times> AgentRelayMcpBridge \<times> AgentRelayActivity list \<times> RouterCall list"

definition invalid_tool_input :: "string \<Rightarrow> AgentRelayError" where
  "invalid_tool_input text = AgentRelayError_permanent AgentRelayErrorKind.InvalidRequest text"

definition limit_error :: "AgentRelayErrorKind \<Rightarrow> string \<Rightarrow> AgentRelayError" where
  "limit_error k text = AgentRelayError_permanent k text"

definition parse_arguments :: "(Value \<Rightarrow> string + 'a) \<Rightarrow> Value \<Rightarrow> AgentRelayError + 'a" where
  "parse_arguments from_value arguments =
     map_err (\<lambda>e. invalid_tool_input (''invalid relay tool arguments: '' @ e)) (from_value arguments)"

definition bounded_detail :: "string \<Rightarrow> string" where
  "bounded_detail text = concat (take 1024 (chars text))"

definition validate_hop :: "u8 \<Rightarrow> u8 \<Rightarrow> AgentRelayError + unit" where
  "validate_hop hop_count hop_limit =
     (if hop_count > hop_limit
      then Inl (limit_error HopLimitExceeded
        (''relay hop '' @ decimal (unat hop_count) @ '' exceeds the chain limit '' @
         decimal (unat hop_limit)))
      else Inr ())"

definition effective_hop_limit :: "AgentRelayMcpBridge \<Rightarrow> u8" where
  "effective_hop_limit b =
     (case context_inbound (bridge_context b) of
        None \<Rightarrow> max_hops (grant_limits (bridge_grant b))
      | Some inbound \<Rightarrow> min (prov_hop_limit inbound) (max_hops (grant_limits (bridge_grant b))))"

text \<open>
  The budget check and reservation. Entries older than sixty seconds are dropped first, also
  when a later check rejects the message; the rejection of an invalid message, an oversized one
  or a bad time to live happens before the budget is touched.
\<close>

definition sixty_seconds :: nat where
  "sixty_seconds = 60 * 10 ^ 9"

definition prune_recent :: "Instant \<Rightarrow> BridgeBudget \<Rightarrow> BridgeBudget" where
  "prune_recent now budget =
     budget\<lparr>budget_recent_messages :=
       dropWhile (\<lambda>created. now - created \<ge> sixty_seconds) (budget_recent_messages budget)\<rparr>"

definition rate_limited_error :: AgentRelayError where
  "rate_limited_error =
     \<lparr>relay_error_kind = RateLimited,
      relay_error_retry = AgentRelayRetryAdvice.After 60000,
      relay_error_delivery = NotAccepted,
      relay_error_message = ''relay message rate boundary reached; retry after 60000ms'',
      relay_error_message_id = None\<rparr>"

definition reserve ::
    "AgentMessagingLimits \<Rightarrow> Instant \<Rightarrow> usize \<Rightarrow> BridgeBudget \<Rightarrow> (AgentRelayError + unit) \<times> BridgeBudget" where
  "reserve limits now bytes budget0 =
     (let budget = prune_recent now budget0 in
      if budget_message_count budget \<ge> max_messages_per_turn limits
      then (Inl (limit_error BudgetExceeded
             (''turn message budget of '' @ decimal (unat (max_messages_per_turn limits)) @
              '' operations is exhausted'')), budget)
      else if usize_saturating_add (budget_message_bytes budget) bytes > max_bytes_per_turn limits
      then (Inl (limit_error BudgetExceeded
             (''turn byte budget of '' @ decimal (max_bytes_per_turn limits) @
              '' bytes would be exceeded'')), budget)
      else if (case max_messages_per_minute limits of
                 None \<Rightarrow> False
               | Some l \<Rightarrow> length (budget_recent_messages budget) \<ge> unat l)
      then (Inl rate_limited_error, budget)
      else (Inr (),
            budget\<lparr>budget_message_count := saturating_add (budget_message_count budget) 1,
                   budget_message_bytes := usize_saturating_add (budget_message_bytes budget) bytes,
                   budget_recent_messages := budget_recent_messages budget @ [now]\<rparr>))"

definition validate_and_reserve ::
    "AgentRelayMcpBridge \<Rightarrow> Instant \<Rightarrow> AgentMessage \<Rightarrow> u32 \<Rightarrow> (AgentRelayError + unit) \<times> AgentRelayMcpBridge" where
  "validate_and_reserve b now msg ttl_seconds =
     (let limits = grant_limits (bridge_grant b); bytes = length (message_content msg) in
      case message_validate msg of
        Inl e \<Rightarrow> (Inl (invalid_tool_input (''invalid agent message: '' @ display_validation_error e)), b)
      | Inr _ \<Rightarrow>
          if bytes > max_message_bytes limits
          then (Inl (limit_error BudgetExceeded
                 (''message is '' @ decimal bytes @ '' bytes; this capability permits '' @
                  decimal (max_message_bytes limits) @ '' bytes per message'')), b)
          else if ttl_seconds = 0 \<or> ttl_seconds > max_ttl_seconds limits
          then (Inl (limit_error BudgetExceeded
                 (''TTL must be between 1 and '' @ decimal (unat (max_ttl_seconds limits)) @ '' seconds'')), b)
          else (case reserve limits now bytes (bridge_budget b) of
                  (r, budget) \<Rightarrow> (r, b\<lparr>bridge_budget := budget\<rparr>)))"


section \<open>Activities\<close>

definition emit_receipt_activity ::
    "AgentRelayMcpBridge \<Rightarrow> AgentRelayActivityKind \<Rightarrow> AgentAddress option \<Rightarrow> AgentDeliveryReceipt
      \<Rightarrow> AgentRelayActivity" where
  "emit_receipt_activity b k recipient receipt =
     \<lparr>activity_kind = k,
      activity_sender = context_sender (bridge_context b),
      activity_recipient = recipient,
      activity_message_id = Some (receipt_message_id receipt),
      activity_thread_id = Some (receipt_thread_id receipt),
      activity_delivery_status = Some (receipt_status receipt),
      activity_error_kind = None,
      activity_detail = map_option bounded_detail (receipt_detail receipt)\<rparr>"

definition emit_error_activity :: "AgentRelayMcpBridge \<Rightarrow> AgentRelayError \<Rightarrow> AgentRelayActivity" where
  "emit_error_activity b err =
     \<lparr>activity_kind =
        (case relay_error_kind err of
           RateLimited \<Rightarrow> LimitReached
         | BudgetExceeded \<Rightarrow> LimitReached
         | HopLimitExceeded \<Rightarrow> LimitReached
         | _ \<Rightarrow> AgentRelayActivityKind.Rejected),
      activity_sender = context_sender (bridge_context b),
      activity_recipient = None,
      activity_message_id = relay_error_message_id err,
      activity_thread_id = None,
      activity_delivery_status = None,
      activity_error_kind = Some (relay_error_kind err),
      activity_detail = Some (bounded_detail (relay_error_message err))\<rparr>"

fun debug_delivery_status :: "AgentDeliveryStatus \<Rightarrow> string" where
  "debug_delivery_status Queued = ''Queued''"
| "debug_delivery_status Dispatching = ''Dispatching''"
| "debug_delivery_status Delivered = ''Delivered''"
| "debug_delivery_status AgentDeliveryStatus.Rejected = ''Rejected''"
| "debug_delivery_status AgentDeliveryStatus.Expired = ''Expired''"

definition receipt_result :: "AgentDeliveryReceipt \<Rightarrow> AgentRelayMcpToolResult" where
  "receipt_result receipt =
     tool_success
       (''Message '' @ message_id_str (receipt_message_id receipt) @ '' is '' @
        debug_delivery_status (receipt_status receipt) @
        ''; reconcile with agent_relay_status if delivery becomes ambiguous.'')
       (ReceiptPayload receipt)"

section \<open>The four tools\<close>

definition call_discover ::
    "AgentMessageRouter \<Rightarrow> ToolParsers \<Rightarrow> AgentRelayMcpBridge \<Rightarrow> Value \<Rightarrow> AgentRelayMcpToolResult effect" where
  "call_discover router parsers b arguments =
     (case parse_arguments (parse_discover parsers) arguments of
        Inl e \<Rightarrow> (Inl e, b, [], [])
      | Inr input \<Rightarrow>
          (case grant_discovery (bridge_grant b) of
             None \<Rightarrow> (Inl (AgentRelayError_permanent AgentRelayErrorKind.InvalidRequest
                          ''agent discovery is not granted''), b, [], [])
           | Some discovery \<Rightarrow>
               let limit = min (case discover_limit input of None \<Rightarrow> DEFAULT_DISCOVERY_LIMIT | Some l \<Rightarrow> l)
                             (discovery_max_results discovery)
               in if limit = 0
                  then (Inl (invalid_tool_input ''discovery limit must be greater than zero''), b, [], [])
                  else let query = \<lparr>query_text = discover_query input,
                                    query_cursor = discover_cursor input, query_limit = limit\<rparr>;
                           call = DiscoverCall (bridge_context b) query
                       in (case router_discover router (bridge_context b) query of
                             Inl e \<Rightarrow> (Inl e, b, [], [call])
                           | Inr page0 \<Rightarrow>
                               let page = page0\<lparr>page_agents := take (unat limit)
                                     (filter (\<lambda>entry. permits_discovery (bridge_grant b) (entry_address entry))
                                        (page_agents page0))\<rparr>;
                                   count = decimal (length (page_agents page))
                               in (Inr (tool_success (''Found '' @ count @ '' authorized agent(s).'')
                                          (PagePayload page)),
                                   b,
                                   [\<lparr>activity_kind = AgentRelayActivityKind.Discovery,
                                     activity_sender = context_sender (bridge_context b),
                                     activity_recipient = None, activity_message_id = None,
                                     activity_thread_id = None, activity_delivery_status = None,
                                     activity_error_kind = None,
                                     activity_detail = Some (count @ '' authorized agent(s) returned'')\<rparr>],
                                   [call]))))"

definition send_into_parts ::
    "SendToolInput \<Rightarrow> AgentAddress \<times> AgentIdempotencyKey \<times> AgentThreadId option \<times> AgentMessageId option
      \<times> AgentMessage \<times> u32" where
  "send_into_parts input =
     (send_input_recipient input, send_input_idempotency_key input, send_input_thread_id input,
      send_input_reply_to input,
      \<lparr>message_content = send_input_content input, message_attachments = send_input_attachments input,
       message_metadata = send_input_metadata input\<rparr>,
      send_input_ttl_seconds input)"

definition reply_into_parts ::
    "ReplyToolInput \<Rightarrow> AgentMessageId \<times> AgentIdempotencyKey \<times> AgentMessage \<times> u32" where
  "reply_into_parts input =
     (reply_input_in_reply_to input, reply_input_idempotency_key input,
      \<lparr>message_content = reply_input_content input, message_attachments = reply_input_attachments input,
       message_metadata = reply_input_metadata input\<rparr>,
      reply_input_ttl_seconds input)"

definition call_send ::
    "AgentMessageRouter \<Rightarrow> ToolParsers \<Rightarrow> Instant \<Rightarrow> AgentRelayMcpBridge \<Rightarrow> Value
      \<Rightarrow> AgentRelayMcpToolResult effect" where
  "call_send router parsers now b arguments =
     (case parse_arguments (parse_send parsers) arguments of
        Inl e \<Rightarrow> (Inl e, b, [], [])
      | Inr input \<Rightarrow>
          (case send_into_parts input of
             (recipient, idempotency_key, thread_id, reply_to, msg, ttl_seconds) \<Rightarrow>
               if \<not> permits_send_to (bridge_grant b) recipient
               then (Inl (AgentRelayError_permanent UnauthorizedRecipient
                      (''the messaging grant does not authorize recipient `'' @
                       address_str recipient @ ''`'')), b, [], [])
               else (case validate_and_reserve b now msg ttl_seconds of
                       (Inl e, b') \<Rightarrow> (Inl e, b', [], [])
                     | (Inr _, b') \<Rightarrow>
                         let hop_count = next_hop_count (bridge_context b');
                             hop_limit = effective_hop_limit b'
                         in (case validate_hop hop_count hop_limit of
                               Inl e \<Rightarrow> (Inl e, b', [], [])
                             | Inr _ \<Rightarrow>
                                 let request =
                                       \<lparr>send_recipient = recipient, send_idempotency_key = idempotency_key,
                                        send_thread_id = thread_id, send_reply_to = reply_to,
                                        send_message = msg, send_ttl_seconds = ttl_seconds,
                                        send_hop_count = hop_count, send_hop_limit = hop_limit\<rparr>;
                                     call = SendCall (bridge_context b') request
                                 in (case router_send router (bridge_context b') request of
                                       Inl e \<Rightarrow> (Inl e, b', [], [call])
                                     | Inr receipt \<Rightarrow>
                                         (Inr (receipt_result receipt), b',
                                          [emit_receipt_activity b' AgentRelayActivityKind.Send
                                             (Some recipient) receipt],
                                          [call]))))))"

definition call_reply ::
    "AgentMessageRouter \<Rightarrow> ToolParsers \<Rightarrow> Instant \<Rightarrow> AgentRelayMcpBridge \<Rightarrow> Value
      \<Rightarrow> AgentRelayMcpToolResult effect" where
  "call_reply router parsers now b arguments =
     (case parse_arguments (parse_reply parsers) arguments of
        Inl e \<Rightarrow> (Inl e, b, [], [])
      | Inr input \<Rightarrow>
          (case reply_into_parts input of
             (in_reply_to, idempotency_key, msg, ttl_seconds) \<Rightarrow>
               (case validate_and_reserve b now msg ttl_seconds of
                  (Inl e, b') \<Rightarrow> (Inl e, b', [], [])
                | (Inr _, b') \<Rightarrow>
                    let hop_count = next_hop_count (bridge_context b');
                        hop_limit = effective_hop_limit b'
                    in (case validate_hop hop_count hop_limit of
                          Inl e \<Rightarrow> (Inl e, b', [], [])
                        | Inr _ \<Rightarrow>
                            let request =
                                  \<lparr>reply_in_reply_to = in_reply_to, reply_idempotency_key = idempotency_key,
                                   reply_message = msg, reply_ttl_seconds = ttl_seconds,
                                   reply_hop_count = hop_count, reply_hop_limit = hop_limit\<rparr>;
                                call = ReplyCall (bridge_context b') request
                            in (case router_reply router (bridge_context b') request of
                                  Inl e \<Rightarrow> (Inl e, b', [], [call])
                                | Inr receipt \<Rightarrow>
                                    (Inr (receipt_result receipt), b',
                                     [emit_receipt_activity b' AgentRelayActivityKind.Reply None receipt],
                                     [call]))))))"

definition call_status ::
    "AgentMessageRouter \<Rightarrow> ToolParsers \<Rightarrow> AgentRelayMcpBridge \<Rightarrow> Value \<Rightarrow> AgentRelayMcpToolResult effect" where
  "call_status router parsers b arguments =
     (case parse_arguments (parse_status parsers) arguments of
        Inl e \<Rightarrow> (Inl e, b, [], [])
      | Inr input \<Rightarrow>
          (case (case (status_input_message_id input, status_input_idempotency_key input) of
                   (Some message_id, None) \<Rightarrow> Some (MessageId message_id)
                 | (None, Some idempotency_key) \<Rightarrow> Some (IdempotencyKey idempotency_key)
                 | _ \<Rightarrow> None) of
             None \<Rightarrow> (Inl (invalid_tool_input ''provide exactly one of `message_id` or `idempotency_key`''),
                      b, [], [])
           | Some query \<Rightarrow>
               let call = StatusCall (bridge_context b) query
               in (case router_delivery_status router (bridge_context b) query of
                     Inl e \<Rightarrow> (Inl e, b, [], [call])
                   | Inr receipt \<Rightarrow>
                       (Inr (receipt_result receipt), b,
                        [emit_receipt_activity b AgentRelayActivityKind.Status None receipt], [call]))))"

definition dispatch_tool ::
    "AgentMessageRouter \<Rightarrow> ToolParsers \<Rightarrow> Instant \<Rightarrow> AgentRelayMcpBridge \<Rightarrow> string \<Rightarrow> Value
      \<Rightarrow> AgentRelayMcpToolResult effect" where
  "dispatch_tool router parsers now b name arguments =
     (if name = AGENT_RELAY_TOOL_DISCOVER \<and> grant_discovery (bridge_grant b) \<noteq> None
      then call_discover router parsers b arguments
      else if name = AGENT_RELAY_TOOL_SEND \<and> grant_send (bridge_grant b) \<noteq> None
      then call_send router parsers now b arguments
      else if name = AGENT_RELAY_TOOL_REPLY \<and> grant_send (bridge_grant b) \<noteq> None
      then call_reply router parsers now b arguments
      else if name = AGENT_RELAY_TOOL_STATUS \<and> grant_send (bridge_grant b) \<noteq> None
      then call_status router parsers b arguments
      else (Inl (AgentRelayError_permanent AgentRelayErrorKind.InvalidRequest
             (''relay tool `'' @ name @ ''` is not exposed by this capability'')), b, [], []))"

definition call_tool ::
    "AgentMessageRouter \<Rightarrow> ToolParsers \<Rightarrow> Instant \<Rightarrow> AgentRelayMcpBridge \<Rightarrow> string \<Rightarrow> Value
      \<Rightarrow> AgentRelayMcpToolResult \<times> AgentRelayMcpBridge \<times> AgentRelayActivity list \<times> RouterCall list" where
  "call_tool router parsers now b name arguments =
     (case dispatch_tool router parsers now b name arguments of
        (Inr result, b', acts, calls) \<Rightarrow> (result, b', acts, calls)
      | (Inl e, b', acts, calls) \<Rightarrow> (tool_error e, b', acts @ [emit_error_activity b' e], calls))"


section \<open>Tool definitions and JSON-RPC\<close>

text \<open>\<open>json!({..})\<close> builds an object whose keys are kept in order, as serde's default map does.\<close>

definition json_object :: "(string \<times> Value) list \<Rightarrow> Value" where
  "json_object ps = Object (bt_from_list ps)"

definition json_int :: "int \<Rightarrow> Value" where
  "json_int i = Number (if 0 \<le> i then PosInt (word_of_int i) else NegInt (word_of_int i))"

definition string_schema :: Value where
  "string_schema = json_object [(''type'', String ''string'')]"

definition nonempty_string_schema :: Value where
  "nonempty_string_schema = json_object [(''type'', String ''string''), (''minLength'', json_int 1)]"

definition tool_definition :: "string \<Rightarrow> string \<Rightarrow> (string \<times> Value) list \<Rightarrow> Value" where
  "tool_definition name description schema =
     json_object [(''name'', String name), (''description'', String description),
       (''inputSchema'', json_object schema)]"

definition discovery_definition :: Value where
  "discovery_definition =
     tool_definition AGENT_RELAY_TOOL_DISCOVER
       ''Discover only agents visible to this host-scoped relay capability.''
       [(''type'', String ''object''),
        (''properties'', json_object
          [(''query'', string_schema), (''cursor'', string_schema),
           (''limit'', json_object [(''type'', String ''integer''), (''minimum'', json_int 1)])]),
        (''additionalProperties'', Bool False)]"

definition message_properties :: "(string \<times> Value) list" where
  "message_properties = bt_from_list
     [(''idempotency_key'', nonempty_string_schema),
      (''content'', nonempty_string_schema),
      (''attachments'', json_object [(''type'', String ''array''),
         (''items'', json_object [(''type'', String ''object'')])]),
      (''metadata'', json_object [(''type'', String ''object'')]),
      (''ttl_seconds'', json_object [(''type'', String ''integer''), (''minimum'', json_int 1)])]"

definition send_definition :: Value where
  "send_definition =
     (let properties = bt_insert ''reply_to'' string_schema (bt_insert ''thread_id'' string_schema
        (bt_insert ''recipient'' nonempty_string_schema message_properties))
      in tool_definition AGENT_RELAY_TOOL_SEND
        ''Durably enqueue a user-level message to an authorized top-level agent. Reuse idempotency_key on retry.''
        [(''type'', String ''object''),
         (''properties'', Object properties),
         (''required'', Array [String ''recipient'', String ''idempotency_key'', String ''content'']),
         (''additionalProperties'', Bool False)])"

definition reply_definition :: Value where
  "reply_definition =
     (let properties = bt_insert ''in_reply_to'' nonempty_string_schema message_properties
      in tool_definition AGENT_RELAY_TOOL_REPLY
        ''Explicitly reply to a durable agent message. The host resolves its sender and thread. Reuse idempotency_key on retry.''
        [(''type'', String ''object''),
         (''properties'', Object properties),
         (''required'', Array [String ''in_reply_to'', String ''idempotency_key'', String ''content'']),
         (''additionalProperties'', Bool False)])"

definition status_definition :: Value where
  "status_definition =
     tool_definition AGENT_RELAY_TOOL_STATUS
       ''Reconcile durable delivery by canonical message ID or sender-scoped idempotency key.''
       [(''type'', String ''object''),
        (''properties'', json_object
          [(''message_id'', nonempty_string_schema), (''idempotency_key'', nonempty_string_schema)]),
        (''oneOf'', Array
          [json_object [(''required'', Array [String ''message_id''])],
           json_object [(''required'', Array [String ''idempotency_key''])]]),
        (''additionalProperties'', Bool False)]"

definition tool_definitions :: "AgentRelayMcpBridge \<Rightarrow> Value list" where
  "tool_definitions b =
     (if grant_discovery (bridge_grant b) \<noteq> None then [discovery_definition] else []) @
     (if grant_send (bridge_grant b) \<noteq> None
      then [send_definition, reply_definition, status_definition] else [])"

definition json_rpc_error :: "Value \<Rightarrow> int \<Rightarrow> string \<Rightarrow> Value" where
  "json_rpc_error rid code text =
     json_object [(''jsonrpc'', String ''2.0''), (''id'', rid),
       (''error'', json_object [(''code'', json_int code), (''message'', String text)])]"

text \<open>\<open>to_value\<close> is the JSON that serde derives for a result payload.\<close>

definition into_mcp_value :: "(ToolPayload \<Rightarrow> Value) \<Rightarrow> AgentRelayMcpToolResult \<Rightarrow> Value" where
  "into_mcp_value to_value r =
     json_object
       [(''content'', Array [json_object [(''type'', String ''text''), (''text'', String (result_content r))]]),
        (''structuredContent'', to_value (result_structured_content r)),
        (''isError'', Bool (result_is_error r))]"

definition initialize_result :: Value where
  "initialize_result =
     json_object
       [(''protocolVersion'', String MCP_PROTOCOL_VERSION),
        (''capabilities'', json_object [(''tools'', json_object [(''listChanged'', Bool False)])]),
        (''serverInfo'', json_object
           [(''name'', String ''temps-agent-runtime-relay''), (''version'', String ''0.1.0'')])]"

definition json_rpc_result :: "Value \<Rightarrow> Value \<Rightarrow> Value" where
  "json_rpc_result rid result =
     json_object [(''jsonrpc'', String ''2.0''), (''id'', rid), (''result'', result)]"

definition handle_json_rpc ::
    "AgentMessageRouter \<Rightarrow> ToolParsers \<Rightarrow> (ToolPayload \<Rightarrow> Value) \<Rightarrow> Instant \<Rightarrow> AgentRelayMcpBridge \<Rightarrow> Value
      \<Rightarrow> Value option \<times> AgentRelayMcpBridge \<times> AgentRelayActivity list \<times> RouterCall list" where
  "handle_json_rpc router parsers to_value now b request =
     (case Option.bind (json_get request ''method'') json_as_str of
        None \<Rightarrow> (map_option (\<lambda>rid. json_rpc_error rid (- 32600) ''invalid MCP request'')
                  (json_get request ''id''), b, [], [])
      | Some meth \<Rightarrow>
          (case json_get request ''id'' of
             None \<Rightarrow> (None, b, [], [])
           | Some rid \<Rightarrow>
               if meth = ''initialize'' then (Some (json_rpc_result rid initialize_result), b, [], [])
               else if meth = ''ping'' then (Some (json_rpc_result rid (json_object [])), b, [], [])
               else if meth = ''tools/list''
               then (Some (json_rpc_result rid
                       (json_object [(''tools'', Array (tool_definitions b))])), b, [], [])
               else if meth = ''tools/call''
               then (case Option.bind (json_pointer request [''params'', ''name'']) json_as_str of
                       None \<Rightarrow> (Some (json_rpc_error rid (- 32602) ''tool name is required''), b, [], [])
                     | Some name \<Rightarrow>
                         let arguments = (case json_pointer request [''params'', ''arguments''] of
                                            None \<Rightarrow> json_object [] | Some a \<Rightarrow> a)
                         in (case call_tool router parsers now b name arguments of
                               (r, b', acts, calls) \<Rightarrow>
                                 (Some (json_rpc_result rid (into_mcp_value to_value r)), b', acts, calls)))
               else (Some (json_rpc_error rid (- 32601) ''MCP method not found''), b, [], [])))"

text \<open>A harness drives one bridge with a sequence of requests at the given clock readings.\<close>

fun serve_requests ::
    "AgentMessageRouter \<Rightarrow> ToolParsers \<Rightarrow> (ToolPayload \<Rightarrow> Value) \<Rightarrow> AgentRelayMcpBridge
      \<Rightarrow> (Instant \<times> Value) list \<Rightarrow> AgentRelayMcpBridge \<times> (Instant \<times> RouterCall) list" where
  "serve_requests router parsers to_value b [] = (b, [])"
| "serve_requests router parsers to_value b ((now, request) # rest) =
     (case handle_json_rpc router parsers to_value now b request of
        (_, b', _, calls) \<Rightarrow>
          (case serve_requests router parsers to_value b' rest of
             (b'', calls') \<Rightarrow> (b'', map (Pair now) calls @ calls')))"

section \<open>What a bridge may do\<close>

definition is_message_call :: "RouterCall \<Rightarrow> bool" where
  "is_message_call c = (case c of SendCall _ _ \<Rightarrow> True | ReplyCall _ _ \<Rightarrow> True | _ \<Rightarrow> False)"

definition call_message :: "RouterCall \<Rightarrow> AgentMessage option" where
  "call_message c =
     (case c of SendCall _ r \<Rightarrow> Some (send_message r) | ReplyCall _ r \<Rightarrow> Some (reply_message r) | _ \<Rightarrow> None)"

definition call_bytes :: "RouterCall \<Rightarrow> nat" where
  "call_bytes c = (case call_message c of None \<Rightarrow> 0 | Some m \<Rightarrow> length (message_content m))"

definition admissible_message :: "MessagingGrant \<Rightarrow> AgentMessage \<Rightarrow> u32 \<Rightarrow> bool" where
  "admissible_message g m ttl \<longleftrightarrow>
     message_validate m = Inr () \<and> length (message_content m) \<le> max_message_bytes (grant_limits g)
     \<and> 0 < ttl \<and> ttl \<le> max_ttl_seconds (grant_limits g)"

definition admissible_hop :: "AgentRelayContext \<Rightarrow> MessagingGrant \<Rightarrow> u8 \<Rightarrow> u8 \<Rightarrow> bool" where
  "admissible_hop c g count limit \<longleftrightarrow>
     count = next_hop_count c \<and> count \<le> limit \<and> limit \<le> max_hops (grant_limits g)
     \<and> (\<forall>p. context_inbound c = Some p \<longrightarrow> limit \<le> prov_hop_limit p)"

fun authorised_call :: "AgentRelayContext \<Rightarrow> MessagingGrant \<Rightarrow> RouterCall \<Rightarrow> bool" where
  "authorised_call c g (DiscoverCall c' q) \<longleftrightarrow>
     c' = c \<and> 0 < query_limit q \<and>
     (\<exists>d. grant_discovery g = Some d \<and> query_limit q \<le> discovery_max_results d)"
| "authorised_call c g (SendCall c' r) \<longleftrightarrow>
     c' = c \<and> permits_send_to g (send_recipient r)
     \<and> admissible_message g (send_message r) (send_ttl_seconds r)
     \<and> admissible_hop c g (send_hop_count r) (send_hop_limit r)"
| "authorised_call c g (ReplyCall c' r) \<longleftrightarrow>
     c' = c \<and> grant_send g \<noteq> None
     \<and> admissible_message g (reply_message r) (reply_ttl_seconds r)
     \<and> admissible_hop c g (reply_hop_count r) (reply_hop_limit r)"
| "authorised_call c g (StatusCall c' q) \<longleftrightarrow> c' = c \<and> grant_send g \<noteq> None"

text \<open>
  The abstract behaviour of one request: it leaves the bridge alone, only forgets old entries
  of the rate window, or reserves budget for one message that then may or may not reach the
  router. Every call is authorised.
\<close>

inductive bridge_step ::
    "Instant \<Rightarrow> AgentRelayMcpBridge \<Rightarrow> AgentRelayMcpBridge \<Rightarrow> RouterCall list \<Rightarrow> bool" where
  idle: "bridge_step now b b []"
| query: "\<not> is_message_call c \<Longrightarrow> authorised_call (bridge_context b) (bridge_grant b) c \<Longrightarrow>
    bridge_step now b b [c]"
| prune: "bridge_step now b (b\<lparr>bridge_budget := prune_recent now (bridge_budget b)\<rparr>) []"
| reserved: "reserve (grant_limits (bridge_grant b)) now n (bridge_budget b) = (Inr (), budget) \<Longrightarrow>
    bridge_step now b (b\<lparr>bridge_budget := budget\<rparr>) []"
| relayed: "reserve (grant_limits (bridge_grant b)) now (call_bytes c) (bridge_budget b) = (Inr (), budget) \<Longrightarrow>
    is_message_call c \<Longrightarrow> authorised_call (bridge_context b) (bridge_grant b) c \<Longrightarrow>
    bridge_step now b (b\<lparr>bridge_budget := budget\<rparr>) [c]"

inductive_cases bridge_stepE: "bridge_step now b b' calls"

lemma reserve_cases:
  "reserve l now n budget0 = (r, budget) \<Longrightarrow>
     r = Inr () \<or> (\<exists>e. r = Inl e \<and> budget = prune_recent now budget0)"
  by (auto simp: reserve_def Let_def split: if_splits)

lemma validate_and_reserve_cases:
  assumes "validate_and_reserve b now m ttl = (r, b')"
  obtains (early) e where "r = Inl e" and "b' = b"
    | (refused) e where "r = Inl e" and "b' = b\<lparr>bridge_budget := prune_recent now (bridge_budget b)\<rparr>"
    | (granted) budget where "r = Inr ()" and "b' = b\<lparr>bridge_budget := budget\<rparr>"
        and "reserve (grant_limits (bridge_grant b)) now (length (message_content m)) (bridge_budget b)
               = (Inr (), budget)"
        and "admissible_message (bridge_grant b) m ttl"
  using assms
  by (fastforce simp: validate_and_reserve_def Let_def admissible_message_def word_gt_0 not_less
      dest: reserve_cases split: sum.splits if_splits prod.splits)

lemma validate_hop_admissible:
  "validate_hop (next_hop_count (bridge_context b)) (effective_hop_limit b) = Inr u \<Longrightarrow>
     admissible_hop (bridge_context b) (bridge_grant b) (next_hop_count (bridge_context b)) (effective_hop_limit b)"
  by (auto simp: validate_hop_def admissible_hop_def effective_hop_limit_def not_less
      split: if_splits option.splits)

lemma call_discover_step:
  "call_discover router parsers b v = (r, b', acts, calls) \<Longrightarrow> bridge_step now b b' calls"
  by (auto simp: call_discover_def Let_def is_message_call_def word_gt_0
      intro!: bridge_step.intros split: sum.splits option.splits if_splits)

lemma call_status_step:
  "call_status router parsers b v = (r, b', acts, calls) \<Longrightarrow> grant_send (bridge_grant b) \<noteq> None \<Longrightarrow>
     bridge_step now b b' calls"
  by (auto simp: call_status_def Let_def is_message_call_def
      intro!: bridge_step.intros split: sum.splits option.splits prod.splits)

lemma call_send_step:
  assumes "call_send router parsers now b v = (r, b', acts, calls)"
  shows "bridge_step now b b' calls"
proof (cases "parse_arguments (parse_send parsers) v")
  case (Inl e)
  with assms show ?thesis by (auto simp: call_send_def intro: bridge_step.idle)
next
  case (Inr input)
  obtain to key tid rt m ttl where parts: "send_into_parts input = (to, key, tid, rt, m, ttl)"
    by (metis prod_cases6)
  obtain q b1 where var: "validate_and_reserve b now m ttl = (q, b1)" by fastforce
  show ?thesis
  proof (cases "permits_send_to (bridge_grant b) to")
    case False
    with assms Inr parts show ?thesis by (auto simp: call_send_def intro: bridge_step.idle)
  next
    case True
    from var show ?thesis
    proof (cases rule: validate_and_reserve_cases)
      case early
      with assms Inr parts True var show ?thesis by (auto simp: call_send_def intro: bridge_step.idle)
    next
      case refused
      with assms Inr parts True var show ?thesis by (auto simp: call_send_def intro: bridge_step.prune)
    next
      case (granted budget)
      with assms Inr parts True var validate_hop_admissible [of b1] show ?thesis
        by (auto simp: call_send_def Let_def call_bytes_def call_message_def is_message_call_def
            intro: bridge_step.reserved intro!: bridge_step.relayed split: sum.splits)
    qed
  qed
qed

lemma call_reply_step:
  assumes "call_reply router parsers now b v = (r, b', acts, calls)"
    and "grant_send (bridge_grant b) \<noteq> None"
  shows "bridge_step now b b' calls"
proof (cases "parse_arguments (parse_reply parsers) v")
  case (Inl e)
  with assms show ?thesis by (auto simp: call_reply_def intro: bridge_step.idle)
next
  case (Inr input)
  obtain rt key m ttl where parts: "reply_into_parts input = (rt, key, m, ttl)"
    by (metis prod_cases4)
  obtain q b1 where var: "validate_and_reserve b now m ttl = (q, b1)" by fastforce
  from var show ?thesis
  proof (cases rule: validate_and_reserve_cases)
    case early
    with assms Inr parts var show ?thesis by (auto simp: call_reply_def intro: bridge_step.idle)
  next
    case refused
    with assms Inr parts var show ?thesis by (auto simp: call_reply_def intro: bridge_step.prune)
  next
    case (granted budget)
    with assms Inr parts var validate_hop_admissible [of b1] show ?thesis
      by (auto simp: call_reply_def Let_def call_bytes_def call_message_def is_message_call_def
          intro: bridge_step.reserved intro!: bridge_step.relayed split: sum.splits)
  qed
qed

lemma dispatch_tool_step:
  "dispatch_tool router parsers now b name v = (r, b', acts, calls) \<Longrightarrow> bridge_step now b b' calls"
  unfolding dispatch_tool_def
  by (auto intro: call_discover_step call_send_step call_reply_step call_status_step bridge_step.idle
      split: if_splits)

lemma call_tool_step:
  "call_tool router parsers now b name v = (r, b', acts, calls) \<Longrightarrow> bridge_step now b b' calls"
  by (auto simp: call_tool_def intro: dispatch_tool_step split: prod.splits sum.splits)

lemma handle_json_rpc_step:
  "handle_json_rpc router parsers to_value now b request = (r, b', acts, calls) \<Longrightarrow>
     bridge_step now b b' calls"
  by (auto simp: handle_json_rpc_def Let_def intro: call_tool_step bridge_step.idle
      split: option.splits if_splits prod.splits)

subsection \<open>Facts of a step\<close>

abbreviation sent_messages :: "RouterCall list \<Rightarrow> RouterCall list" where
  "sent_messages \<equiv> filter is_message_call"

lemma bridge_step_keeps:
  "bridge_step now b b' calls \<Longrightarrow>
     bridge_context b' = bridge_context b \<and> bridge_grant b' = bridge_grant b
     \<and> list_all (authorised_call (bridge_context b) (bridge_grant b)) calls"
  by (auto elim!: bridge_stepE)

lemma reserve_granted:
  assumes "reserve l now n budget0 = (Inr (), budget)"
  shows "unat (budget_message_count budget) = Suc (unat (budget_message_count budget0))"
    and "unat (budget_message_count budget0) < unat (max_messages_per_turn l)"
    and "budget_message_bytes budget = min (budget_message_bytes budget0 + n) usize_max"
    and "min (budget_message_bytes budget0 + n) usize_max \<le> max_bytes_per_turn l"
    and "budget_recent_messages budget =
           dropWhile (\<lambda>t. now - t \<ge> sixty_seconds) (budget_recent_messages budget0) @ [now]"
    and "max_messages_per_minute l = Some k \<Longrightarrow> length (budget_recent_messages budget) \<le> unat k"
proof -
  have lt: "budget_message_count budget0 < max_messages_per_turn l"
    using assms by (auto simp: reserve_def prune_recent_def Let_def not_le split: if_splits)
  then show *: "unat (budget_message_count budget0) < unat (max_messages_per_turn l)"
    by (simp add: word_less_nat_alt)
  have "unat (max_messages_per_turn l) < 2 ^ 32" using unsigned_less [of "max_messages_per_turn l"] by simp
  with * have "unat (saturating_add (budget_message_count budget0) 1) = Suc (unat (budget_message_count budget0))"
    by (simp add: sat_simps)
  with assms show "unat (budget_message_count budget) = Suc (unat (budget_message_count budget0))"
    by (auto simp: reserve_def prune_recent_def Let_def split: if_splits)
qed (use assms in \<open>auto simp: reserve_def prune_recent_def usize_saturating_add_def Let_def split: if_splits option.splits\<close>)

definition budget_within :: "AgentRelayMcpBridge \<Rightarrow> bool" where
  "budget_within b \<longleftrightarrow>
     budget_message_count (bridge_budget b) \<le> max_messages_per_turn (grant_limits (bridge_grant b))
     \<and> budget_message_bytes (bridge_budget b) \<le> max_bytes_per_turn (grant_limits (bridge_grant b))"

lemma prune_recent_budget [simp]:
  "budget_message_count (prune_recent now budget) = budget_message_count budget"
  "budget_message_bytes (prune_recent now budget) = budget_message_bytes budget"
  by (simp_all add: prune_recent_def)

lemma reserve_budget:
  assumes "reserve (grant_limits (bridge_grant b)) now n (bridge_budget b) = (Inr (), budget)"
    and "max_bytes_per_turn (grant_limits (bridge_grant b)) < usize_max"
  shows "budget_within (b\<lparr>bridge_budget := budget\<rparr>)"
    and "unat (budget_message_count budget) = Suc (unat (budget_message_count (bridge_budget b)))"
    and "budget_message_bytes budget = budget_message_bytes (bridge_budget b) + n"
proof -
  note facts = reserve_granted [OF assms(1)]
  show "unat (budget_message_count budget) = Suc (unat (budget_message_count (bridge_budget b)))"
    by (rule facts(1))
  show bytes: "budget_message_bytes budget = budget_message_bytes (bridge_budget b) + n"
    using facts(3,4) assms(2) by simp
  show "budget_within (b\<lparr>bridge_budget := budget\<rparr>)"
    using facts(1-4) by (simp add: budget_within_def word_le_nat_alt)
qed

lemma bridge_step_budget:
  assumes "bridge_step now b b' calls" and "budget_within b"
    and "max_bytes_per_turn (grant_limits (bridge_grant b)) < usize_max"
  shows "budget_within b'"
    and "unat (budget_message_count (bridge_budget b)) + length (sent_messages calls)
           \<le> unat (budget_message_count (bridge_budget b'))"
    and "budget_message_bytes (bridge_budget b) + sum_list (map call_bytes (sent_messages calls))
           \<le> budget_message_bytes (bridge_budget b')"
proof -
  have "budget_within b'
    \<and> unat (budget_message_count (bridge_budget b)) + length (sent_messages calls)
        \<le> unat (budget_message_count (bridge_budget b'))
    \<and> budget_message_bytes (bridge_budget b) + sum_list (map call_bytes (sent_messages calls))
        \<le> budget_message_bytes (bridge_budget b')"
    using assms
  proof (cases rule: bridge_step.cases)
    case prune
    then show ?thesis using assms(2) by (simp add: budget_within_def)
  next
    case (reserved n budget)
    then show ?thesis using reserve_budget [OF reserved(3) assms(3)] by simp
  next
    case (relayed c budget)
    then show ?thesis using reserve_budget [OF relayed(3) assms(3)] by simp
  qed simp_all
  then show "budget_within b'"
    and "unat (budget_message_count (bridge_budget b)) + length (sent_messages calls)
           \<le> unat (budget_message_count (bridge_budget b'))"
    and "budget_message_bytes (bridge_budget b) + sum_list (map call_bytes (sent_messages calls))
           \<le> budget_message_bytes (bridge_budget b')"
    by blast+
qed

lemma serve_requests_ConsE:
  assumes "serve_requests router parsers to_value b ((now, request) # rest) = (b', calls)"
  obtains b1 cs cs' where "bridge_step now b b1 cs"
    and "serve_requests router parsers to_value b1 rest = (b', cs')"
    and "calls = map (Pair now) cs @ cs'"
  using assms by (auto split: prod.splits dest: handle_json_rpc_step)

lemma serve_requests_authorised:
  assumes "serve_requests router parsers to_value b reqs = (b', calls)"
  shows "list_all (authorised_call (bridge_context b) (bridge_grant b)) (map snd calls)"
  using assms
proof (induction reqs arbitrary: b calls)
  case Nil
  then show ?case by simp
next
  case (Cons req rest)
  obtain now request where req: "req = (now, request)" by force
  obtain b1 cs cs' where step: "bridge_step now b b1 cs"
    and rest: "serve_requests router parsers to_value b1 rest = (b', cs')"
    and calls: "calls = map (Pair now) cs @ cs'"
    using Cons.prems unfolding req by (rule serve_requests_ConsE)
  show ?case using Cons.IH [OF rest] bridge_step_keeps [OF step] by (simp add: calls comp_def)
qed

lemma serve_requests_budget:
  assumes "serve_requests router parsers to_value b reqs = (b', calls)" and "budget_within b"
    and "max_bytes_per_turn (grant_limits (bridge_grant b)) < usize_max"
  shows "budget_within b' \<and> bridge_grant b' = bridge_grant b
    \<and> unat (budget_message_count (bridge_budget b)) + length (sent_messages (map snd calls))
           \<le> unat (budget_message_count (bridge_budget b'))
    \<and> budget_message_bytes (bridge_budget b) + sum_list (map call_bytes (sent_messages (map snd calls)))
           \<le> budget_message_bytes (bridge_budget b')"
  using assms
proof (induction reqs arbitrary: b calls)
  case Nil
  then show ?case by simp
next
  case (Cons req rest)
  obtain now request where req: "req = (now, request)" by force
  obtain b1 cs cs' where step: "bridge_step now b b1 cs"
    and rest: "serve_requests router parsers to_value b1 rest = (b', cs')"
    and calls: "calls = map (Pair now) cs @ cs'"
    using Cons.prems(1) unfolding req by (rule serve_requests_ConsE)
  note facts = bridge_step_budget [OF step Cons.prems(2,3)]
  have same: "bridge_grant b1 = bridge_grant b" using bridge_step_keeps [OF step] by simp
  note later = Cons.IH [OF rest facts(1)]
  have "map snd calls = cs @ map snd cs'" by (simp add: calls comp_def)
  with later facts(2,3) same Cons.prems(3) show ?case by simp
qed


subsection \<open>The rate window\<close>

text \<open>
  \<open>in_window t s\<close>: the reading \<open>s\<close> is less than sixty seconds before \<open>t\<close>. The
  ghost history \<open>h\<close> holds every reservation; what the bridge has dropped from it is too
  old for the window at \<open>now\<close> and later.
\<close>

definition in_window :: "Instant \<Rightarrow> Instant \<Rightarrow> bool" where
  "in_window t s \<longleftrightarrow> t < s + sixty_seconds"

definition rate_history :: "Instant \<Rightarrow> Instant list \<Rightarrow> AgentRelayMcpBridge \<Rightarrow> bool" where
  "rate_history now h b \<longleftrightarrow>
     (\<exists>old. h = old @ budget_recent_messages (bridge_budget b) \<and> (\<forall>t \<in> set old. t + sixty_seconds \<le> now))"

lemma rate_history_mono: "rate_history now h b \<Longrightarrow> now \<le> now' \<Longrightarrow> rate_history now' h b"
  unfolding rate_history_def using order_trans by blast

lemma rate_history_prune:
  assumes "rate_history now h b"
  shows "rate_history now h (b\<lparr>bridge_budget := prune_recent now (bridge_budget b)\<rparr>)"
proof -
  let ?old = "\<lambda>t. now - t \<ge> sixty_seconds" and ?rec = "budget_recent_messages (bridge_budget b)"
  obtain old where h: "h = old @ ?rec" and old: "\<forall>t \<in> set old. t + sixty_seconds \<le> now"
    using assms by (auto simp: rate_history_def)
  have "h = (old @ takeWhile ?old ?rec) @ dropWhile ?old ?rec" by (simp add: h)
  moreover have "t + sixty_seconds \<le> now" if "t \<in> set (takeWhile ?old ?rec)" for t
    using set_takeWhileD [OF that] by (auto simp: sixty_seconds_def)
  ultimately show ?thesis
    unfolding rate_history_def using old
    by (intro exI [of _ "old @ takeWhile ?old ?rec"]) (simp add: prune_recent_def ball_Un)
qed

lemma rate_history_reserve:
  assumes "rate_history now h b"
    and res: "reserve (grant_limits (bridge_grant b)) now n (bridge_budget b) = (Inr (), budget)"
  shows "rate_history now (h @ [now]) (b\<lparr>bridge_budget := budget\<rparr>)"
  using rate_history_prune [OF assms(1)] reserve_granted(5) [OF res]
  by (auto simp: rate_history_def prune_recent_def)

lemma rate_history_window:
  assumes "rate_history now (h @ [now]) b"
    and "length (budget_recent_messages (bridge_budget b)) \<le> k"
  shows "length (filter (in_window now) (h @ [now])) \<le> k"
proof -
  obtain old where h: "h @ [now] = old @ budget_recent_messages (bridge_budget b)"
    and old: "\<forall>t \<in> set old. t + sixty_seconds \<le> now"
    using assms(1) by (auto simp: rate_history_def)
  have "filter (in_window now) old = []" using old by (auto simp: in_window_def filter_empty_conv)
  then have "length (filter (in_window now) (h @ [now])) \<le> length (budget_recent_messages (bridge_budget b))"
    unfolding h by simp
  with assms(2) show ?thesis by (rule order_trans [rotated])
qed

lemma bridge_step_rate:
  assumes "bridge_step now b b' cs" and "rate_history now h b"
    and lim: "max_messages_per_minute (grant_limits (bridge_grant b)) = Some k"
  obtains (quiet) h' where "rate_history now h' b'" and "set h \<subseteq> set h'"
      and "\<And>P. length (filter P h) \<le> length (filter P h')" and "sent_messages cs = []"
    | (sent) c where "rate_history now (h @ [now]) b'" and "sent_messages cs = [c]"
      and "length (filter (in_window now) (h @ [now])) \<le> unat k"
  using assms(1)
proof (cases rule: bridge_step.cases)
  case prune
  then show ?thesis using quiet [of h] rate_history_prune [OF assms(2)] by simp
next
  case (reserved n budget)
  then show ?thesis using quiet [of "h @ [now]"] rate_history_reserve [OF assms(2) reserved(3)] by auto
next
  case (relayed c budget)
  have "rate_history now (h @ [now]) b'"
    using rate_history_reserve [OF assms(2) relayed(3)] relayed(1) by simp
  moreover have "length (budget_recent_messages (bridge_budget b')) \<le> unat k"
    using reserve_granted(6) [OF relayed(3) lim] relayed(1) by simp
  ultimately show ?thesis using sent [of c] rate_history_window relayed by simp
qed (use quiet [of h] assms(2) in simp_all)

definition message_times :: "(Instant \<times> RouterCall) list \<Rightarrow> Instant list" where
  "message_times calls = map fst (filter (\<lambda>(_, c). is_message_call c) calls)"

lemma message_times_simps [simp]:
  "message_times [] = []"
  "message_times (xs @ ys) = message_times xs @ message_times ys"
  "message_times (map (Pair now) cs) = replicate (length (sent_messages cs)) now"
  by (simp_all add: message_times_def, induction cs) auto

lemma serve_requests_rate:
  assumes "serve_requests router parsers to_value b reqs = (b', calls)"
    and "sorted (now # map fst reqs)" and "rate_history now h b"
    and "max_messages_per_minute (grant_limits (bridge_grant b)) = Some k"
    and "i < length (message_times calls)"
  shows "length (filter (in_window (message_times calls ! i)) (h @ take (Suc i) (message_times calls))) \<le> unat k"
  using assms
proof (induction reqs arbitrary: b calls now h i)
  case Nil
  then show ?case by simp
next
  case (Cons req rest)
  obtain t request where req: "req = (t, request)" by force
  obtain b1 cs cs' where step: "bridge_step t b b1 cs"
    and rest: "serve_requests router parsers to_value b1 rest = (b', cs')"
    and calls: "calls = map (Pair t) cs @ cs'"
    using Cons.prems(1) unfolding req by (rule serve_requests_ConsE)
  have later: "sorted (t # map fst rest)" and "now \<le> t" using Cons.prems(2) by (auto simp: req)
  then have hist: "rate_history t h b" using Cons.prems(3) rate_history_mono by blast
  have lim: "max_messages_per_minute (grant_limits (bridge_grant b1)) = Some k"
    using bridge_step_keeps [OF step] Cons.prems(4) by simp
  from step hist Cons.prems(4) show ?case
  proof (cases rule: bridge_step_rate)
    case (quiet h')
    let ?P = "in_window (message_times cs' ! i)"
    have "i < length (message_times cs')" using Cons.prems(5) quiet by (simp add: calls)
    from Cons.IH [OF rest later quiet(1) lim this] quiet(3) [of ?P] show ?thesis
      using quiet(4) by (simp add: calls)
  next
    case (sent c)
    then show ?thesis
    proof (cases i)
      case (Suc j)
      then have "j < length (message_times cs')" using Cons.prems(5) sent by (simp add: calls)
      from Cons.IH [OF rest later sent(1) lim this] sent Suc show ?thesis by (simp add: calls)
    qed (simp add: calls)
  qed
qed

subsection \<open>Chains of relayed messages\<close>

definition carries_hop :: "RouterCall \<Rightarrow> AgentMessageProvenance \<Rightarrow> bool" where
  "carries_hop c q =
     (case c of
        SendCall _ r \<Rightarrow> prov_hop_count q = send_hop_count r \<and> prov_hop_limit q = send_hop_limit r
      | ReplyCall _ r \<Rightarrow> prov_hop_count q = reply_hop_count r \<and> prov_hop_limit q = reply_hop_limit r
      | _ \<Rightarrow> False)"

text \<open>A turn triggered by the message \<open>p\<close> can hand the router a message with the hop fields of \<open>q\<close>.\<close>

definition relayed_hop :: "AgentMessageProvenance \<Rightarrow> AgentMessageProvenance \<Rightarrow> bool" where
  "relayed_hop p q \<longleftrightarrow>
     (\<exists>router parsers to_value b reqs.
        context_inbound (bridge_context b) = Some p \<and>
        list_ex (\<lambda>(_, c). carries_hop c q) (snd (serve_requests router parsers to_value b reqs)))"

lemma relayed_hop_admissible:
  assumes "relayed_hop p q"
  shows "prov_hop_count q = saturating_add (prov_hop_count p) 1"
    and "prov_hop_count q \<le> prov_hop_limit q" and "prov_hop_limit q \<le> prov_hop_limit p"
proof -
  obtain router parsers to_value b reqs
    where p: "context_inbound (bridge_context b) = Some p"
      and ex: "list_ex (\<lambda>(_, c). carries_hop c q) (snd (serve_requests router parsers to_value b reqs))"
    using assms by (auto simp: relayed_hop_def)
  obtain b' calls where run: "serve_requests router parsers to_value b reqs = (b', calls)" by force
  obtain now c where c: "(now, c) \<in> set calls" "carries_hop c q"
    using ex run by (auto simp: list_ex_iff)
  have "authorised_call (bridge_context b) (bridge_grant b) c"
    using serve_requests_authorised [OF run] c(1) by (force simp: list_all_iff)
  with p c(2) show "prov_hop_count q = saturating_add (prov_hop_count p) 1"
    and "prov_hop_count q \<le> prov_hop_limit q" and "prov_hop_limit q \<le> prov_hop_limit p"
    by (cases c; simp add: carries_hop_def admissible_hop_def next_hop_count_def)+
qed

subsection \<open>Discovery pages\<close>

lemma list_all_take_filter: "list_all P (take n (filter P xs))"
  using set_take_subset [of n "filter P xs"] by (auto simp: list_all_iff)

lemma unat_min_le: "unat (min a b) \<le> unat b" for a b :: "'a::len word"
  by (simp add: min_def word_le_nat_alt)

lemma call_discover_page:
  assumes "call_discover router parsers b v = (Inr r, b', acts, calls)"
    and "result_structured_content r = PagePayload page"
  shows "list_all (\<lambda>entry. permits_discovery (bridge_grant b) (entry_address entry)) (page_agents page)
    \<and> (\<exists>d. grant_discovery (bridge_grant b) = Some d
           \<and> length (page_agents page) \<le> unat (discovery_max_results d))"
  using assms
  by (auto simp: call_discover_def tool_success_def Let_def list_all_take_filter unat_min_le min.coboundedI2
      split: sum.splits option.splits if_splits)

lemma not_a_page:
  "call_send router parsers now b v = (Inr r, e) \<Longrightarrow> result_structured_content r \<noteq> PagePayload page"
  "call_reply router parsers now b v = (Inr r, e) \<Longrightarrow> result_structured_content r \<noteq> PagePayload page"
  "call_status router parsers b v = (Inr r, e) \<Longrightarrow> result_structured_content r \<noteq> PagePayload page"
  by (auto simp: call_send_def call_reply_def call_status_def receipt_result_def tool_success_def Let_def
      split: sum.splits option.splits prod.splits if_splits)

section \<open>A concrete bridge\<close>

text \<open>A router that accepts everything and a harness that always sends the same message, for the witnesses.\<close>

definition demo_receipt :: AgentDeliveryReceipt where
  "demo_receipt = \<lparr>receipt_message_id = AgentMessageId ''m'', receipt_idempotency_key = AgentIdempotencyKey ''k'',
     receipt_thread_id = AgentThreadId ''t'', receipt_status = Queued, receipt_attempts = 0,
     receipt_updated_at_unix_ms = 0, receipt_detail = None\<rparr>"

definition demo_entry :: "string \<Rightarrow> AgentDirectoryEntry" where
  "demo_entry a = \<lparr>entry_address = AgentAddress a, entry_display_name = a, entry_description = None,
     entry_availability = Online, entry_metadata = AgentRelayMetadata []\<rparr>"

definition demo_router :: AgentMessageRouter where
  "demo_router = \<lparr>router_discover = \<lambda>_ _. Inr \<lparr>page_agents = [demo_entry ''peer'', demo_entry ''other''],
       page_next_cursor = None\<rparr>,
     router_send = \<lambda>_ _. Inr demo_receipt, router_reply = \<lambda>_ _. Inr demo_receipt,
     router_delivery_status = \<lambda>_ _. Inr demo_receipt\<rparr>"

definition demo_parsers :: ToolParsers where
  "demo_parsers =
     \<lparr>parse_discover = \<lambda>_. Inr \<lparr>discover_query = None, discover_cursor = None, discover_limit = None\<rparr>,
      parse_send = \<lambda>_. Inr \<lparr>send_input_recipient = AgentAddress ''peer'',
        send_input_idempotency_key = AgentIdempotencyKey ''k'', send_input_thread_id = None,
        send_input_reply_to = None, send_input_content = ''hi'', send_input_attachments = [],
        send_input_metadata = AgentRelayMetadata [], send_input_ttl_seconds = 60\<rparr>,
      parse_reply = \<lambda>_. Inl ''missing field'',
      parse_status = \<lambda>_. Inl ''missing field''\<rparr>"

definition demo_grant :: "u8 \<Rightarrow> MessagingGrant" where
  "demo_grant hops =
     \<lparr>grant_discovery = Some \<lparr>discovery_addresses = [Exact (AgentAddress ''peer'')], discovery_max_results = 5\<rparr>,
      grant_send = Some \<lparr>send_recipients = [Prefix ''pe'']\<rparr>, grant_receive = None, grant_approval = NotRequired,
      grant_limits = AgentMessagingLimits_default\<lparr>max_hops := hops, max_messages_per_minute := Some 1\<rparr>\<rparr>"

definition demo_provenance :: "u8 \<Rightarrow> u8 \<Rightarrow> AgentMessageProvenance" where
  "demo_provenance count limit =
     \<lparr>prov_message_id = AgentMessageId ''m'', prov_thread_id = AgentThreadId ''t'',
      prov_sender = AgentAddress ''peer'', prov_recipient = AgentAddress ''self'', prov_reply_to = None,
      prov_hop_count = count, prov_hop_limit = limit\<rparr>"

definition demo_context :: "AgentMessageProvenance option \<Rightarrow> AgentRelayContext" where
  "demo_context inbound = \<lparr>context_sender = AgentAddress ''self'', context_capability_id = ''cap'',
     context_inbound = inbound, context_approval = NotRequired\<rparr>"

definition demo_request :: "string \<Rightarrow> Value" where
  "demo_request tool = json_object [(''id'', json_int 1), (''method'', String ''tools/call''),
     (''params'', json_object [(''name'', String tool)])]"

lemmas demo_defs = demo_receipt_def demo_entry_def demo_router_def demo_parsers_def demo_grant_def
  demo_provenance_def demo_context_def demo_request_def

section \<open>Properties\<close>

text \<open>
  C1: whatever the harness sends to a bridge, every call that reaches the router carries the
  host-bound context, is one the grant allows (recipient, message size, time to live, discovery
  limit) and has the host-derived hop count within the hop limits of the grant and of the
  inbound message.
\<close>

theorem relay_calls_authorised:
  "list_all (authorised_call (bridge_context b) (bridge_grant b))
     (map snd (snd (serve_requests router parsers to_value b reqs)))"
  by (metis prod.collapse serve_requests_authorised)

text \<open>
  A bridge whose grant is the default one exposes no tool and never reaches the router.
\<close>

theorem default_grant_denies_all:
  "tool_definitions (bridge_new c MessagingGrant_default) = []
   \<and> snd (serve_requests router parsers to_value (bridge_new c MessagingGrant_default) reqs) = []"
proof -
  have none: "\<not> authorised_call c MessagingGrant_default call" for call
    by (cases call) (simp_all add: MessagingGrant_default_def permits_send_to_def)
  obtain b' calls where run:
    "serve_requests router parsers to_value (bridge_new c MessagingGrant_default) reqs = (b', calls)"
    by force
  have "list_all (\<lambda>_. False) (map snd calls)"
    using serve_requests_authorised [OF run] none by (simp add: bridge_new_def list_all_iff)
  then show ?thesis
    using run by (cases calls) (simp_all add: tool_definitions_def bridge_new_def MessagingGrant_default_def)
qed

text \<open>
  C2: over the whole life of a bridge the messages handed to the router never exceed the
  grant's message count, and their content never exceeds the grant's byte budget.
\<close>

theorem relay_turn_budget:
  assumes "max_bytes_per_turn (grant_limits g) < usize_max"
    and "serve_requests router parsers to_value (bridge_new c g) reqs = (b', calls)"
  shows "length (sent_messages (map snd calls)) \<le> unat (max_messages_per_turn (grant_limits g))
    \<and> sum_list (map call_bytes (sent_messages (map snd calls))) \<le> max_bytes_per_turn (grant_limits g)"
proof -
  have "budget_within (bridge_new c g)"
    by (simp add: budget_within_def bridge_new_def BridgeBudget_new_def)
  with serve_requests_budget [OF assms(2)] assms(1) show ?thesis
    by (auto simp: budget_within_def bridge_new_def BridgeBudget_new_def word_le_nat_alt)
qed

theorem relay_turn_budget_witness:
  "length (sent_messages (map snd (snd (serve_requests demo_router demo_parsers (\<lambda>_. Null)
     (bridge_new (demo_context None) (demo_grant 4)) [(0, demo_request AGENT_RELAY_TOOL_SEND)])))) \<le> 16"
proof -
  let ?run = "serve_requests demo_router demo_parsers (\<lambda>_. Null)
     (bridge_new (demo_context None) (demo_grant 4)) [(0, demo_request AGENT_RELAY_TOOL_SEND)]"
  have "max_bytes_per_turn (grant_limits (demo_grant 4)) < usize_max" by code_simp
  moreover have "?run = (fst ?run, snd ?run)" by (rule prod.collapse [symmetric])
  moreover have "unat (max_messages_per_turn (grant_limits (demo_grant 4))) = 16" by code_simp
  ultimately show ?thesis
    using relay_turn_budget [of "demo_grant 4" demo_router demo_parsers "\<lambda>_. Null" "demo_context None"
        "[(0, demo_request AGENT_RELAY_TOOL_SEND)]" "fst ?run" "snd ?run"] by simp
qed

text \<open>
  C3: with a per-minute limit and a clock that does not run backwards, no sixty seconds that
  end with a message handed to the router hold more messages than the limit.
\<close>

theorem relay_rate_limit:
  assumes "serve_requests router parsers to_value (bridge_new c g) reqs = (b', calls)"
    and "sorted (map fst reqs)"
    and "max_messages_per_minute (grant_limits g) = Some k"
    and "i < length (message_times calls)"
  shows "length (filter (in_window (message_times calls ! i)) (take (Suc i) (message_times calls))) \<le> unat k"
proof -
  have "sorted (0 # map fst reqs)" using assms(2) by simp
  moreover have "rate_history 0 [] (bridge_new c g)"
    by (simp add: rate_history_def bridge_new_def BridgeBudget_new_def)
  ultimately show ?thesis
    using serve_requests_rate [OF assms(1), of 0 "[]" k i] assms(3,4) by (simp add: bridge_new_def)
qed

theorem relay_rate_limit_witness:
  "message_times (snd (serve_requests demo_router demo_parsers (\<lambda>_. Null)
     (bridge_new (demo_context None) (demo_grant 4))
     [(0, demo_request AGENT_RELAY_TOOL_SEND), (5, demo_request AGENT_RELAY_TOOL_SEND)])) = [0]
   \<and> length (filter (in_window 0) (take 1 [0])) \<le> 1"
proof -
  let ?reqs = "[(0 :: Instant, demo_request AGENT_RELAY_TOOL_SEND), (5, demo_request AGENT_RELAY_TOOL_SEND)]"
  let ?run = "serve_requests demo_router demo_parsers (\<lambda>_. Null)
     (bridge_new (demo_context None) (demo_grant 4)) ?reqs"
  have times: "message_times (snd ?run) = [0]" by code_simp
  have run: "?run = (fst ?run, snd ?run)" by (rule prod.collapse [symmetric])
  have lim: "max_messages_per_minute (grant_limits (demo_grant 4)) = Some 1" by code_simp
  have "sorted (map fst ?reqs)" by simp
  from relay_rate_limit [OF run this lim, of 0] times show ?thesis by simp
qed

text \<open>
  C4: the agents a discovery call returns are permitted by the grant and at most as many as it
  allows, whatever page the router produced.
\<close>

theorem discovery_is_filtered:
  assumes "call_tool router parsers now b name arguments = (r, b', acts, calls)"
    and "result_structured_content r = PagePayload page"
  shows "list_all (\<lambda>entry. permits_discovery (bridge_grant b) (entry_address entry)) (page_agents page)
    \<and> (\<exists>d. grant_discovery (bridge_grant b) = Some d
           \<and> length (page_agents page) \<le> unat (discovery_max_results d))"
proof -
  obtain q where d: "dispatch_tool router parsers now b name arguments = (Inr q, b', acts, calls)" "q = r"
    using assms by (auto simp: call_tool_def tool_error_def split: prod.splits sum.splits)
  then have "call_discover router parsers b arguments = (Inr r, b', acts, calls)"
    using assms(2) not_a_page by (auto simp: dispatch_tool_def split: if_splits)
  then show ?thesis using assms(2) by (rule call_discover_page)
qed


theorem discovery_is_filtered_witness:
  "\<exists>page. result_structured_content (fst (call_tool demo_router demo_parsers 0
        (bridge_new (demo_context None) (demo_grant 4)) AGENT_RELAY_TOOL_DISCOVER Null)) = PagePayload page
     \<and> length (page_agents page) = 1
     \<and> list_all (\<lambda>entry. permits_discovery (demo_grant 4) (entry_address entry)) (page_agents page)"
proof -
  let ?b = "bridge_new (demo_context None) (demo_grant 4)"
  let ?run = "call_tool demo_router demo_parsers 0 ?b AGENT_RELAY_TOOL_DISCOVER Null"
  let ?page = "\<lparr>page_agents = [demo_entry ''peer''], page_next_cursor = None\<rparr>"
  have page: "result_structured_content (fst ?run) = PagePayload ?page" by code_simp
  have "?run = (fst ?run, fst (snd ?run), fst (snd (snd ?run)), snd (snd (snd ?run)))" by simp
  from discovery_is_filtered [OF this page] page show ?thesis by (simp add: bridge_new_def)
qed

text \<open>
  C5: when the hop limit of a message is below the largest \<open>u8\<close>, every chain of messages that
  agents relay in answer to it ends: it has at most as many members as hops are left, plus one.
\<close>

theorem relay_chain_bounded:
  assumes "successively relayed_hop (p # ps)" and "prov_hop_limit p < 255"
    and "prov_hop_count p \<le> prov_hop_limit p"
  shows "length ps \<le> unat (prov_hop_limit p) - unat (prov_hop_count p)"
  using assms
proof (induction ps arbitrary: p)
  case Nil
  then show ?case by simp
next
  case (Cons q ps)
  have hop: "relayed_hop p q" using Cons.prems(1) by simp
  have lt: "unat (prov_hop_limit p) < 255" using Cons.prems(2) by (simp add: word_less_nat_alt)
  note facts = relayed_hop_admissible [OF hop]
  have le: "unat (prov_hop_limit q) \<le> unat (prov_hop_limit p)"
    using facts(3) by (simp add: word_le_nat_alt)
  have cnt: "unat (prov_hop_count q) = Suc (unat (prov_hop_count p))"
    using facts(1) Cons.prems(3) lt by (simp add: sat_simps word_le_nat_alt)
  have "length ps \<le> unat (prov_hop_limit q) - unat (prov_hop_count q)"
    using Cons.IH [of q] Cons.prems(1,2) facts(2,3) by simp
  moreover have "unat (prov_hop_count q) \<le> unat (prov_hop_limit q)"
    using facts(2) by (simp add: word_le_nat_alt)
  ultimately show ?case using cnt le by simp
qed

theorem relay_chain_bounded_witness:
  "length [demo_provenance 1 4] \<le> unat (prov_hop_limit (demo_provenance 0 4)) - unat (prov_hop_count (demo_provenance 0 4))"
proof (rule relay_chain_bounded)
  let ?p = "demo_provenance 0 4" and ?q = "demo_provenance 1 4"
  let ?b = "bridge_new (demo_context (Some ?p)) (demo_grant 4)"
  have "list_ex (\<lambda>(_, c). carries_hop c ?q)
      (snd (serve_requests demo_router demo_parsers (\<lambda>_. Null) ?b [(0, demo_request AGENT_RELAY_TOOL_SEND)]))"
    by code_simp
  moreover have "context_inbound (bridge_context ?b) = Some ?p" by code_simp
  ultimately have "relayed_hop ?p ?q" unfolding relayed_hop_def by blast
  then show "successively relayed_hop [?p, ?q]" by simp
qed code_simp+

text \<open>
  C6: at the largest \<open>u8\<close> the guard does nothing: the saturating hop counter of a message with
  count and limit 255 stays at 255, so a grant with \<open>max_hops\<close> 255, which validates, lets a
  chain of relayed messages go on for ever.
\<close>

theorem hop_guard_inert_at_255:
  "grant_validate (demo_grant 255) = Inr () \<and>
   (\<exists>p. prov_hop_limit p = 255 \<and> (\<forall>n. successively relayed_hop (replicate n p)))"
proof -
  let ?p = "demo_provenance 255 255"
  let ?b = "bridge_new (demo_context (Some ?p)) (demo_grant 255)"
  have "list_ex (\<lambda>(_, c). carries_hop c ?p)
      (snd (serve_requests demo_router demo_parsers (\<lambda>_. Null) ?b [(0, demo_request AGENT_RELAY_TOOL_SEND)]))"
    by code_simp
  moreover have "context_inbound (bridge_context ?b) = Some ?p" by code_simp
  ultimately have hop: "relayed_hop ?p ?p" unfolding relayed_hop_def by blast
  have "successively relayed_hop (replicate n ?p)" for n
  proof (induction n)
    case (Suc n)
    with hop show ?case by (cases n) simp_all
  qed simp
  moreover have "prov_hop_limit ?p = 255" by code_simp
  moreover have "grant_validate (demo_grant 255) = Inr ()" by code_simp
  ultimately show ?thesis by blast
qed

end
