(* ===== verification/Types.thy ===== *)
theory Types
  imports Relay
begin

text \<open>
  Model of the provider-neutral data of \<^verbatim>\<open>src/types.rs\<close> and of the sandbox data of
  \<^verbatim>\<open>src/sandbox.rs\<close> that events carry: launch contexts, permission modes, secrets, turn events,
  interactions and turn results, with the small operations on them. A \<open>PathBuf\<close> and an
  \<open>OsString\<close> are byte strings, a \<open>Duration\<close> is a number of nanoseconds.
\<close>

type_synonym path = string
type_synonym duration = nat

definition nanos_per_milli :: nat where "nanos_per_milli = 10 ^ 6"
definition nanos_per_second :: nat where "nanos_per_second = 10 ^ 9"

definition duration_from_secs :: "nat \<Rightarrow> duration" where
  "duration_from_secs s = s * nanos_per_second"

definition duration_from_mins :: "nat \<Rightarrow> duration" where
  "duration_from_mins m = m * 60 * nanos_per_second"

definition duration_from_millis :: "u64 \<Rightarrow> duration" where
  "duration_from_millis ms = unat ms * nanos_per_milli"

definition as_millis :: "duration \<Rightarrow> nat" where
  "as_millis d = d div nanos_per_milli"

section \<open>Launch configuration\<close>

datatype McpServerConfig =
    Stdio path "string list" "(string, string) btreemap"
  | Http string "(string, string) btreemap"

record LaunchContext =
  launch_system_prompt_append :: "string option"
  launch_allowed_tools :: "string list option"
  launch_mcp_servers :: "(string, McpServerConfig) btreemap"
  launch_strict_mcp_config :: bool

definition LaunchContext_default :: LaunchContext where
  "LaunchContext_default =
     \<lparr>launch_system_prompt_append = None, launch_allowed_tools = None, launch_mcp_servers = [],
      launch_strict_mcp_config = False\<rparr>"

record LaunchContextCapabilities =
  lcap_system_prompt_append :: bool
  lcap_allowed_tools :: bool
  lcap_stdio_mcp :: bool
  lcap_http_mcp :: bool
  lcap_strict_mcp_config :: bool

record TurnCapabilities =
  tcap_manual_compaction :: bool
  tcap_compaction_instructions :: bool
  tcap_native_image_attachments :: bool
  tcap_context_window_usage :: bool
  tcap_compaction_lifecycle :: bool
  tcap_live_messages :: bool

datatype Provider = Claude | Codex | OpenCode | Pi | Acp

fun display_provider :: "Provider \<Rightarrow> string" where
  "display_provider Claude = ''Claude Code''"
| "display_provider Codex = ''Codex''"
| "display_provider OpenCode = ''OpenCode''"
| "display_provider Pi = ''pi''"
| "display_provider Acp = ''ACP agent''"

datatype PermissionMode = Default | AcceptEdits | Plan | FullAccess | Custom string

datatype ToolProcessPolicy = PreserveOnCompletion | TerminateOnCompletion

record PermissionSupport =
  support_default :: bool
  support_accept_edits :: bool
  support_plan :: bool
  support_full_access :: bool
  support_custom :: bool
  support_live_approvals :: bool
  support_live_questions :: bool

fun permission_supports :: "PermissionSupport \<Rightarrow> PermissionMode \<Rightarrow> bool" where
  "permission_supports s Default = support_default s"
| "permission_supports s AcceptEdits = support_accept_edits s"
| "permission_supports s Plan = support_plan s"
| "permission_supports s FullAccess = support_full_access s"
| "permission_supports s (Custom _) = support_custom s"

datatype SecretString = SecretString (expose: string) (diagnostic_classification: "bool option")

definition SecretString_new :: "string \<Rightarrow> SecretString" where
  "SecretString_new value = SecretString value None"

definition SecretString_credential :: "string \<Rightarrow> SecretString" where
  "SecretString_credential value = SecretString value (Some True)"

definition SecretString_non_secret_configuration :: "string \<Rightarrow> SecretString" where
  "SecretString_non_secret_configuration value = SecretString value (Some False)"

text \<open>\<open>environment_secret\<close> is the scrubber's classification by variable name and value.\<close>

definition to_ascii_upper :: "char \<Rightarrow> char" where
  "to_ascii_upper c =
     (if 97 \<le> (of_char c :: nat) \<and> (of_char c :: nat) \<le> 122
      then char_of ((of_char c :: nat) - 32) else c)"

definition to_ascii_uppercase :: "string \<Rightarrow> string" where
  "to_ascii_uppercase s = map to_ascii_upper s"

definition eq_ignore_ascii_case :: "string \<Rightarrow> string \<Rightarrow> bool" where
  "eq_ignore_ascii_case s t = (to_ascii_lowercase s = to_ascii_lowercase t)"

definition diagnostic_secret :: "(string \<Rightarrow> string \<Rightarrow> bool) \<Rightarrow> SecretString \<Rightarrow> string \<Rightarrow> bool" where
  "diagnostic_secret environment_secret secret name =
     (if diagnostic_classification secret = Some True
         \<or> to_ascii_uppercase name \<in> {''HTTP_PROXY'', ''HTTPS_PROXY'', ''ALL_PROXY''}
         \<or> eq_ignore_ascii_case name ''GIT_CONFIG_VALUE_0'' \<and> expose secret \<noteq> ''*''
      then True
      else diagnostic_classification secret \<noteq> Some False \<and> environment_secret name (expose secret))"

datatype TurnProvenance = User | Agent AgentMessageProvenance

datatype AutoCompactionPolicy = ProviderDefault | Automatic | TokenThreshold u64

section \<open>Sandbox values that events carry\<close>

record SandboxProfileRef =
  profile_id :: string
  profile_revision :: "string option"

datatype SandboxPathAccess = Read | Write | ReadWrite

datatype SandboxResource =
    Path path "SandboxPathAccess option"
  | NetworkDestination string
  | Credential string
  | Other string string

record SandboxViolation =
  violation_step_id :: "string option"
  violation_tool_name :: "string option"
  violation_resource :: SandboxResource
  violation_message :: string

datatype SandboxProfileChange =
    GrantPath path SandboxPathAccess bool
  | AllowNetworkDestination string
  | AddCredential string
  | Custom string Value

section \<open>Usage, tasks and plans\<close>

record ContextWindowUsage =
  window_used_tokens :: "u64 option"
  window_limit_tokens :: "u64 option"
  window_model :: "string option"
  window_estimated :: bool

definition remaining_tokens :: "ContextWindowUsage \<Rightarrow> u64 option" where
  "remaining_tokens w =
     (case window_limit_tokens w of
        None \<Rightarrow> None
      | Some limit \<Rightarrow>
          (case window_used_tokens w of None \<Rightarrow> None | Some used \<Rightarrow> Some (saturating_sub limit used)))"

record Usage =
  usage_input_tokens :: "u64 option"
  usage_output_tokens :: "u64 option"
  usage_cache_creation_input_tokens :: "u64 option"
  usage_cache_read_input_tokens :: "u64 option"
  usage_context_window :: "ContextWindowUsage option"
  usage_cost_usd :: "f64 option"

definition Usage_default :: Usage where
  "Usage_default =
     \<lparr>usage_input_tokens = None, usage_output_tokens = None, usage_cache_creation_input_tokens = None,
      usage_cache_read_input_tokens = None, usage_context_window = None, usage_cost_usd = None\<rparr>"

datatype AccountUsageWindowKind = Session | Weekly | Other

record AccountUsageWindow =
  quota_id :: string
  quota_label :: "string option"
  quota_kind :: AccountUsageWindowKind
  quota_used_percent :: f64
  quota_duration_minutes :: "u64 option"
  quota_resets_at_unix_seconds :: "u64 option"

record AccountCredits =
  credits_unlimited :: bool
  credits_balance :: "string option"
  credits_currency :: "string option"

record AccountUsageSnapshot =
  snapshot_provider :: Provider
  snapshot_plan :: "string option"
  snapshot_windows :: "AccountUsageWindow list"
  snapshot_credits :: "AccountCredits option"

datatype AccountUsageStatus = Available | Unavailable | Unsupported

record AccountUsageReport =
  report_provider :: Provider
  report_status :: AccountUsageStatus
  report_usage :: "AccountUsageSnapshot option"
  report_reason :: "string option"
  report_retryable :: bool

definition AccountUsageReport_available :: "AccountUsageSnapshot \<Rightarrow> AccountUsageReport" where
  "AccountUsageReport_available usage =
     \<lparr>report_provider = snapshot_provider usage, report_status = Available, report_usage = Some usage,
      report_reason = None, report_retryable = False\<rparr>"

definition AccountUsageReport_unavailable :: "Provider \<Rightarrow> string \<Rightarrow> bool \<Rightarrow> AccountUsageReport" where
  "AccountUsageReport_unavailable provider reason retryable =
     \<lparr>report_provider = provider, report_status = AccountUsageStatus.Unavailable, report_usage = None,
      report_reason = Some reason, report_retryable = retryable\<rparr>"

definition AccountUsageReport_unsupported :: "Provider \<Rightarrow> string \<Rightarrow> AccountUsageReport" where
  "AccountUsageReport_unsupported provider reason =
     \<lparr>report_provider = provider, report_status = Unsupported, report_usage = None,
      report_reason = Some reason, report_retryable = False\<rparr>"

datatype CompactionTrigger = Automatic | Manual | Unknown

record ContextCompaction =
  compaction_trigger :: CompactionTrigger
  compaction_pre_tokens :: "u64 option"
  compaction_post_tokens :: "u64 option"
  compaction_dropped_tokens :: "u64 option"
  compaction_cumulative_dropped_tokens :: "u64 option"
  compaction_duration_ms :: "u64 option"


record AgentWorkflowPhase =
  phase_index :: u32
  phase_title :: string
  phase_kind :: "string option"

datatype AgentWorkflowAgentState = Queued | Running | Completed | Failed | Blocked

record AgentWorkflowAgent =
  wagent_index :: u32
  wagent_label :: string
  wagent_state :: AgentWorkflowAgentState
  wagent_native_state :: string
  wagent_phase_index :: "u32 option"
  wagent_phase_title :: "string option"
  wagent_agent_id :: "string option"
  wagent_agent_type :: "string option"
  wagent_model :: "string option"
  wagent_isolation :: "string option"
  wagent_attempt :: "u32 option"
  wagent_cached :: bool
  wagent_tokens :: "u64 option"
  wagent_tool_calls :: "u64 option"
  wagent_duration_ms :: "u64 option"
  wagent_queued_at_ms :: "u64 option"
  wagent_started_at_ms :: "u64 option"
  wagent_last_progress_at_ms :: "u64 option"
  wagent_last_tool_name :: "string option"
  wagent_last_tool_summary :: "string option"
  wagent_prompt_preview :: "string option"
  wagent_result_preview :: "string option"
  wagent_error :: "string option"

record AgentWorkflow =
  workflow_name :: "string option"
  workflow_run_id :: "string option"
  workflow_transcript_dir :: "string option"
  workflow_phases :: "AgentWorkflowPhase list"
  workflow_agents :: "AgentWorkflowAgent list"
  workflow_logs :: "string list"
  workflow_omitted_agents :: u32

text \<open>\<open>Path::join\<close> with a relative component that is not absolute: one separator between the parts.\<close>

definition path_join :: "path \<Rightarrow> string \<Rightarrow> path" where
  "path_join directory name =
     (if directory = [] then name
      else if last directory = CHR ''/'' then directory @ name
      else directory @ ''/'' @ name)"

definition agent_transcript_path :: "AgentWorkflow \<Rightarrow> AgentWorkflowAgent \<Rightarrow> path option" where
  "agent_transcript_path w agent =
     (case workflow_transcript_dir w of
        None \<Rightarrow> None
      | Some directory \<Rightarrow>
          (case wagent_agent_id agent of
             None \<Rightarrow> None
           | Some agent_id \<Rightarrow>
               if agent_id \<noteq> [] \<and> length agent_id \<le> 128
                  \<and> list_all (\<lambda>byte. is_ascii_alphanumeric byte \<or> byte = CHR ''-'' \<or> byte = CHR ''_'') agent_id
               then Some (path_join directory (''agent-'' @ agent_id @ ''.jsonl''))
               else None))"

record AgentTask =
  task_id :: string
  task_kind :: string
  task_description :: string
  task_status :: string
  task_agent_type :: "string option"
  task_model :: "string option"
  task_error :: "string option"
  task_summary :: "string option"
  task_workflow :: "AgentWorkflow option"

record AgentTaskUsage =
  task_usage_total_tokens :: u64
  task_usage_tool_uses :: u64
  task_usage_duration_ms :: u64

datatype AgentTaskActivityKind = Started | Updated | Progress | Completed | Failed | Stopped

record AgentTaskActivity =
  task_activity_task_id :: string
  task_activity_kind :: AgentTaskActivityKind
  task_activity_description :: "string option"
  task_activity_status :: "string option"
  task_activity_agent_type :: "string option"
  task_activity_summary :: "string option"
  task_activity_last_tool_name :: "string option"
  task_activity_spawn_depth :: "u32 option"
  task_activity_usage :: "AgentTaskUsage option"
  task_activity_workflow_agent :: "AgentWorkflowAgent option"

record ToolImage =
  image_media_type :: string
  image_data :: string
  image_sha256 :: string

datatype PlanEntryStatus = Pending | InProgress | Completed

record PlanEntry =
  plan_content :: string
  plan_status :: PlanEntryStatus
  plan_priority :: "string option"

section \<open>Interactions\<close>

record QuestionOption =
  option_label :: string
  option_description :: string

record QuestionPrompt =
  prompt_header :: string
  prompt_question :: string
  prompt_options :: "QuestionOption list"
  prompt_multi_select :: bool

record ApprovalRequest =
  approval_id :: string
  approval_tool_name :: string
  approval_input :: Value
  approval_description :: "string option"

record QuestionRequest =
  question_id :: string
  question_prompts :: "QuestionPrompt list"
  question_questions :: Value

text \<open>\<open>from_value\<close> is serde's decoder of a list of prompts.\<close>

definition QuestionRequest_new ::
    "(Value \<Rightarrow> string + QuestionPrompt list) \<Rightarrow> string \<Rightarrow> Value \<Rightarrow> QuestionRequest" where
  "QuestionRequest_new from_value qid questions =
     (let value = (case json_get questions ''questions'' of None \<Rightarrow> questions | Some v \<Rightarrow> v)
      in \<lparr>question_id = qid,
          question_prompts = (case from_value value of Inl _ \<Rightarrow> [] | Inr prompts \<Rightarrow> prompts),
          question_questions = questions\<rparr>)"

definition request_prompts ::
    "(Value \<Rightarrow> string + QuestionPrompt list) \<Rightarrow> QuestionRequest \<Rightarrow> string + QuestionPrompt list" where
  "request_prompts from_value q =
     (if question_prompts q \<noteq> [] then Inr (question_prompts q)
      else from_value (case json_get (question_questions q) ''questions'' of
                         None \<Rightarrow> question_questions q | Some v \<Rightarrow> v))"

datatype ApprovalDecision = Allow | AllowForSession | Deny "string option"

datatype QuestionAnswer = QuestionAnswer (answers: Value)

definition QuestionAnswer_selected :: "string \<Rightarrow> string \<Rightarrow> QuestionAnswer" where
  "QuestionAnswer_selected question value =
     QuestionAnswer (Object (bt_insert question (String value) []))"

text \<open>The handler that fails closed.\<close>

definition deny_all_approve :: "ApprovalRequest \<Rightarrow> ApprovalDecision" where
  "deny_all_approve r = Deny (Some ''No interaction handler is configured'')"

definition deny_all_answer :: "QuestionRequest \<Rightarrow> QuestionAnswer option" where
  "deny_all_answer r = None"

section \<open>Turn events and results\<close>

datatype ToolCallStatus = Started | Succeeded | Failed

datatype ProviderProcessStatus = Checking | Replacing | Ready | Stopped

datatype (plugins only: code size) TurnEvent =
    InputMessageState string string
  | InputControl string bool bool string
  | SessionStarted string "string option"
  | SessionTitle string
  | TextDelta string
  | ReasoningDelta string
  | PermissionModeChanged PermissionMode
  | ToolCall "string option" string ToolCallStatus "Value option" "string option" "string option"
      "string option" "ToolImage list"
  | ToolProgress string string u64
  | PlanUpdated "PlanEntry list"
  | TasksChanged "AgentTask list"
  | TaskActivity AgentTaskActivity
  | CompactionStarted CompactionTrigger
  | CompactionCompleted ContextCompaction
  | CompactionFailed CompactionTrigger "string option"
  | AgentRelayActivity AgentRelayActivity
  | ApprovalRequested ApprovalRequest
  | PlanApprovalRequested ApprovalRequest
  | QuestionRequested QuestionRequest
  | AsyncQuestionRequested QuestionRequest
  | Usage Usage
  | AccountUsageUpdated AccountUsageSnapshot
  | ReplyFinishedWithBackgroundTasks "string list"
  | Warning string
  | SettingsDeferred string "string list"
  | ProviderProcessStatus ProviderProcessStatus string
  | SandboxAccessDenied "SandboxProfileRef option" SandboxViolation
  | SandboxProfileUpdated SandboxProfileRef SandboxProfileChange
  | SandboxStepRetrying "string option" u8

datatype RunStatus = Succeeded | Failed

record TurnResult =
  turn_status :: RunStatus
  turn_text :: string
  turn_reasoning :: "string option"
  turn_session_id :: "string option"
  turn_session_title :: "string option"
  turn_model :: "string option"
  turn_usage :: Usage

definition TurnResult_default :: TurnResult where
  "TurnResult_default =
     \<lparr>turn_status = RunStatus.Succeeded, turn_text = [], turn_reasoning = None, turn_session_id = None,
      turn_session_title = None, turn_model = None, turn_usage = Usage_default\<rparr>"

end
