(* ===== verification/Sandbox.thy ===== *)
theory Sandbox
  imports Types
begin

text \<open>
  Model of \<^verbatim>\<open>src/sandbox.rs\<close>: the capability algebra and the selection of a sandbox backend for a
  turn, directly or through a managed profile. Backends and profile managers are application
  code: records of the functions of the traits \<open>SandboxBackend\<close> and \<open>SandboxProfileManager\<close>.
\<close>

section \<open>Capabilities\<close>

record SandboxCapabilities =
  cap_filesystem :: bool
  cap_network_block :: bool
  cap_network_allowlist :: bool
  cap_credentials :: bool
  cap_audit :: bool
  cap_process_isolation :: bool

definition capabilities_NONE :: SandboxCapabilities where
  "capabilities_NONE =
     \<lparr>cap_filesystem = False, cap_network_block = False, cap_network_allowlist = False,
      cap_credentials = False, cap_audit = False, cap_process_isolation = False\<rparr>"

definition satisfies :: "SandboxCapabilities \<Rightarrow> SandboxCapabilities \<Rightarrow> bool" where
  "satisfies self required \<longleftrightarrow>
     (\<not> cap_filesystem required \<or> cap_filesystem self)
     \<and> (\<not> cap_network_block required \<or> cap_network_block self)
     \<and> (\<not> cap_network_allowlist required \<or> cap_network_allowlist self)
     \<and> (\<not> cap_credentials required \<or> cap_credentials self)
     \<and> (\<not> cap_audit required \<or> cap_audit self)
     \<and> (\<not> cap_process_isolation required \<or> cap_process_isolation self)"

definition capabilities_union :: "SandboxCapabilities \<Rightarrow> SandboxCapabilities \<Rightarrow> SandboxCapabilities" where
  "capabilities_union self other =
     \<lparr>cap_filesystem = cap_filesystem self \<or> cap_filesystem other,
      cap_network_block = cap_network_block self \<or> cap_network_block other,
      cap_network_allowlist = cap_network_allowlist self \<or> cap_network_allowlist other,
      cap_credentials = cap_credentials self \<or> cap_credentials other,
      cap_audit = cap_audit self \<or> cap_audit other,
      cap_process_isolation = cap_process_isolation self \<or> cap_process_isolation other\<rparr>"

definition capabilities_missing :: "SandboxCapabilities \<Rightarrow> SandboxCapabilities \<Rightarrow> string list" where
  "capabilities_missing self required =
     map snd (filter fst
       [(cap_filesystem required \<and> \<not> cap_filesystem self, ''filesystem''),
        (cap_network_block required \<and> \<not> cap_network_block self, ''network_block''),
        (cap_network_allowlist required \<and> \<not> cap_network_allowlist self, ''network_allowlist''),
        (cap_credentials required \<and> \<not> cap_credentials self, ''credentials''),
        (cap_audit required \<and> \<not> cap_audit self, ''audit''),
        (cap_process_isolation required \<and> \<not> cap_process_isolation self, ''process_isolation'')])"

section \<open>Backends and profile managers\<close>

record SandboxContext =
  sandbox_provider :: Provider
  sandbox_working_directory :: path

record CommandSpec =
  command_program :: path
  command_args :: "string list"
  command_environment :: "(string, string) btreemap"
  command_clear_environment :: bool
  command_initial_stdin :: "string option"
  command_interactive_stdin :: bool
  command_loopback_ports :: "u16 list"

definition profile_current :: "string \<Rightarrow> SandboxProfileRef" where
  "profile_current i = \<lparr>profile_id = i, profile_revision = None\<rparr>"

definition profile_at_revision :: "string \<Rightarrow> string \<Rightarrow> SandboxProfileRef" where
  "profile_at_revision i revision = \<lparr>profile_id = i, profile_revision = Some revision\<rparr>"

record SandboxProfileUpdate =
  update_profile :: SandboxProfileRef
  update_change :: SandboxProfileChange
  update_violation :: SandboxViolation

text \<open>The boxed source of a backend error is its text.\<close>

datatype SandboxError =
    MissingCapabilities string "string list"
  | Backend string string
  | InvalidProfile string string string
  | ProfileTimeout string string u64

record SandboxBackend =
  backend_name :: string
  backend_capabilities :: SandboxCapabilities
  backend_prepare :: "SandboxContext \<Rightarrow> CommandSpec \<Rightarrow> SandboxError + CommandSpec"
  backend_classify_event :: "TurnEvent \<Rightarrow> SandboxViolation option"

record ResolvedSandboxProfile =
  resolved_profile_ref :: SandboxProfileRef
  resolved_profile_backend :: SandboxBackend

record SandboxProfileManager =
  manager_name :: string
  manager_capabilities :: SandboxCapabilities
  manager_resolve :: "SandboxProfileRef \<Rightarrow> SandboxContext \<Rightarrow> SandboxError + ResolvedSandboxProfile"
  manager_update :: "SandboxProfileUpdate \<Rightarrow> SandboxContext \<Rightarrow> SandboxError + ResolvedSandboxProfile"

record SandboxRecoveryRequest =
  recovery_profile :: SandboxProfileRef
  recovery_violation :: SandboxViolation
  recovery_attempt :: u8

datatype SandboxRecoveryDecision = Deny "string option" | Retry SandboxProfileChange

record SandboxRecoveryPolicy =
  recovery_max_retries :: u8

definition SandboxRecoveryPolicy_default :: SandboxRecoveryPolicy where
  "SandboxRecoveryPolicy_default = \<lparr>recovery_max_retries = 1\<rparr>"

section \<open>Selection\<close>

datatype SandboxSource = Direct SandboxBackend | Managed SandboxProfileManager SandboxProfileRef

record SandboxRequest =
  sandbox_source :: SandboxSource
  sandbox_required :: SandboxCapabilities

record ResolvedSandbox =
  resolved_backend :: SandboxBackend
  resolved_profile :: "SandboxProfileRef option"
  resolved_required :: SandboxCapabilities

definition sandbox_as_request :: "ResolvedSandbox \<Rightarrow> SandboxRequest" where
  "sandbox_as_request r =
     \<lparr>sandbox_source = Direct (resolved_backend r), sandbox_required = resolved_required r\<rparr>"

definition sandbox_classify_event :: "ResolvedSandbox \<Rightarrow> TurnEvent \<Rightarrow> SandboxViolation option" where
  "sandbox_classify_event r event = backend_classify_event (resolved_backend r) event"

definition sandbox_new :: "SandboxBackend \<Rightarrow> SandboxRequest" where
  "sandbox_new backend = \<lparr>sandbox_source = Direct backend, sandbox_required = capabilities_NONE\<rparr>"

definition sandbox_managed :: "SandboxProfileManager \<Rightarrow> SandboxProfileRef \<Rightarrow> SandboxRequest" where
  "sandbox_managed manager profile =
     \<lparr>sandbox_source = Managed manager profile, sandbox_required = capabilities_NONE\<rparr>"

definition sandbox_requiring :: "SandboxRequest \<Rightarrow> SandboxCapabilities \<Rightarrow> SandboxRequest" where
  "sandbox_requiring r required = r\<lparr>sandbox_required := required\<rparr>"

definition sandbox_backend_name :: "SandboxRequest \<Rightarrow> string" where
  "sandbox_backend_name r =
     (case sandbox_source r of Direct backend \<Rightarrow> backend_name backend | Managed manager _ \<Rightarrow> manager_name manager)"

definition sandbox_capabilities :: "SandboxRequest \<Rightarrow> SandboxCapabilities" where
  "sandbox_capabilities r =
     (case sandbox_source r of
        Direct backend \<Rightarrow> backend_capabilities backend
      | Managed manager _ \<Rightarrow> manager_capabilities manager)"

definition validate_capabilities :: "SandboxRequest \<Rightarrow> SandboxCapabilities \<Rightarrow> SandboxError + unit" where
  "validate_capabilities r available =
     (if satisfies available (sandbox_required r) then Inr ()
      else Inl (MissingCapabilities (sandbox_backend_name r)
             (capabilities_missing available (sandbox_required r))))"

definition sandbox_validate :: "SandboxRequest \<Rightarrow> SandboxError + unit" where
  "sandbox_validate r = validate_capabilities r (sandbox_capabilities r)"

definition sandbox_resolve :: "SandboxRequest \<Rightarrow> SandboxContext \<Rightarrow> SandboxError + ResolvedSandbox" where
  "sandbox_resolve r context =
     and_then
       (case sandbox_source r of
          Direct backend \<Rightarrow> Inr (backend, None)
        | Managed manager profile \<Rightarrow>
            and_then (manager_resolve manager profile context)
              (\<lambda>resolved.
                 if profile_id (resolved_profile_ref resolved) \<noteq> profile_id profile
                 then Inl (InvalidProfile (manager_name manager) (profile_id profile)
                        ''resolved profile identity changed'')
                 else Inr (resolved_profile_backend resolved, Some (resolved_profile_ref resolved))))
       (\<lambda>(backend, profile).
          and_then (validate_capabilities r (backend_capabilities backend))
            (\<lambda>_. Inr \<lparr>resolved_backend = backend, resolved_profile = profile,
                      resolved_required = sandbox_required r\<rparr>))"

definition managed_parts :: "SandboxRequest \<Rightarrow> (SandboxProfileManager \<times> SandboxProfileRef) option" where
  "managed_parts r =
     (case sandbox_source r of Managed manager profile \<Rightarrow> Some (manager, profile) | Direct _ \<Rightarrow> None)"

definition sandbox_prepare ::
    "SandboxRequest \<Rightarrow> SandboxContext \<Rightarrow> CommandSpec \<Rightarrow> SandboxError + CommandSpec" where
  "sandbox_prepare r context command =
     and_then (sandbox_resolve r context) (\<lambda>resolved. backend_prepare (resolved_backend resolved) context command)"

section \<open>Lemmas\<close>

lemma missing_Nil_iff: "capabilities_missing a r = [] \<longleftrightarrow> satisfies a r"
  by (auto simp: capabilities_missing_def satisfies_def)

lemma satisfies_refl: "satisfies a a"
  by (simp add: satisfies_def)

lemma satisfies_trans: "satisfies a b \<Longrightarrow> satisfies b c \<Longrightarrow> satisfies a c"
  by (auto simp: satisfies_def)

lemma satisfies_antisym: "satisfies a b \<Longrightarrow> satisfies b a \<Longrightarrow> a = b"
  by (cases a; cases b) (auto simp: satisfies_def)

text \<open>
  C11: \<open>union\<close> is the least capability set that satisfies both layers: a nested execution
  satisfies exactly what follows from what its layers enforce together.
\<close>

theorem union_is_least:
  "satisfies r (capabilities_union a b) \<longleftrightarrow> satisfies r a \<and> satisfies r b"
  by (auto simp: satisfies_def capabilities_union_def)

text \<open>
  C8: preparation fails closed: a command comes back only from a backend whose own
  capabilities, after profile resolution, satisfy every required control, and a managed
  profile resolves only to its own identity.
\<close>

theorem sandbox_prepare_fails_closed:
  assumes "sandbox_prepare r context command = Inr command'"
  shows "\<exists>backend. backend_prepare backend context command = Inr command'
    \<and> satisfies (backend_capabilities backend) (sandbox_required r)
    \<and> (case sandbox_source r of
         Direct configured \<Rightarrow> backend = configured
       | Managed manager profile \<Rightarrow>
           \<exists>resolved. manager_resolve manager profile context = Inr resolved
             \<and> profile_id (resolved_profile_ref resolved) = profile_id profile
             \<and> backend = resolved_profile_backend resolved)"
  using assms
  by (cases "sandbox_source r")
    (auto simp: sandbox_prepare_def sandbox_resolve_def validate_capabilities_def and_then_eq_Inr
      split: if_splits)

definition demo_backend :: SandboxBackend where
  "demo_backend =
     \<lparr>backend_name = ''demo'', backend_capabilities = capabilities_NONE\<lparr>cap_filesystem := True\<rparr>,
      backend_prepare = \<lambda>_ c. Inr (c\<lparr>command_args := ''wrapped'' # command_args c\<rparr>),
      backend_classify_event = \<lambda>_. None\<rparr>"

definition demo_command :: CommandSpec where
  "demo_command =
     \<lparr>command_program = ''agent'', command_args = [], command_environment = [], command_clear_environment = True,
      command_initial_stdin = None, command_interactive_stdin = False, command_loopback_ports = []\<rparr>"

theorem sandbox_prepare_fails_closed_witness:
  "\<exists>backend :: SandboxBackend. backend_prepare backend \<lparr>sandbox_provider = Claude, sandbox_working_directory = ''w''\<rparr> demo_command
       = Inr (demo_command\<lparr>command_args := [''wrapped'']\<rparr>)
    \<and> satisfies (backend_capabilities backend) (capabilities_NONE\<lparr>cap_filesystem := True\<rparr>)"
proof -
  let ?r = "sandbox_requiring (sandbox_new demo_backend) (capabilities_NONE\<lparr>cap_filesystem := True\<rparr>)"
  have "sandbox_prepare ?r \<lparr>sandbox_provider = Claude, sandbox_working_directory = ''w''\<rparr> demo_command
      = Inr (demo_command\<lparr>command_args := [''wrapped'']\<rparr>)" by code_simp
  from sandbox_prepare_fails_closed [OF this] show ?thesis
    by (auto simp: sandbox_requiring_def sandbox_new_def)
qed

end
