(* ===== verification/Errors.thy ===== *)
theory Errors
  imports Sandbox
begin

text \<open>
  Model of \<^verbatim>\<open>src/error.rs\<close>, of the transport error of \<^verbatim>\<open>src/transport.rs\<close> and of the failure contracts
  of \<^verbatim>\<open>src/retained.rs\<close>: the typed errors of a turn, the classification of a provider diagnostic and
  the mapping to a \<open>RuntimeFailure\<close> with its retry advice and delivery state. The source of an
  I/O error is its text.
\<close>

section \<open>Typed errors\<close>

datatype ProviderProcessErrorKind =
    AuthenticationFailed
  | PermissionDenied
  | ModelUnavailable
  | RateLimited
  | Network
  | Unknown

datatype TransportErrorKind =
    InvalidConfiguration
  | AuthenticationFailed
  | HostKeyVerificationFailed
  | NameResolutionFailed
  | ConnectionRefused
  | ConnectionTimedOut
  | RemoteUnavailable
  | ExecutableNotFound
  | WorkingDirectoryNotFound
  | PermissionDenied
  | SpawnFailed
  | StreamFailed
  | ProcessControlFailed
  | Protocol
  | Unsupported

record TransportError =
  transport_error_kind :: TransportErrorKind
  transport_error_transport :: string
  transport_error_operation :: string
  transport_error_message :: string
  transport_error_retryable :: bool

datatype RuntimeError =
    InvalidRequest string string
  | AdapterUnavailable Provider
  | ExecutableNotFound Provider string
  | Spawn Provider path string
  | ProcessIo Provider string string
  | Transport Provider TransportError
  | TransportCapabilityUnavailable Provider string string string
  | Protocol Provider string
  | EventSink Provider string
  | Timeout Provider u64
  | StartupTimeout Provider u64
  | Cancelled Provider
  | ProcessFailed Provider ProviderProcessErrorKind "int option" string "string option" DeliveryState
  | Sandbox SandboxError
  | RestartWouldStopBackgroundWork Provider string "string list"
  | NothingToContinue Provider

section \<open>Messages\<close>

fun debug_process_error_kind :: "ProviderProcessErrorKind \<Rightarrow> string" where
  "debug_process_error_kind ProviderProcessErrorKind.AuthenticationFailed = ''AuthenticationFailed''"
| "debug_process_error_kind ProviderProcessErrorKind.PermissionDenied = ''PermissionDenied''"
| "debug_process_error_kind ProviderProcessErrorKind.ModelUnavailable = ''ModelUnavailable''"
| "debug_process_error_kind ProviderProcessErrorKind.RateLimited = ''RateLimited''"
| "debug_process_error_kind ProviderProcessErrorKind.Network = ''Network''"
| "debug_process_error_kind ProviderProcessErrorKind.Unknown = ''Unknown''"

fun debug_transport_error_kind :: "TransportErrorKind \<Rightarrow> string" where
  "debug_transport_error_kind InvalidConfiguration = ''InvalidConfiguration''"
| "debug_transport_error_kind TransportErrorKind.AuthenticationFailed = ''AuthenticationFailed''"
| "debug_transport_error_kind HostKeyVerificationFailed = ''HostKeyVerificationFailed''"
| "debug_transport_error_kind NameResolutionFailed = ''NameResolutionFailed''"
| "debug_transport_error_kind ConnectionRefused = ''ConnectionRefused''"
| "debug_transport_error_kind ConnectionTimedOut = ''ConnectionTimedOut''"
| "debug_transport_error_kind RemoteUnavailable = ''RemoteUnavailable''"
| "debug_transport_error_kind TransportErrorKind.ExecutableNotFound = ''ExecutableNotFound''"
| "debug_transport_error_kind WorkingDirectoryNotFound = ''WorkingDirectoryNotFound''"
| "debug_transport_error_kind TransportErrorKind.PermissionDenied = ''PermissionDenied''"
| "debug_transport_error_kind SpawnFailed = ''SpawnFailed''"
| "debug_transport_error_kind StreamFailed = ''StreamFailed''"
| "debug_transport_error_kind ProcessControlFailed = ''ProcessControlFailed''"
| "debug_transport_error_kind TransportErrorKind.Protocol = ''Protocol''"
| "debug_transport_error_kind TransportErrorKind.Unsupported = ''Unsupported''"

definition decimal_int :: "int \<Rightarrow> string" where
  "decimal_int i = (if i < 0 then ''-'' @ decimal (nat (- i)) else decimal (nat i))"

definition debug_exit_code :: "int option \<Rightarrow> string" where
  "debug_exit_code c = (case c of None \<Rightarrow> ''None'' | Some i \<Rightarrow> ''Some('' @ decimal_int i @ '')'')"

fun join_with :: "string \<Rightarrow> string list \<Rightarrow> string" where
  "join_with separator [] = []"
| "join_with separator [x] = x"
| "join_with separator (x # y # rest) = x @ separator @ join_with separator (y # rest)"

text \<open>The debug form of a list of the plain capability names, which need no escapes.\<close>

definition debug_names :: "string list \<Rightarrow> string" where
  "debug_names names = ''['' @ join_with '', '' (map (\<lambda>n. [CHR 0x22] @ n @ [CHR 0x22]) names) @ '']''"

definition display_transport_error :: "TransportError \<Rightarrow> string" where
  "display_transport_error e =
     transport_error_transport e @ '' '' @ transport_error_operation e @ '' failed ('' @
     debug_transport_error_kind (transport_error_kind e) @ ''): '' @ transport_error_message e"

fun display_sandbox_error :: "SandboxError \<Rightarrow> string" where
  "display_sandbox_error (MissingCapabilities backend missing) =
     ''sandbox backend `'' @ backend @ ''` is missing required capabilities: '' @ debug_names missing"
| "display_sandbox_error (Backend backend source) =
     ''sandbox backend `'' @ backend @ ''` failed: '' @ source"
| "display_sandbox_error (InvalidProfile manager profile text) =
     ''sandbox profile manager `'' @ manager @ ''` returned invalid profile `'' @ profile @ ''`: '' @ text"
| "display_sandbox_error (ProfileTimeout manager operation seconds) =
     ''sandbox profile manager `'' @ manager @ ''` timed out during '' @ operation @ '' after '' @
     decimal (unat seconds) @ '' seconds''"

fun display_runtime_error :: "RuntimeError \<Rightarrow> string" where
  "display_runtime_error (InvalidRequest field text) = ''invalid '' @ field @ '': '' @ text"
| "display_runtime_error (AdapterUnavailable p) = ''the '' @ display_provider p @ '' adapter is not enabled''"
| "display_runtime_error (ExecutableNotFound p executable) =
     display_provider p @ '' is not installed; expected executable `'' @ executable @ ''` on PATH''"
| "display_runtime_error (Spawn p program source) =
     ''failed to start '' @ display_provider p @ '' using '' @ program @ '': '' @ source"
| "display_runtime_error (ProcessIo p stream source) =
     display_provider p @ '' '' @ stream @ '' failed: '' @ source"
| "display_runtime_error (Transport p source) =
     display_provider p @ '' execution transport failed: '' @ display_transport_error source"
| "display_runtime_error (TransportCapabilityUnavailable p transport capability text) =
     transport @ '' cannot run '' @ display_provider p @ '': missing '' @ capability @ '' ('' @ text @ '')''"
| "display_runtime_error (Protocol p text) = display_provider p @ '' protocol error: '' @ text"
| "display_runtime_error (EventSink p text) =
     ''event sink rejected a '' @ display_provider p @ '' event: '' @ text"
| "display_runtime_error (Timeout p seconds) =
     display_provider p @ '' turn timed out after '' @ decimal (unat seconds) @ '' seconds''"
| "display_runtime_error (StartupTimeout p seconds) =
     display_provider p @ '' did not respond within '' @ decimal (unat seconds) @ '' seconds of starting''"
| "display_runtime_error (Cancelled p) = display_provider p @ '' turn was cancelled''"
| "display_runtime_error (ProcessFailed p kind exit_code stderr provider_code delivery) =
     display_provider p @ '' failed with code '' @ debug_exit_code exit_code @ '' ('' @
     debug_process_error_kind kind @ ''): '' @ stderr"
| "display_runtime_error (Sandbox e) = ''sandbox error: '' @ display_sandbox_error e"
| "display_runtime_error (RestartWouldStopBackgroundWork p change tasks) =
     display_provider p @ '' needs a new process to apply '' @ change @
     '', which would stop background work still running ('' @ join_with ''; '' tasks @
     ''). Wait for it to finish or stop it, then send the turn again.''"
| "display_runtime_error (NothingToContinue p) =
     display_provider p @ '' has no answer to background work waiting for a continuation''"

section \<open>Classification\<close>

definition classify_provider_failure :: "string \<Rightarrow> ProviderProcessErrorKind" where
  "classify_provider_failure text =
     (let diagnostic = to_ascii_lowercase text in
      if contains_str ''401 unauthorized'' diagnostic
         \<or> contains_str ''not logged in'' diagnostic
         \<or> contains_str ''authentication failed'' diagnostic
         \<or> contains_str ''invalid api key'' diagnostic
         \<or> contains_str ''authentication_error'' diagnostic
      then ProviderProcessErrorKind.AuthenticationFailed
      else if contains_str ''403 forbidden'' diagnostic \<or> contains_str ''permission denied'' diagnostic
      then ProviderProcessErrorKind.PermissionDenied
      else if contains_str ''model not found'' diagnostic
         \<or> contains_str ''unknown model'' diagnostic
         \<or> contains_str ''does not have access to model'' diagnostic
         \<or> contains_str ''model_not_found'' diagnostic
      then ModelUnavailable
      else if contains_str ''429'' diagnostic
         \<or> contains_str ''rate limit'' diagnostic
         \<or> contains_str ''usage limit'' diagnostic
         \<or> contains_str ''rate_limit'' diagnostic
      then ProviderProcessErrorKind.RateLimited
      else if contains_str ''could not resolve'' diagnostic
         \<or> contains_str ''connection refused'' diagnostic
         \<or> contains_str ''connection timed out'' diagnostic
         \<or> contains_str ''failed to connect'' diagnostic
         \<or> contains_str ''invalid peer certificate'' diagnostic
      then ProviderProcessErrorKind.Network
      else ProviderProcessErrorKind.Unknown)"

type_synonym failure_contract = "RuntimeFailureKind \<times> RetryAdvice \<times> DeliveryState \<times> string option"

definition process_failure_contract :: "ProviderProcessErrorKind \<Rightarrow> failure_contract" where
  "process_failure_contract kind =
     (let provider_code = Some (to_ascii_lowercase (''process::'' @ debug_process_error_kind kind)) in
      case kind of
        ProviderProcessErrorKind.AuthenticationFailed \<Rightarrow>
          (RuntimeFailureKind.Authentication, RetryAdvice.RequiresUserAction, DeliveryState.Accepted, provider_code)
      | ProviderProcessErrorKind.PermissionDenied \<Rightarrow>
          (RuntimeFailureKind.Permission, RetryAdvice.RequiresUserAction, DeliveryState.Accepted, provider_code)
      | ModelUnavailable \<Rightarrow>
          (RuntimeFailureKind.CapabilityUnavailable, RetryAdvice.RequiresUserAction, DeliveryState.Accepted,
           provider_code)
      | ProviderProcessErrorKind.RateLimited \<Rightarrow>
          (RuntimeFailureKind.RateLimited, RetryAdvice.After 1000, DeliveryState.Accepted, provider_code)
      | ProviderProcessErrorKind.Network \<Rightarrow>
          (RuntimeFailureKind.Network, RetryAdvice.ReconnectAndAttach, DeliveryState.Accepted, provider_code)
      | ProviderProcessErrorKind.Unknown \<Rightarrow>
          (RuntimeFailureKind.ProviderProcess, RetryAdvice.RequiresUserAction, DeliveryState.Accepted,
           provider_code))"

definition transport_failure_contract :: "TransportError \<Rightarrow> failure_contract" where
  "transport_failure_contract e =
     (let provider_code =
        Some (to_ascii_lowercase (''transport::'' @ debug_transport_error_kind (transport_error_kind e))) in
      case transport_error_kind e of
        TransportErrorKind.AuthenticationFailed \<Rightarrow>
          (RuntimeFailureKind.Authentication, RetryAdvice.RequiresUserAction, DeliveryState.NotSent, provider_code)
      | HostKeyVerificationFailed \<Rightarrow>
          (RuntimeFailureKind.Authentication, RetryAdvice.RequiresUserAction, DeliveryState.NotSent, provider_code)
      | TransportErrorKind.PermissionDenied \<Rightarrow>
          (RuntimeFailureKind.Permission, RetryAdvice.RequiresUserAction, DeliveryState.NotSent, provider_code)
      | InvalidConfiguration \<Rightarrow>
          (RuntimeFailureKind.CapabilityUnavailable, RetryAdvice.RequiresUserAction, DeliveryState.NotSent,
           provider_code)
      | TransportErrorKind.ExecutableNotFound \<Rightarrow>
          (RuntimeFailureKind.CapabilityUnavailable, RetryAdvice.RequiresUserAction, DeliveryState.NotSent,
           provider_code)
      | WorkingDirectoryNotFound \<Rightarrow>
          (RuntimeFailureKind.CapabilityUnavailable, RetryAdvice.RequiresUserAction, DeliveryState.NotSent,
           provider_code)
      | TransportErrorKind.Unsupported \<Rightarrow>
          (RuntimeFailureKind.CapabilityUnavailable, RetryAdvice.RequiresUserAction, DeliveryState.NotSent,
           provider_code)
      | SpawnFailed \<Rightarrow>
          (RuntimeFailureKind.ProviderProcess,
           if transport_error_retryable e then RetryAdvice.Immediate else RetryAdvice.RequiresUserAction,
           DeliveryState.NotSent, provider_code)
      | NameResolutionFailed \<Rightarrow>
          (RuntimeFailureKind.Network, RetryAdvice.ReconnectAndAttach, DeliveryState.PossiblySent, provider_code)
      | ConnectionRefused \<Rightarrow>
          (RuntimeFailureKind.Network, RetryAdvice.ReconnectAndAttach, DeliveryState.PossiblySent, provider_code)
      | ConnectionTimedOut \<Rightarrow>
          (RuntimeFailureKind.Network, RetryAdvice.ReconnectAndAttach, DeliveryState.PossiblySent, provider_code)
      | RemoteUnavailable \<Rightarrow>
          (RuntimeFailureKind.Network, RetryAdvice.ReconnectAndAttach, DeliveryState.PossiblySent, provider_code)
      | StreamFailed \<Rightarrow>
          (RuntimeFailureKind.Transport, RetryAdvice.ReconnectAndAttach, DeliveryState.PossiblySent, provider_code)
      | ProcessControlFailed \<Rightarrow>
          (RuntimeFailureKind.Transport, RetryAdvice.ReconnectAndAttach, DeliveryState.PossiblySent, provider_code)
      | TransportErrorKind.Protocol \<Rightarrow>
          (RuntimeFailureKind.ProviderProtocol, RetryAdvice.Never, DeliveryState.PossiblySent, provider_code))"

fun runtime_error_contract :: "RuntimeError \<Rightarrow> failure_contract" where
  "runtime_error_contract (InvalidRequest _ _) =
     (RuntimeFailureKind.InvalidRequest, RetryAdvice.Never, DeliveryState.NotSent, None)"
| "runtime_error_contract (NothingToContinue _) =
     (RuntimeFailureKind.InvalidRequest, RetryAdvice.Never, DeliveryState.NotSent, None)"
| "runtime_error_contract (AdapterUnavailable _) =
     (RuntimeFailureKind.CapabilityUnavailable, RetryAdvice.RequiresUserAction, DeliveryState.NotSent, None)"
| "runtime_error_contract (ExecutableNotFound _ _) =
     (RuntimeFailureKind.CapabilityUnavailable, RetryAdvice.RequiresUserAction, DeliveryState.NotSent, None)"
| "runtime_error_contract (TransportCapabilityUnavailable _ _ _ _) =
     (RuntimeFailureKind.CapabilityUnavailable, RetryAdvice.RequiresUserAction, DeliveryState.NotSent, None)"
| "runtime_error_contract (Spawn _ _ _) =
     (RuntimeFailureKind.ProviderProcess, RetryAdvice.Immediate, DeliveryState.NotSent, None)"
| "runtime_error_contract (ProcessIo _ _ _) =
     (RuntimeFailureKind.Transport, RetryAdvice.Immediate, DeliveryState.PossiblySent, None)"
| "runtime_error_contract (Transport _ source) = transport_failure_contract source"
| "runtime_error_contract (Protocol _ _) =
     (RuntimeFailureKind.ProviderProtocol, RetryAdvice.Never, DeliveryState.Accepted, None)"
| "runtime_error_contract (EventSink _ _) =
     (RuntimeFailureKind.Indeterminate, RetryAdvice.RequiresUserAction, DeliveryState.Accepted, None)"
| "runtime_error_contract (Timeout _ _) =
     (RuntimeFailureKind.Timeout, RetryAdvice.RequiresUserAction, DeliveryState.Accepted, None)"
| "runtime_error_contract (StartupTimeout _ _) =
     (RuntimeFailureKind.Timeout, RetryAdvice.RequiresUserAction, DeliveryState.Accepted, None)"
| "runtime_error_contract (Cancelled _) =
     (RuntimeFailureKind.Cancelled, RetryAdvice.Never, DeliveryState.Accepted, None)"
| "runtime_error_contract (ProcessFailed _ kind _ _ provider_code delivery) =
     (case process_failure_contract kind of
        (contract_kind, retry, _, fallback_code) \<Rightarrow>
          (contract_kind, retry, delivery,
           (case provider_code of Some c \<Rightarrow> Some c | None \<Rightarrow> fallback_code)))"
| "runtime_error_contract (Sandbox _) =
     (RuntimeFailureKind.Permission, RetryAdvice.RequiresUserAction, DeliveryState.PossiblySent, None)"
| "runtime_error_contract (RestartWouldStopBackgroundWork _ _ _) =
     (RuntimeFailureKind.RuntimeBusy, RetryAdvice.RequiresUserAction, DeliveryState.NotSent, None)"

definition runtime_error_to_failure :: "RuntimeError \<Rightarrow> RuntimeId \<Rightarrow> InvocationId \<Rightarrow> RuntimeFailure" where
  "runtime_error_to_failure err runtime_id invocation_id =
     (case runtime_error_contract err of
        (kind, retry, delivery, provider_code) \<Rightarrow>
          \<lparr>failure_runtime_id = Some runtime_id,
           failure_invocation_id = Some invocation_id,
           failure_kind = kind,
           failure_retry = retry,
           failure_delivery = delivery,
           failure_message = display_runtime_error err,
           failure_provider_code = provider_code\<rparr>)"

definition lifecycle_failure ::
    "RuntimeId option \<Rightarrow> InvocationId option \<Rightarrow> RuntimeFailureKind \<Rightarrow> RetryAdvice \<Rightarrow> DeliveryState \<Rightarrow> string
      \<Rightarrow> RuntimeFailure" where
  "lifecycle_failure runtime_id invocation_id kind retry delivery text =
     \<lparr>failure_runtime_id = runtime_id,
      failure_invocation_id = invocation_id,
      failure_kind = kind,
      failure_retry = retry,
      failure_delivery = delivery,
      failure_message = text,
      failure_provider_code = None\<rparr>"

section \<open>Properties\<close>

text \<open>
  C9: an automatic retry (immediately, after a delay, or after reconnecting) is advised for an
  error only in the categories of a failed process, transport, network or rate limit; every
  other failure needs the user or is never retried.
\<close>

theorem automatic_retry_only_for_transient_failures:
  "failure_retry (runtime_error_to_failure err r i) \<in> {RetryAdvice.Never, RetryAdvice.RequiresUserAction}
   \<or> failure_kind (runtime_error_to_failure err r i)
       \<in> {RuntimeFailureKind.ProviderProcess, RuntimeFailureKind.Transport, RuntimeFailureKind.Network,
          RuntimeFailureKind.RateLimited}"
proof -
  have "(case runtime_error_contract err of (k, a, _) \<Rightarrow>
      a \<in> {RetryAdvice.Never, RetryAdvice.RequiresUserAction}
      \<or> k \<in> {RuntimeFailureKind.ProviderProcess, RuntimeFailureKind.Transport, RuntimeFailureKind.Network,
            RuntimeFailureKind.RateLimited})"
    by (cases err)
      (auto simp: process_failure_contract_def transport_failure_contract_def Let_def
        split: ProviderProcessErrorKind.splits TransportErrorKind.splits)
  then show ?thesis by (auto simp: runtime_error_to_failure_def split: prod.splits)
qed

end
