(* ===== verification/Events.thy ===== *)
theory Events
  imports Types
begin

text \<open>
  The versioned envelope of \<^verbatim>\<open>src/retained.rs\<close> in which a retained invocation emits its events.
\<close>

datatype RuntimeEvent =
    InvocationStarted Provider
  | ProviderEvent TurnEvent
  | InvocationCompleted TurnResult
  | InvocationFailed RuntimeFailure

record EventEnvelope =
  event_schema_version :: u16
  event_runtime_id :: RuntimeId
  event_invocation_id :: InvocationId
  event_sequence :: u64
  event_observed_at_unix_ms :: u64
  event_payload :: RuntimeEvent

text \<open>The two events that end an invocation.\<close>

definition is_terminal_event :: "RuntimeEvent \<Rightarrow> bool" where
  "is_terminal_event e =
     (case e of InvocationCompleted _ \<Rightarrow> True | InvocationFailed _ \<Rightarrow> True | _ \<Rightarrow> False)"

end
