(* ===== verification/Requests.thy ===== *)
theory Requests
  imports Errors Events
begin

text \<open>
  The requests of \<^verbatim>\<open>src/types.rs\<close> and \<^verbatim>\<open>src/retained.rs\<close>: what an application asks of a one-shot turn
  (\<open>TurnRequest\<close>), of a retained runtime (\<open>RuntimeSpec\<close>) and of one invocation
  (\<open>TurnInput\<close>), and how the retained runtime builds a turn request from them. A cancellation
  token is part of the running system, not of these values. The turns that an agent relay
  envelope triggers (\<^verbatim>\<open>src/relay/inbound.rs\<close>) are built here as well.
\<close>

section \<open>Turn requests\<close>

record TurnAttachment =
  tattach_path :: path
  tattach_display_name :: "string option"
  tattach_media_type :: "string option"

definition TurnAttachment_new :: "path \<Rightarrow> TurnAttachment" where
  "TurnAttachment_new p = \<lparr>tattach_path = p, tattach_display_name = None, tattach_media_type = None\<rparr>"

record TurnRequest =
  req_provider :: Provider
  req_working_directory :: path
  req_prompt :: string
  req_provenance :: TurnProvenance
  req_model :: "string option"
  req_reasoning :: "string option"
  req_permission_mode :: PermissionMode
  req_harness_options :: "(string, string) btreemap"
  req_launch_context :: LaunchContext
  req_auto_compaction :: AutoCompactionPolicy
  req_session_id :: "string option"
  req_max_turns :: "u32 option"
  req_timeout :: duration
  req_interaction_timeout :: duration
  req_tool_process_policy :: ToolProcessPolicy
  req_environment :: "(string, SecretString) btreemap"
  req_attachments :: "TurnAttachment list"
  req_sandbox :: "SandboxRequest option"
  req_required_sandbox_capabilities :: SandboxCapabilities
  req_continuation :: bool
  req_keep_background_work :: bool
  req_request_session_title :: "string option"

definition TurnRequest_new :: "Provider \<Rightarrow> path \<Rightarrow> string \<Rightarrow> TurnRequest" where
  "TurnRequest_new provider working_directory prompt =
     \<lparr>req_provider = provider, req_working_directory = working_directory, req_prompt = prompt,
      req_provenance = User, req_model = None, req_reasoning = None,
      req_permission_mode = PermissionMode.Default, req_harness_options = [],
      req_launch_context = LaunchContext_default, req_auto_compaction = ProviderDefault,
      req_session_id = None, req_max_turns = None, req_timeout = duration_from_mins 30,
      req_interaction_timeout = duration_from_mins 10, req_tool_process_policy = PreserveOnCompletion,
      req_environment = [], req_attachments = [], req_sandbox = None,
      req_required_sandbox_capabilities = capabilities_NONE, req_continuation = False,
      req_keep_background_work = False, req_request_session_title = None\<rparr>"

section \<open>Retained runtimes and invocations\<close>

record RetainedRuntimeLimits =
  limits_max_runtimes :: usize

definition DEFAULT_RETAINED_RUNTIME_CAPACITY :: usize where "DEFAULT_RETAINED_RUNTIME_CAPACITY = 1024"

definition RetainedRuntimeLimits_default :: RetainedRuntimeLimits where
  "RetainedRuntimeLimits_default = \<lparr>limits_max_runtimes = DEFAULT_RETAINED_RUNTIME_CAPACITY\<rparr>"

record RuntimeSpec =
  spec_runtime_id :: RuntimeId
  spec_provider :: Provider
  spec_working_directory :: path
  spec_model :: "string option"
  spec_reasoning :: "string option"
  spec_permission_mode :: PermissionMode
  spec_harness_options :: "(string, string) btreemap"
  spec_launch_context :: LaunchContext
  spec_auto_compaction :: AutoCompactionPolicy
  spec_provider_session_id :: "string option"
  spec_turn_timeout :: duration
  spec_interaction_timeout :: duration
  spec_tool_process_policy :: ToolProcessPolicy
  spec_environment :: "(string, SecretString) btreemap"
  spec_sandbox :: "SandboxRequest option"
  spec_required_sandbox_capabilities :: SandboxCapabilities

definition RuntimeSpec_new :: "RuntimeId \<Rightarrow> Provider \<Rightarrow> path \<Rightarrow> RuntimeSpec" where
  "RuntimeSpec_new runtime_id provider working_directory =
     \<lparr>spec_runtime_id = runtime_id, spec_provider = provider, spec_working_directory = working_directory,
      spec_model = None, spec_reasoning = None, spec_permission_mode = PermissionMode.Default,
      spec_harness_options = [], spec_launch_context = LaunchContext_default,
      spec_auto_compaction = ProviderDefault, spec_provider_session_id = None,
      spec_turn_timeout = duration_from_mins 30, spec_interaction_timeout = duration_from_mins 10,
      spec_tool_process_policy = PreserveOnCompletion, spec_environment = [], spec_sandbox = None,
      spec_required_sandbox_capabilities = capabilities_NONE\<rparr>"

datatype RuntimeInvocationKind = Turn | ManualCompaction | Continuation

datatype InteractionPolicy = Deny | RequireHandler

record TurnInput =
  input_invocation_id :: InvocationId
  input_invocation_kind :: RuntimeInvocationKind
  input_prompt :: string
  input_provenance :: TurnProvenance
  input_model :: "string option"
  input_reasoning :: "string option"
  input_permission_mode :: "PermissionMode option"
  input_harness_options :: "(string, string) btreemap option"
  input_launch_context :: "LaunchContext option"
  input_auto_compaction :: "AutoCompactionPolicy option"
  input_max_turns :: "u32 option"
  input_timeout :: "duration option"
  input_interaction_timeout :: "duration option"
  input_tool_process_policy :: "ToolProcessPolicy option"
  input_environment :: "(string, SecretString) btreemap"
  input_attachments :: "TurnAttachment list"
  input_interaction_policy :: InteractionPolicy
  input_keep_background_work :: bool
  input_request_session_title :: "string option"

definition TurnInput_new :: "InvocationId \<Rightarrow> string \<Rightarrow> TurnInput" where
  "TurnInput_new invocation_id prompt =
     \<lparr>input_invocation_id = invocation_id, input_invocation_kind = Turn, input_prompt = prompt,
      input_provenance = User, input_model = None, input_reasoning = None, input_permission_mode = None,
      input_harness_options = None, input_launch_context = None, input_auto_compaction = None,
      input_max_turns = None, input_timeout = None, input_interaction_timeout = None,
      input_tool_process_policy = None, input_environment = [], input_attachments = [],
      input_interaction_policy = InteractionPolicy.Deny, input_keep_background_work = False,
      input_request_session_title = None\<rparr>"

record CompactionInput =
  compact_invocation_id :: InvocationId
  compact_instructions :: "string option"
  compact_timeout :: "duration option"

definition CompactionInput_new :: "InvocationId \<Rightarrow> CompactionInput" where
  "CompactionInput_new invocation_id =
     \<lparr>compact_invocation_id = invocation_id, compact_instructions = None, compact_timeout = None\<rparr>"

definition into_turn_input :: "CompactionInput \<Rightarrow> TurnInput" where
  "into_turn_input c =
     (let prompt = (case compact_instructions c of
                      None \<Rightarrow> ''/compact'' | Some instructions \<Rightarrow> ''/compact '' @ instructions)
      in (TurnInput_new (compact_invocation_id c) prompt)
           \<lparr>input_invocation_kind := ManualCompaction, input_timeout := compact_timeout c\<rparr>)"

record RuntimeDriverCapabilities =
  driver_retained_process :: bool
  driver_session_resume :: bool
  driver_live_interactions :: bool
  driver_configurable_auto_compaction :: bool
  driver_manual_compaction :: bool
  driver_compaction_instructions :: bool
  driver_context_window_usage :: bool
  driver_native_image_attachments :: bool
  driver_compaction_lifecycle :: bool
  driver_live_messages :: bool

datatype RuntimeConfigurationKey =
    Provider
  | WorkingDirectory
  | Model
  | Reasoning
  | PermissionMode
  | HarnessOptions
  | LaunchContext
  | AutoCompaction
  | Environment
  | Timeouts
  | Sandbox

datatype MessageDelivery = Delivered | NotAccepting | Unsupported | Withdrawn

datatype DisposeOutcome = Disposed | NotFound

definition agent_configuration_impact :: "RuntimeConfigurationKey \<Rightarrow> ConfigurationImpact" where
  "agent_configuration_impact key =
     (case key of
        RuntimeConfigurationKey.Provider \<Rightarrow> ReacquireRequired
      | WorkingDirectory \<Rightarrow> ReacquireRequired
      | RuntimeConfigurationKey.Sandbox \<Rightarrow> ReacquireRequired
      | _ \<Rightarrow> Live)"

text \<open>
  The capabilities the built-in executor reports, from what the adapter registry answers
  (\<open>None\<close> when no adapter is registered).
\<close>

definition agent_capabilities ::
    "(Provider \<Rightarrow> PermissionSupport option) \<Rightarrow> (Provider \<Rightarrow> TurnCapabilities option) \<Rightarrow> (Provider \<Rightarrow> bool)
      \<Rightarrow> Provider \<Rightarrow> RuntimeDriverCapabilities" where
  "agent_capabilities permission_support turn_capabilities process_retention_enabled provider =
     (let is_ok_and = (\<lambda>f. case turn_capabilities provider of None \<Rightarrow> False | Some c \<Rightarrow> f c)
      in \<lparr>driver_retained_process = process_retention_enabled provider,
          driver_session_resume = True,
          driver_live_interactions =
            (case permission_support provider of
               None \<Rightarrow> False
             | Some support \<Rightarrow> support_live_approvals support \<or> support_live_questions support),
          driver_configurable_auto_compaction = (provider = Claude),
          driver_manual_compaction = is_ok_and tcap_manual_compaction,
          driver_compaction_instructions = is_ok_and tcap_compaction_instructions,
          driver_context_window_usage = (provider = Claude \<or> is_ok_and tcap_context_window_usage),
          driver_native_image_attachments = is_ok_and tcap_native_image_attachments,
          driver_compaction_lifecycle = is_ok_and tcap_compaction_lifecycle,
          driver_live_messages = (process_retention_enabled provider \<and> is_ok_and tcap_live_messages)\<rparr>)"

end
