(* ===== verification/Base64.thy ===== *)
theory Base64
  imports Types
begin

text \<open>
  The image boundary of \<^verbatim>\<open>src/types.rs\<close>: \<open>ToolImage::new\<close> and its check that a payload is canonical
  standard base64, made without decoding. The reference is the encoder of RFC 4648: the check
  accepts exactly its outputs.
\<close>

section \<open>The code\<close>

definition between :: "char \<Rightarrow> char \<Rightarrow> char \<Rightarrow> bool" where
  "between lo hi c \<longleftrightarrow> (of_char lo :: nat) \<le> of_char c \<and> (of_char c :: nat) \<le> of_char hi"

definition sextet :: "char \<Rightarrow> nat option" where
  "sextet byte =
     (if between CHR ''A'' CHR ''Z'' byte then Some (of_char byte - 65)
      else if between CHR ''a'' CHR ''z'' byte then Some (of_char byte - 97 + 26)
      else if between CHR ''0'' CHR ''9'' byte then Some (of_char byte - 48 + 52)
      else if byte = CHR ''+'' then Some 62
      else if byte = CHR ''/'' then Some 63
      else None)"

text \<open>The loop over the unpadded bytes: it keeps the value of the last one or fails.\<close>

fun last_sextet :: "nat \<Rightarrow> string \<Rightarrow> nat option" where
  "last_sextet acc [] = Some acc"
| "last_sextet acc (byte # rest) =
     (case sextet byte of None \<Rightarrow> None | Some v \<Rightarrow> last_sextet v rest)"

text \<open>\<open>u8::trailing_zeros\<close>, which is 8 for zero.\<close>

definition trailing_zeros :: "nat \<Rightarrow> nat" where
  "trailing_zeros n = length (takeWhile (\<lambda>i. even (n div 2 ^ i)) [0..<8])"

definition is_standard_base64 :: "string \<Rightarrow> bool" where
  "is_standard_base64 bytes =
     (if bytes = [] \<or> length bytes mod 4 \<noteq> 0 then False
      else let padding = length (takeWhile (\<lambda>byte. byte = CHR ''='') (rev bytes)) in
           if padding > 2 then False
           else (case last_sextet 0 (take (length bytes - padding) bytes) of
                   None \<Rightarrow> False
                 | Some final \<Rightarrow>
                     if padding = 1 then trailing_zeros final \<ge> 2
                     else if padding = 2 then trailing_zeros final \<ge> 4
                     else True))"

definition MAX_DATA_CHARS :: usize where "MAX_DATA_CHARS = 5 * 1024 * 1024"
definition MAX_PER_TOOL_CALL :: usize where "MAX_PER_TOOL_CALL = 8"

text \<open>\<open>sha256_hex\<close> is the lowercase hexadecimal digest of the sha2 crate.\<close>

definition ToolImage_new :: "(string \<Rightarrow> string) \<Rightarrow> string \<Rightarrow> string \<Rightarrow> ToolImage option" where
  "ToolImage_new sha256_hex media data =
     (let media_type = to_ascii_lowercase media
      in if media_type \<notin> {''image/jpeg'', ''image/png'', ''image/gif'', ''image/webp''}
            \<or> length data > MAX_DATA_CHARS
            \<or> \<not> is_standard_base64 data
         then None
         else Some \<lparr>image_media_type = media_type, image_data = data, image_sha256 = sha256_hex data\<rparr>)"

section \<open>The reference encoder\<close>

definition base64_char :: "nat \<Rightarrow> char" where
  "base64_char v =
     (if v < 26 then char_of (65 + v)
      else if v < 52 then char_of (71 + v)
      else if v < 62 then char_of (v - 4)
      else if v = 62 then CHR ''+''
      else CHR ''/'')"

fun base64_encode :: "nat list \<Rightarrow> string" where
  "base64_encode [] = []"
| "base64_encode [a] = [base64_char (a div 4), base64_char (a mod 4 * 16), CHR ''='', CHR ''='']"
| "base64_encode [a, b] =
     [base64_char (a div 4), base64_char (a mod 4 * 16 + b div 16), base64_char (b mod 16 * 4), CHR ''='']"
| "base64_encode (a # b # c # rest) =
     [base64_char (a div 4), base64_char (a mod 4 * 16 + b div 16),
      base64_char (b mod 16 * 4 + c div 64), base64_char (c mod 64)] @ base64_encode rest"

lemma of_char_eqI: "(of_char c :: nat) = n \<Longrightarrow> c = char_of n"
  by (metis char_of_char)

lemma sextet_Some: "sextet c = Some v \<Longrightarrow> c = base64_char v \<and> v < 64"
  by (auto simp: sextet_def base64_char_def between_def intro!: of_char_eqI split: if_splits)

lemma sextet_base64_char [simp]:
  assumes "v < 64"
  shows "sextet (base64_char v) = Some v"
proof -
  have "list_all (\<lambda>v. sextet (base64_char v) = Some v) [0..<64]" by code_simp
  with assms show ?thesis by (simp add: list_all_iff)
qed

lemma sextet_pad [simp]: "sextet CHR ''='' = None"
  by code_simp

lemma base64_char_not_pad [simp]: "v < 64 \<Longrightarrow> base64_char v \<noteq> CHR ''=''"
  by (metis option.distinct(1) sextet_base64_char sextet_pad)

lemma trailing_zeros_2: "v < 64 \<Longrightarrow> trailing_zeros v \<ge> 2 \<longleftrightarrow> v mod 4 = 0"
proof -
  have "list_all (\<lambda>v. (trailing_zeros v \<ge> 2) = (v mod 4 = 0)) [0..<64]" by code_simp
  then show "v < 64 \<Longrightarrow> ?thesis" by (simp add: list_all_iff)
qed

lemma trailing_zeros_4: "v < 64 \<Longrightarrow> trailing_zeros v \<ge> 4 \<longleftrightarrow> v mod 16 = 0"
proof -
  have "list_all (\<lambda>v. (trailing_zeros v \<ge> 4) = (v mod 16 = 0)) [0..<64]" by code_simp
  then show "v < 64 \<Longrightarrow> ?thesis" by (simp add: list_all_iff)
qed

lemma last_sextet_append:
  "last_sextet acc (xs @ ys) =
     (case last_sextet acc xs of None \<Rightarrow> None | Some v \<Rightarrow> last_sextet v ys)"
  by (induction xs arbitrary: acc) (auto split: option.splits)

lemma last_sextet_nonempty: "xs \<noteq> [] \<Longrightarrow> last_sextet acc xs = last_sextet acc' xs"
  by (cases xs) simp_all

lemma sextet_lt: "sextet c = Some v \<Longrightarrow> v < 64"
  using sextet_Some by blast

lemma is_standard_base64_four:
  "is_standard_base64 [w, x, y, z] \<longleftrightarrow>
     (\<exists>a b c d. sextet w = Some a \<and> sextet x = Some b \<and> sextet y = Some c \<and> sextet z = Some d)
     \<or> (\<exists>a b c. sextet w = Some a \<and> sextet x = Some b \<and> sextet y = Some c \<and> z = CHR ''='' \<and> c mod 4 = 0)
     \<or> (\<exists>a b. sextet w = Some a \<and> sextet x = Some b \<and> y = CHR ''='' \<and> z = CHR ''='' \<and> b mod 16 = 0)"
proof -
  consider (p0) "z \<noteq> CHR ''=''" | (p1) "z = CHR ''=''" "y \<noteq> CHR ''=''"
    | (p2) "z = CHR ''=''" "y = CHR ''=''" "x \<noteq> CHR ''=''"
    | (p3) "z = CHR ''=''" "y = CHR ''=''" "x = CHR ''=''" by blast
  then show ?thesis
  proof cases
    case p0
    then show ?thesis
      by (cases "sextet w"; cases "sextet x"; cases "sextet y"; cases "sextet z") (simp_all add: is_standard_base64_def)
  next
    case p1
    then show ?thesis
      by (cases "sextet w"; cases "sextet x"; cases "sextet y")
        (simp_all add: is_standard_base64_def trailing_zeros_2 sextet_lt)
  next
    case p2
    then show ?thesis
      by (cases "sextet w"; cases "sextet x")
        (simp_all add: is_standard_base64_def trailing_zeros_4 sextet_lt)
  next
    case p3
    then show ?thesis by (cases "w = CHR ''=''") (simp_all add: is_standard_base64_def)
  qed
qed

lemma length_takeWhile_append: "length (takeWhile P xs) \<le> length (takeWhile P (xs @ ys))"
  by (induction xs) auto

lemma is_standard_base64_Cons:
  assumes "rest \<noteq> []"
  shows "is_standard_base64 (w # x # y # z # rest) \<longleftrightarrow>
    sextet w \<noteq> None \<and> sextet x \<noteq> None \<and> sextet y \<noteq> None \<and> sextet z \<noteq> None \<and> is_standard_base64 rest"
proof (cases "length rest mod 4 = 0")
  case False
  then show ?thesis by (auto simp: is_standard_base64_def)
next
  case True
  with assms have len: "length rest \<ge> 4" by (simp add: dvd_imp_le mod_eq_0_iff_dvd)
  let ?eq = "\<lambda>c. c = CHR ''=''"
  let ?p = "length (takeWhile ?eq (rev rest))"
  have le: "?p \<le> length rest" using length_takeWhile_le [of ?eq "rev rest"] by simp
  show ?thesis
  proof (cases "?p > 2")
    case True
    have "length (takeWhile ?eq (rev (w # x # y # z # rest))) \<ge> ?p"
      using length_takeWhile_append [of ?eq "rev rest" "[z, y, x, w]"] by simp
    with True show ?thesis by (simp add: is_standard_base64_def Let_def)
  next
    case False
    have "\<not> (\<forall>c \<in> set (rev rest). ?eq c)"
    proof
      assume "\<forall>c \<in> set (rev rest). ?eq c"
      then have "takeWhile ?eq (rev rest) = rev rest" by (simp add: takeWhile_eq_all_conv)
      with False len show False by simp
    qed
    then have p: "takeWhile ?eq (rev (w # x # y # z # rest)) = takeWhile ?eq (rev rest)"
      by (auto simp: takeWhile_append)
    have ne: "take (length rest - ?p) rest \<noteq> []" using False len by auto
    have tk: "take (length (w # x # y # z # rest) - ?p) (w # x # y # z # rest) =
        w # x # y # z # take (length rest - ?p) rest"
      using le by (simp add: Suc_diff_le)
    obtain c cs where t: "take (length rest - ?p) rest = c # cs" using ne by (cases "take (length rest - ?p) rest") auto
    show ?thesis
      unfolding is_standard_base64_def p tk t Let_def using True False assms
      by (cases "sextet w"; cases "sextet x"; cases "sextet y"; cases "sextet z") simp_all
  qed
qed

lemma sextet_eqI: "sextet c = Some v \<Longrightarrow> v = u \<Longrightarrow> c = base64_char u"
  using sextet_Some by blast

lemma div_mod_digit: "r < k \<Longrightarrow> (k * q + r) div k = q \<and> (k * q + r) mod k = r" for k q r :: nat
  by simp

lemma bytes_of_sextets:
  fixes a b c d :: nat
  assumes "a < 64" "b < 64" "c < 64" "d < 64"
  shows "(4 * a + b div 16) div 4 = a" "(4 * a + b div 16) mod 4 * 16 + (b mod 16 * 16 + c div 4) div 16 = b"
    "(b mod 16 * 16 + c div 4) mod 16 * 4 + (c mod 4 * 64 + d) div 64 = c" "(c mod 4 * 64 + d) mod 64 = d"
    "4 * a + b div 16 < 256" "b mod 16 * 16 + c div 4 < 256" "c mod 4 * 64 + d < 256"
proof -
  have r: "b div 16 < 4" "c div 4 < 16" "b mod 16 < 16" "c mod 4 < 4" using assms by auto
  note digits = div_mod_digit [OF r(1), of a] div_mod_digit [OF r(2), of "b mod 16"]
    div_mod_digit [OF assms(4), of "c mod 4"]
  show "(4 * a + b div 16) div 4 = a" using digits by blast
  show "(4 * a + b div 16) mod 4 * 16 + (b mod 16 * 16 + c div 4) div 16 = b"
    using digits by (simp add: mult.commute)
  show "(b mod 16 * 16 + c div 4) mod 16 * 4 + (c mod 4 * 64 + d) div 64 = c"
    using digits by (simp add: mult.commute)
  show "(c mod 4 * 64 + d) mod 64 = d" using digits by (simp add: mult.commute)
  show "4 * a + b div 16 < 256" "b mod 16 * 16 + c div 4 < 256" "c mod 4 * 64 + d < 256"
    using r assms by linarith+
qed

lemma sextets_of_bytes:
  fixes a b c :: nat
  assumes "a < 256" "b < 256" "c < 256"
  shows "a div 4 < 64" "a mod 4 * 16 + b div 16 < 64" "b mod 16 * 4 + c div 64 < 64" "c mod 64 < 64"
    "a mod 4 * 16 < 64" "b mod 16 * 4 < 64"
proof -
  have "a div 4 < 64" "b div 16 < 16" "c div 64 < 4" "a mod 4 < 4" "b mod 16 < 16" "c mod 64 < 64"
    using assms by auto
  then show "a div 4 < 64" "a mod 4 * 16 + b div 16 < 64" "b mod 16 * 4 + c div 64 < 64" "c mod 64 < 64"
    "a mod 4 * 16 < 64" "b mod 16 * 4 < 64" by linarith+
qed

definition bytes_ok :: "nat list \<Rightarrow> bool" where
  "bytes_ok bs = list_all (\<lambda>b. b < 256) bs"

lemma standard_four_encodes:
  assumes "is_standard_base64 [w, x, y, z]"
  shows "\<exists>bs. bytes_ok bs \<and> bs \<noteq> [] \<and> base64_encode bs = [w, x, y, z]"
proof -
  consider (full) a b c d where "sextet w = Some a" "sextet x = Some b" "sextet y = Some c" "sextet z = Some d"
    | (one) a b c where "sextet w = Some a" "sextet x = Some b" "sextet y = Some c" "z = CHR ''=''" "c mod 4 = 0"
    | (two) a b where "sextet w = Some a" "sextet x = Some b" "y = CHR ''=''" "z = CHR ''=''" "b mod 16 = 0"
    using assms by (auto simp: is_standard_base64_four)
  then show ?thesis
  proof cases
    case full
    note v = full[THEN sextet_Some, THEN conjunct1] and bt = bytes_of_sextets [OF full[THEN sextet_lt]]
    have "base64_encode [4 * a + b div 16, b mod 16 * 16 + c div 4, c mod 4 * 64 + d] = [w, x, y, z]"
      unfolding base64_encode.simps bt v [symmetric] by simp
    with bt(5-7) show ?thesis
      by (intro exI [of _ "[4 * a + b div 16, b mod 16 * 16 + c div 4, c mod 4 * 64 + d]"]) (simp add: bytes_ok_def)
  next
    case one
    have zero: "(0 :: nat) < 64" by simp
    note v = one(1-3)[THEN sextet_Some, THEN conjunct1]
      and bt = bytes_of_sextets [OF one(1-3)[THEN sextet_lt] zero]
    have c: "(b mod 16 * 16 + c div 4) mod 16 * 4 = c"
      using one(5) bt(3) by auto
    have "base64_encode [4 * a + b div 16, b mod 16 * 16 + c div 4] = [w, x, y, z]"
      unfolding base64_encode.simps bt(1,2) c v [symmetric] one(4) by simp
    with bt(5,6) show ?thesis
      by (intro exI [of _ "[4 * a + b div 16, b mod 16 * 16 + c div 4]"]) (simp add: bytes_ok_def)
  next
    case two
    note v = two(1-2)[THEN sextet_Some, THEN conjunct1]
      and lt = two(1-2)[THEN sextet_lt]
    have "4 * a + b div 16 < 256" "(4 * a + b div 16) div 4 = a" "(4 * a + b div 16) mod 4 * 16 = b"
      using two(5) lt by auto
    moreover have "base64_encode [4 * a + b div 16] = [w, x, y, z]"
      using calculation unfolding base64_encode.simps by (simp only: v two(3,4))
    ultimately show ?thesis
      by (intro exI [of _ "[4 * a + b div 16]"] conjI) (simp_all only: bytes_ok_def list.pred_inject list.distinct simp_thms)
  qed
qed

lemma standard_encodes:
  "is_standard_base64 s \<Longrightarrow> \<exists>bs. bytes_ok bs \<and> bs \<noteq> [] \<and> base64_encode bs = s"
proof (induction s rule: length_induct)
  case (1 s)
  from "1.prems" have "4 dvd length s" "s \<noteq> []"
    by (auto simp: is_standard_base64_def mod_eq_0_iff_dvd split: if_splits)
  then have "length s \<ge> 4" by (simp add: dvd_imp_le)
  then obtain w x y z rest where s: "s = w # x # y # z # rest"
    by (auto simp: Suc_le_length_iff numeral_eq_Suc)
  show ?case
  proof (cases "rest = []")
    case True
    with "1.prems" s show ?thesis using standard_four_encodes by simp
  next
    case False
    then have std: "sextet w \<noteq> None" "sextet x \<noteq> None" "sextet y \<noteq> None" "sextet z \<noteq> None" "is_standard_base64 rest"
      using "1.prems" by (simp_all add: s is_standard_base64_Cons)
    have "length rest < length s" by (simp add: s)
    with "1.IH" std(5) obtain bs where bs: "bytes_ok bs" "bs \<noteq> []" "base64_encode bs = rest"
      by blast
    from std(1-4) obtain a b c d where v: "sextet w = Some a" "sextet x = Some b" "sextet y = Some c" "sextet z = Some d"
      by auto
    note ch = v[THEN sextet_Some, THEN conjunct1] and bt = bytes_of_sextets [OF v[THEN sextet_lt]]
    have "base64_encode ((4 * a + b div 16) # (b mod 16 * 16 + c div 4) # (c mod 4 * 64 + d) # bs) = s"
      unfolding base64_encode.simps bt ch [symmetric] bs(3) s by simp
    with bt(5-7) bs(1) show ?thesis
      by (intro exI [of _ "(4 * a + b div 16) # (b mod 16 * 16 + c div 4) # (c mod 4 * 64 + d) # bs"])
        (simp add: bytes_ok_def)
  qed
qed

lemma base64_encode_ne: "bs \<noteq> [] \<Longrightarrow> base64_encode bs \<noteq> []"
  by (cases bs rule: base64_encode.cases) simp_all

lemma encodes_standard: "bytes_ok bs \<Longrightarrow> bs \<noteq> [] \<Longrightarrow> is_standard_base64 (base64_encode bs)"
proof (induction bs rule: base64_encode.induct)
  case (2 a)
  then have "a < 256" by (simp add: bytes_ok_def)
  then show ?case using sextets_of_bytes [of a 0 0] by (simp add: is_standard_base64_four)
next
  case (3 a b)
  then have "a < 256" "b < 256" by (simp_all add: bytes_ok_def)
  then show ?case using sextets_of_bytes [of a b 0] by (simp add: is_standard_base64_four)
next
  case (4 a b c rest)
  then have abc: "a < 256" "b < 256" "c < 256" and ok: "bytes_ok rest" by (simp_all add: bytes_ok_def)
  note v = sextets_of_bytes [OF abc]
  show ?case
  proof (cases "rest = []")
    case True
    with v show ?thesis by (simp add: is_standard_base64_four)
  next
    case False
    with 4(1) [OF ok] v base64_encode_ne [of rest] show ?thesis by (simp add: is_standard_base64_Cons)
  qed
qed simp

section \<open>Properties\<close>

text \<open>
  C7: the check accepts exactly the RFC 4648 encodings, with padding and zero trailing bits, of
  the non-empty byte sequences.
\<close>

theorem is_standard_base64_iff_encoding:
  "is_standard_base64 s \<longleftrightarrow> (\<exists>bs. bytes_ok bs \<and> bs \<noteq> [] \<and> base64_encode bs = s)"
  using standard_encodes encodes_standard by blast
end
