(* ===== verification/Journal.thy ===== *)
theory Journal
  imports Events "HOL-Library.Product_Lexorder"
begin

text \<open>
  Model of \<^verbatim>\<open>src/journal.rs\<close>: the bounded in-memory event journal of a remote host, with its three
  eviction loops, idempotent ordered append and cursor-based replay. The mutex makes every
  operation one atomic step. Envelopes are compared structurally.
\<close>

section \<open>The code\<close>

record EventJournalLimits =
  jl_max_runtimes :: usize
  jl_max_invocations_per_runtime :: usize
  jl_max_events_per_invocation :: usize
  jl_max_replay_events :: usize

definition EventJournalLimits_default :: EventJournalLimits where
  "EventJournalLimits_default =
     \<lparr>jl_max_runtimes = 128, jl_max_invocations_per_runtime = 256, jl_max_events_per_invocation = 4096,
      jl_max_replay_events = 2048\<rparr>"

datatype EventJournalError =
    InvalidLimit string
  | UnsupportedSchema u16
  | SequenceGap RuntimeId InvocationId u64 u64
  | SequenceConflict RuntimeId InvocationId u64
  | ReplayWindowExpired RuntimeId InvocationId u64
  | InvalidReplayLimit usize usize
  | StateInvariant string

datatype EventAppendOutcome = Appended | AlreadyPresent

record EventReplayRequest =
  replay_runtime_id :: RuntimeId
  replay_after :: "(InvocationId, u64) btreemap"
  replay_only_invocations :: "InvocationId list option"
  replay_limit :: usize

record EventReplayBatch =
  batch_events :: "EventEnvelope list"
  batch_next :: "(InvocationId, u64) btreemap"
  batch_truncated :: bool

record InvocationJournal =
  ij_events :: "EventEnvelope list"
  ij_evicted_through :: u64
  ij_maximum :: usize

definition InvocationJournal_new :: "usize \<Rightarrow> InvocationJournal" where
  "InvocationJournal_new mx = \<lparr>ij_events = [], ij_evicted_through = 0, ij_maximum = mx\<rparr>"

definition next_sequence :: "InvocationJournal \<Rightarrow> u64" where
  "next_sequence j =
     (if ij_events j = [] then saturating_add (ij_evicted_through j) 1
      else saturating_add (event_sequence (last (ij_events j))) 1)"

definition invocation_append ::
    "InvocationJournal \<Rightarrow> EventEnvelope \<Rightarrow> (EventJournalError + EventAppendOutcome) \<times> InvocationJournal" where
  "invocation_append j e =
     (let expected = next_sequence j in
      if event_sequence e < expected
      then if (case find (\<lambda>event. event_sequence event = event_sequence e) (ij_events j) of
                 None \<Rightarrow> False | Some event \<Rightarrow> event = e)
           then (Inr AlreadyPresent, j)
           else (Inl (SequenceConflict (event_runtime_id e) (event_invocation_id e) (event_sequence e)), j)
      else if event_sequence e > expected
      then (Inl (SequenceGap (event_runtime_id e) (event_invocation_id e) expected (event_sequence e)), j)
      else case evict_while (ij_maximum j) (\<lambda>expired _. event_sequence expired) (ij_events j @ [e])
                  (ij_evicted_through j) of
             (events, through) \<Rightarrow>
               (Inr Appended, j\<lparr>ij_events := events, ij_evicted_through := through\<rparr>))"

record RuntimeJournal =
  rj_invocations :: "(InvocationId, InvocationJournal) hashmap"
  rj_invocation_order :: "InvocationId list"
  rj_evicted_invocations :: "InvocationId set"
  rj_evicted_order :: "InvocationId list"
  rj_max_invocations :: usize

definition RuntimeJournal_new :: "usize \<Rightarrow> RuntimeJournal" where
  "RuntimeJournal_new mx =
     \<lparr>rj_invocations = [], rj_invocation_order = [], rj_evicted_invocations = {}, rj_evicted_order = [],
      rj_max_invocations = mx\<rparr>"

text \<open>One round of the first loop: drop an invocation and remember that it was evicted.\<close>

definition evict_invocation ::
    "InvocationId \<Rightarrow> (InvocationId, InvocationJournal) hashmap \<times> InvocationId set \<times> InvocationId list
      \<Rightarrow> (InvocationId, InvocationJournal) hashmap \<times> InvocationId set \<times> InvocationId list" where
  "evict_invocation expired s =
     (case s of (invocations, evicted, order) \<Rightarrow>
        (hm_remove expired invocations, insert expired evicted,
         if expired \<in> evicted then order else order @ [expired]))"

definition open_invocation :: "RuntimeJournal \<Rightarrow> InvocationId \<Rightarrow> usize \<Rightarrow> RuntimeJournal" where
  "open_invocation r i max_events =
     (case evict_while (rj_max_invocations r) evict_invocation (rj_invocation_order r @ [i])
             (hm_insert i (InvocationJournal_new max_events) (rj_invocations r),
              rj_evicted_invocations r, rj_evicted_order r) of
        (order, invocations, evicted, evicted_order) \<Rightarrow>
          (case evict_while (rj_max_invocations r) (\<lambda>expired s. s - {expired}) evicted_order evicted of
             (evicted_order', evicted') \<Rightarrow>
               r\<lparr>rj_invocations := invocations, rj_invocation_order := order,
                 rj_evicted_invocations := evicted', rj_evicted_order := evicted_order'\<rparr>))"

definition runtime_append ::
    "RuntimeJournal \<Rightarrow> EventEnvelope \<Rightarrow> usize \<Rightarrow> (EventJournalError + EventAppendOutcome) \<times> RuntimeJournal" where
  "runtime_append r e max_events =
     (let i = event_invocation_id e in
      if i \<in> rj_evicted_invocations r
      then (Inl (SequenceConflict (event_runtime_id e) i (event_sequence e)), r)
      else if hm_get (rj_invocations r) i = None \<and> event_sequence e \<noteq> 1
      then (Inl (SequenceGap (event_runtime_id e) i 1 (event_sequence e)), r)
      else let r' = (if hm_get (rj_invocations r) i = None then open_invocation r i max_events else r) in
           case hm_get (rj_invocations r') i of
             None \<Rightarrow> (Inl (StateInvariant ''invocation disappeared before append''), r')
           | Some j \<Rightarrow>
               (case invocation_append j e of
                  (res, j') \<Rightarrow> (res, r'\<lparr>rj_invocations := hm_insert i j' (rj_invocations r')\<rparr>)))"

text \<open>
  Replay. The cursors are checked first; then the events after them are collected from the hash
  map, sorted by observation time, invocation and sequence, and truncated.
\<close>

definition check_cursor :: "RuntimeJournal \<Rightarrow> RuntimeId \<Rightarrow> InvocationId \<times> u64 \<Rightarrow> EventJournalError + unit" where
  "check_cursor r runtime_id p =
     (case p of (i, cursor) \<Rightarrow>
        if i \<in> rj_evicted_invocations r
        then Inl (ReplayWindowExpired runtime_id i (saturating_add cursor 1))
        else case hm_get (rj_invocations r) i of
               None \<Rightarrow> Inr ()
             | Some j \<Rightarrow>
                 if cursor < ij_evicted_through j
                 then Inl (ReplayWindowExpired runtime_id i (saturating_add (ij_evicted_through j) 1))
                 else Inr ())"

definition cursor_of :: "(InvocationId, u64) btreemap \<Rightarrow> InvocationId \<Rightarrow> u64" where
  "cursor_of after i = (case map_of after i of None \<Rightarrow> 0 | Some c \<Rightarrow> c)"

definition replay_key :: "EventEnvelope \<Rightarrow> u64 \<times> InvocationId \<times> u64" where
  "replay_key e = (event_observed_at_unix_ms e, event_invocation_id e, event_sequence e)"

definition pending_events ::
    "RuntimeJournal \<Rightarrow> InvocationId list option \<Rightarrow> (InvocationId, u64) btreemap \<Rightarrow> EventEnvelope list" where
  "pending_events r only after =
     sort_key replay_key
       (filter (\<lambda>e. event_sequence e > cursor_of after (event_invocation_id e))
          (concat (map (\<lambda>(_, j). ij_events j)
             (filter (\<lambda>(i, _). case only of None \<Rightarrow> True | Some selected \<Rightarrow> i \<in> set selected)
                (rj_invocations r)))))"

definition advance_cursors ::
    "(InvocationId, u64) btreemap \<Rightarrow> EventEnvelope list \<Rightarrow> (InvocationId, u64) btreemap" where
  "advance_cursors after events =
     foldl (\<lambda>m e. bt_insert (event_invocation_id e) (event_sequence e) m) after events"

definition runtime_replay ::
    "RuntimeJournal \<Rightarrow> EventReplayRequest \<Rightarrow> usize \<Rightarrow> EventJournalError + EventReplayBatch" where
  "runtime_replay r request mx =
     and_then (try_each (check_cursor r (replay_runtime_id request)) (replay_after request))
       (\<lambda>_. let events = pending_events r (replay_only_invocations request) (replay_after request);
                page = take (min (replay_limit request) mx) events
            in Inr \<lparr>batch_events = page,
                    batch_next = advance_cursors (replay_after request) page,
                    batch_truncated = length events > replay_limit request\<rparr>)"

record JournalState =
  js_runtimes :: "(RuntimeId, RuntimeJournal) hashmap"
  js_runtime_order :: "RuntimeId list"

record InMemoryEventJournal =
  journal_limits :: EventJournalLimits
  journal_inner :: JournalState

definition journal_new :: "EventJournalLimits \<Rightarrow> EventJournalError + InMemoryEventJournal" where
  "journal_new limits =
     and_then (try_each (\<lambda>(field, value). if value = 0 then Inl (InvalidLimit field) else Inr ())
         [(''max_runtimes'', jl_max_runtimes limits),
          (''max_invocations_per_runtime'', jl_max_invocations_per_runtime limits),
          (''max_events_per_invocation'', jl_max_events_per_invocation limits),
          (''max_replay_events'', jl_max_replay_events limits)])
       (\<lambda>_. Inr \<lparr>journal_limits = limits, journal_inner = \<lparr>js_runtimes = [], js_runtime_order = []\<rparr>\<rparr>)"

definition open_runtime :: "EventJournalLimits \<Rightarrow> JournalState \<Rightarrow> RuntimeId \<Rightarrow> JournalState" where
  "open_runtime limits s rid =
     (if hm_get (js_runtimes s) rid \<noteq> None then s
      else case evict_while (jl_max_runtimes limits) hm_remove (js_runtime_order s @ [rid])
                  (hm_insert rid (RuntimeJournal_new (jl_max_invocations_per_runtime limits)) (js_runtimes s)) of
             (order, runtimes) \<Rightarrow> s\<lparr>js_runtimes := runtimes, js_runtime_order := order\<rparr>)"

definition journal_append ::
    "InMemoryEventJournal \<Rightarrow> EventEnvelope
      \<Rightarrow> (EventJournalError + EventAppendOutcome) \<times> InMemoryEventJournal" where
  "journal_append journal e =
     (if event_schema_version e \<noteq> 1 then (Inl (UnsupportedSchema (event_schema_version e)), journal)
      else let s = open_runtime (journal_limits journal) (journal_inner journal) (event_runtime_id e) in
           case hm_get (js_runtimes s) (event_runtime_id e) of
             None \<Rightarrow> (Inl (StateInvariant ''runtime disappeared before append''), journal\<lparr>journal_inner := s\<rparr>)
           | Some r \<Rightarrow>
               (case runtime_append r e (jl_max_events_per_invocation (journal_limits journal)) of
                  (res, r') \<Rightarrow>
                    (res, journal\<lparr>journal_inner :=
                       s\<lparr>js_runtimes := hm_insert (event_runtime_id e) r' (js_runtimes s)\<rparr>\<rparr>)))"

definition journal_replay ::
    "InMemoryEventJournal \<Rightarrow> EventReplayRequest \<Rightarrow> EventJournalError + EventReplayBatch" where
  "journal_replay journal request =
     (let mx = jl_max_replay_events (journal_limits journal) in
      if replay_limit request = 0 \<or> replay_limit request > mx
      then Inl (InvalidReplayLimit mx (replay_limit request))
      else case hm_get (js_runtimes (journal_inner journal)) (replay_runtime_id request) of
             None \<Rightarrow> Inr \<lparr>batch_events = [], batch_next = replay_after request, batch_truncated = False\<rparr>
           | Some r \<Rightarrow> runtime_replay r request mx)"

definition journal_remove_runtime :: "InMemoryEventJournal \<Rightarrow> RuntimeId \<Rightarrow> InMemoryEventJournal" where
  "journal_remove_runtime journal rid =
     journal\<lparr>journal_inner :=
       \<lparr>js_runtimes = hm_remove rid (js_runtimes (journal_inner journal)),
        js_runtime_order = filter (\<lambda>candidate. candidate \<noteq> rid) (js_runtime_order (journal_inner journal))\<rparr>\<rparr>"

section \<open>The invariant\<close>

definition numbered :: "nat \<Rightarrow> EventEnvelope list \<Rightarrow> bool" where
  "numbered k es \<longleftrightarrow> map event_sequence es = map of_nat [Suc k..<Suc (k + length es)]"

text \<open>
  One invocation: at most the configured number of events, consecutively numbered from the last
  evicted one, and below the largest sequence number.
\<close>

definition ij_ok :: "usize \<Rightarrow> RuntimeId \<Rightarrow> InvocationId \<Rightarrow> InvocationJournal \<Rightarrow> bool" where
  "ij_ok mx rid i j \<longleftrightarrow>
     ij_maximum j = mx \<and> ij_events j \<noteq> [] \<and> length (ij_events j) \<le> mx
     \<and> numbered (unat (ij_evicted_through j)) (ij_events j)
     \<and> unat (ij_evicted_through j) + length (ij_events j) < 2 ^ 64 - 1
     \<and> list_all (\<lambda>e. event_runtime_id e = rid \<and> event_invocation_id e = i) (ij_events j)"

definition rj_ok :: "EventJournalLimits \<Rightarrow> RuntimeId \<Rightarrow> RuntimeJournal \<Rightarrow> bool" where
  "rj_ok limits rid r \<longleftrightarrow>
     rj_max_invocations r = jl_max_invocations_per_runtime limits
     \<and> hm_ok (rj_invocations r)
     \<and> distinct (rj_invocation_order r) \<and> set (rj_invocation_order r) = fst ` set (rj_invocations r)
     \<and> length (rj_invocation_order r) \<le> rj_max_invocations r
     \<and> distinct (rj_evicted_order r) \<and> set (rj_evicted_order r) = rj_evicted_invocations r
     \<and> length (rj_evicted_order r) \<le> rj_max_invocations r
     \<and> rj_evicted_invocations r \<inter> set (rj_invocation_order r) = {}
     \<and> list_all (\<lambda>(i, j). ij_ok (jl_max_events_per_invocation limits) rid i j) (rj_invocations r)"

definition journal_ok :: "InMemoryEventJournal \<Rightarrow> bool" where
  "journal_ok journal \<longleftrightarrow>
     (let limits = journal_limits journal; s = journal_inner journal in
      0 < jl_max_runtimes limits \<and> 0 < jl_max_invocations_per_runtime limits
      \<and> 0 < jl_max_events_per_invocation limits \<and> 0 < jl_max_replay_events limits
      \<and> hm_ok (js_runtimes s) \<and> distinct (js_runtime_order s)
      \<and> set (js_runtime_order s) = fst ` set (js_runtimes s)
      \<and> length (js_runtime_order s) \<le> jl_max_runtimes limits
      \<and> list_all (\<lambda>(rid, r). rj_ok limits rid r) (js_runtimes s))"

subsection \<open>One invocation\<close>

lemma numbered_nth: "numbered k es \<Longrightarrow> m < length es \<Longrightarrow> event_sequence (es ! m) = of_nat (Suc (k + m))"
proof -
  assume n: "numbered k es" and m: "m < length es"
  from m have "event_sequence (es ! m) = map event_sequence es ! m" by simp
  also have "\<dots> = map of_nat [Suc k..<Suc (k + length es)] ! m" using n by (simp only: numbered_def)
  finally show ?thesis using m by (simp del: upt_Suc)
qed

lemma numbered_Cons: "numbered k (x # xs) \<longleftrightarrow> event_sequence x = of_nat (Suc k) \<and> numbered (Suc k) xs"
  by (simp add: numbered_def upt_conv_Cons del: upt_Suc)

lemma ij_ok_sequences:
  assumes "ij_ok mx rid i j" "m < length (ij_events j)"
  shows "unat (event_sequence (ij_events j ! m)) = Suc (unat (ij_evicted_through j) + m)"
  using assms numbered_nth [of "unat (ij_evicted_through j)" "ij_events j" m]
  by (auto simp: ij_ok_def unat_of_nat_small simp del: of_nat_Suc of_nat_add)

lemma next_sequence_ok:
  assumes "ij_ok mx rid i j"
  shows "unat (next_sequence j) = Suc (unat (ij_evicted_through j) + length (ij_events j))"
proof -
  have ne: "ij_events j \<noteq> []" using assms by (simp add: ij_ok_def)
  then have "unat (event_sequence (last (ij_events j))) = unat (ij_evicted_through j) + length (ij_events j)"
    using ij_ok_sequences [OF assms, of "length (ij_events j) - 1"] by (simp add: last_conv_nth)
  moreover have "unat (ij_evicted_through j) + length (ij_events j) < 2 ^ 64 - 1"
    using assms by (simp add: ij_ok_def)
  ultimately show ?thesis using ne by (simp add: next_sequence_def sat_simps)
qed

lemma ij_ok_find:
  assumes "ij_ok mx rid i j" "e \<in> set (ij_events j)"
  shows "find (\<lambda>event. event_sequence event = event_sequence e) (ij_events j) = Some e"
proof -
  obtain m where m: "m < length (ij_events j)" "ij_events j ! m = e" using assms(2) by (auto simp: in_set_conv_nth)
  have "event_sequence (ij_events j ! l) \<noteq> event_sequence e" if "l < m" for l
    using ij_ok_sequences [OF assms(1), of l] ij_ok_sequences [OF assms(1), of m] that m by auto
  then show ?thesis using m by (auto simp: find_Some_iff)
qed

lemma invocation_append_ok:
  assumes ok: "ij_ok mx rid i j" and pos: "0 < mx"
    and ids: "event_runtime_id e = rid" "event_invocation_id e = i"
    and max: "event_sequence e \<noteq> - 1"
    and app: "invocation_append j e = (res, j')"
  shows "ij_ok mx rid i j'"
proof (cases "event_sequence e = next_sequence j")
  case False
  then have "j' = j" using app by (auto simp: invocation_append_def Let_def split: if_splits)
  then show ?thesis using ok by simp
next
  case True
  let ?k = "unat (ij_evicted_through j)" and ?es = "ij_events j"
  have len: "length ?es \<le> mx" "?es \<noteq> []" and num: "numbered ?k ?es"
    and hd: "ij_maximum j = mx" using ok by (auto simp: ij_ok_def)
  have seq: "unat (event_sequence e) = Suc (?k + length ?es)"
    using next_sequence_ok [OF ok] True by simp
  have "unat (- 1 :: u64) = 2 ^ 64 - 1" by (simp add: unat_minus_one_word)
  then have "unat (event_sequence e) \<noteq> 2 ^ 64 - 1" using max by (metis word_unat_eq_iff)
  then have lt: "Suc (?k + length ?es) < 2 ^ 64 - 1"
    using seq unat_lt64 [of "event_sequence e"] by simp
  have e: "event_sequence e = of_nat (Suc (?k + length ?es))" 
    unfolding word_unat_eq_iff seq using lt by (subst unat_of_nat_small) simp_all
  have snoc: "numbered ?k (?es @ [e])" using num e by (simp add: numbered_def)
  have j': "(ij_events j', ij_evicted_through j') =
      (if length ?es < mx then (?es @ [e], ij_evicted_through j) else (tl ?es @ [e], event_sequence (hd ?es)))"
    and m': "ij_maximum j' = mx"
    using app True len pos hd by (auto simp: invocation_append_def Let_def evict_while_snoc split: if_splits)
  show ?thesis
  proof (cases "length ?es < mx")
    case True
    with j' m' snoc lt ok ids show ?thesis by (simp add: ij_ok_def)
  next
    case False
    have h: "unat (event_sequence (hd ?es)) = Suc ?k"
      using ij_ok_sequences [OF ok, of 0] len(2) by (simp add: hd_conv_nth)
    have "numbered (Suc ?k) (tl ?es @ [e])"
      using snoc len(2) by (cases ?es) (auto simp: numbered_Cons)
    moreover have "length (tl ?es @ [e]) = length ?es" using len(2) by simp
    moreover have "list_all (\<lambda>e. event_runtime_id e = rid \<and> event_invocation_id e = i) (tl ?es)"
      using ok by (cases ?es) (auto simp: ij_ok_def)
    ultimately show ?thesis using j' m' False lt h ids len pos by (simp add: ij_ok_def)
  qed
qed

lemma invocation_append_first:
  assumes "event_sequence e = 1" "0 < mx" "event_runtime_id e = rid" "event_invocation_id e = i"
  shows "fst (invocation_append (InvocationJournal_new mx) e) = Inr Appended
    \<and> ij_ok mx rid i (snd (invocation_append (InvocationJournal_new mx) e))"
  using assms
  by (simp add: invocation_append_def InvocationJournal_new_def next_sequence_def saturating_add_def
      evict_while_snoc [of "[]"] ij_ok_def numbered_def)

subsection \<open>One runtime\<close>

text \<open>What opening an invocation does when the invariant holds and the invocation is new.\<close>

definition trim_evicted :: "usize \<Rightarrow> InvocationId \<Rightarrow> RuntimeJournal \<Rightarrow> RuntimeJournal" where
  "trim_evicted mx expired r =
     (if length (rj_evicted_order r) < mx
      then r\<lparr>rj_evicted_invocations := insert expired (rj_evicted_invocations r),
             rj_evicted_order := rj_evicted_order r @ [expired]\<rparr>
      else r\<lparr>rj_evicted_invocations := insert expired (rj_evicted_invocations r) - {hd (rj_evicted_order r)},
             rj_evicted_order := tl (rj_evicted_order r) @ [expired]\<rparr>)"

lemma open_invocation_eq:
  assumes ok: "rj_ok limits rid r" and pos: "0 < rj_max_invocations r"
  shows "open_invocation r i max_events =
    (let r1 = r\<lparr>rj_invocations := hm_insert i (InvocationJournal_new max_events) (rj_invocations r),
                rj_invocation_order := rj_invocation_order r @ [i]\<rparr> in
     if length (rj_invocation_order r) < rj_max_invocations r then r1
     else let expired = hd (rj_invocation_order r) in
       trim_evicted (rj_max_invocations r) expired
         (r1\<lparr>rj_invocations := hm_remove expired (rj_invocations r1),
             rj_invocation_order := tl (rj_invocation_order r) @ [i]\<rparr>))"
proof -
  have len: "length (rj_invocation_order r) \<le> rj_max_invocations r"
    "length (rj_evicted_order r) \<le> rj_max_invocations r" using ok by (auto simp: rj_ok_def)
  show ?thesis
  proof (cases "length (rj_invocation_order r) < rj_max_invocations r")
    case True
    then show ?thesis
      using len pos by (simp add: open_invocation_def evict_while_snoc evict_while_eq Let_def)
  next
    case False
    then have "rj_invocation_order r \<noteq> []" using pos by auto
    then have "hd (rj_invocation_order r) \<in> set (rj_invocation_order r)" by simp
    then have "hd (rj_invocation_order r) \<notin> rj_evicted_invocations r" using ok by (auto simp: rj_ok_def)
    then show ?thesis
      using False len pos
      by (simp add: open_invocation_def evict_while_snoc evict_invocation_def trim_evicted_def Let_def)
  qed
qed

text \<open>Opening keeps the invariant, except that the new invocation has no event yet.\<close>

lemma open_invocation_ok:
  assumes ok: "rj_ok limits rid r" and pos: "0 < rj_max_invocations r"
    and new: "hm_get (rj_invocations r) i = None" "i \<notin> rj_evicted_invocations r"
    and j: "ij_ok (jl_max_events_per_invocation limits) rid i j"
  shows "hm_get (rj_invocations (open_invocation r i max_events)) i = Some (InvocationJournal_new max_events)"
    and "rj_ok limits rid ((open_invocation r i max_events)
           \<lparr>rj_invocations := hm_insert i j (rj_invocations (open_invocation r i max_events))\<rparr>)"
proof -
  have i: "i \<notin> set (rj_invocation_order r)" "i \<notin> fst ` set (rj_invocations r)"
    using new(1) ok by (auto simp: rj_ok_def map_of_eq_None_iff)
  have *: "hm_get (rj_invocations (open_invocation r i max_events)) i = Some (InvocationJournal_new max_events)
    \<and> rj_ok limits rid ((open_invocation r i max_events)
        \<lparr>rj_invocations := hm_insert i j (rj_invocations (open_invocation r i max_events))\<rparr>)"
  proof (cases "length (rj_invocation_order r) < rj_max_invocations r")
    case True
    with ok i new(2) j show ?thesis
      by (auto simp: open_invocation_eq [OF ok pos] Let_def rj_ok_def update_conv' list_all_hm_insert)
  next
    case False
    let ?x = "hd (rj_invocation_order r)"
    have ne: "rj_invocation_order r \<noteq> []" using False pos by auto
    then have x: "?x \<in> set (rj_invocation_order r)" by simp
    with i have xi: "?x \<noteq> i" by auto
    let ?ev = "rj_evicted_invocations r" and ?q = "rj_evicted_order r" and ?mx = "rj_max_invocations r"
    have xe: "?x \<notin> ?ev" using ok x by (auto simp: rj_ok_def)
    have inv: "hm_ok (hm_insert i j (hm_remove ?x (hm_insert i (InvocationJournal_new max_events) (rj_invocations r))))"
      "list_all (\<lambda>(i, j). ij_ok (jl_max_events_per_invocation limits) rid i j)
         (hm_insert i j (hm_remove ?x (hm_insert i (InvocationJournal_new max_events) (rj_invocations r))))"
      using ok j by (auto simp: rj_ok_def list_all_hm_iff update_conv' delete_conv' split: if_splits)
    have ord: "distinct (tl (rj_invocation_order r) @ [i])"
      "set (tl (rj_invocation_order r) @ [i]) = insert i (insert i (fst ` set (rj_invocations r)) - {?x})"
      "length (tl (rj_invocation_order r) @ [i]) \<le> ?mx"
      using ok i ne xi by (auto simp: rj_ok_def distinct_tl distinct_tl_hd)
    show ?thesis
    proof (cases "length ?q < ?mx")
      case True
      with False ok xi xe inv ord i new(2) show ?thesis
        by (auto simp: open_invocation_eq [OF ok pos] Let_def trim_evicted_def rj_ok_def update_conv' delete_conv' distinct_tl_hd ne)
    next
      case q: False
      then have qne: "?q \<noteq> []" using pos by auto
      have "set (tl ?q) = ?ev - {hd ?q}" "distinct (tl ?q)" using ok qne by (auto simp: rj_ok_def distinct_tl_hd distinct_tl)
      moreover have "hd ?q \<noteq> ?x" using ok qne xe by (metis hd_in_set rj_ok_def)
      ultimately show ?thesis using q False ok xi xe inv ord i new(2)
        by (auto simp: open_invocation_eq [OF ok pos] Let_def trim_evicted_def rj_ok_def update_conv' delete_conv' distinct_tl_hd ne)
    qed
  qed
  then show "hm_get (rj_invocations (open_invocation r i max_events)) i = Some (InvocationJournal_new max_events)"
    and "rj_ok limits rid ((open_invocation r i max_events)
           \<lparr>rj_invocations := hm_insert i j (rj_invocations (open_invocation r i max_events))\<rparr>)"
    by blast+
qed

lemma runtime_append_ok:
  assumes ok: "rj_ok limits rid r" and rid: "event_runtime_id e = rid"
    and pos: "0 < jl_max_invocations_per_runtime limits" "0 < jl_max_events_per_invocation limits"
    and max: "event_sequence e \<noteq> - 1"
    and app: "runtime_append r e (jl_max_events_per_invocation limits) = (res, r')"
  shows "rj_ok limits rid r' \<and> (\<forall>msg. res \<noteq> Inl (StateInvariant msg))"
proof -
  let ?i = "event_invocation_id e" and ?mx = "jl_max_events_per_invocation limits"
  have mpos: "0 < rj_max_invocations r" using ok pos by (simp add: rj_ok_def)
  have nostate: "fst (invocation_append j e) \<noteq> Inl (StateInvariant msg)" for j msg
    by (auto simp: invocation_append_def Let_def split: prod.splits)
  consider (early) "r' = r" "res = Inl (SequenceConflict (event_runtime_id e) ?i (event_sequence e))
        \<or> res = Inl (SequenceGap (event_runtime_id e) ?i 1 (event_sequence e))"
    | (known) j where "hm_get (rj_invocations r) ?i = Some j" "?i \<notin> rj_evicted_invocations r"
    | (fresh) "hm_get (rj_invocations r) ?i = None" "event_sequence e = 1" "?i \<notin> rj_evicted_invocations r"
    using app by (auto simp: runtime_append_def Let_def split: if_splits option.splits)
  then show ?thesis
  proof cases
    case early
    then show ?thesis using ok by auto
  next
    case known
    obtain res' j' where a: "invocation_append j e = (res', j')" by fastforce
    have "list_all (\<lambda>(i, j). ij_ok ?mx rid i j) (rj_invocations r)" using ok by (simp add: rj_ok_def)
    from list_all_hm_get [OF this known(1)] have "ij_ok ?mx rid ?i j" .
    from invocation_append_ok [OF this pos(2) rid refl max a] have j': "ij_ok ?mx rid ?i j'" .
    have r': "res = res'" "r' = r\<lparr>rj_invocations := hm_insert ?i j' (rj_invocations r)\<rparr>"
      using app known a by (auto simp: runtime_append_def Let_def)
    have "?i \<in> fst ` set (rj_invocations r)" using known(1) by (metis map_of_eq_None_iff option.distinct(1))
    then have "rj_ok limits rid r'"
      using ok j' unfolding r' by (auto simp: rj_ok_def list_all_hm_insert)
    then show ?thesis using nostate [of j] a r' by (metis fst_conv)
  next
    case fresh
    let ?r = "open_invocation r ?i ?mx" and ?a = "invocation_append (InvocationJournal_new ?mx) e"
    note first = invocation_append_first [OF fresh(2) pos(2) rid refl]
    note opened = open_invocation_ok [OF ok mpos fresh(1,3) conjunct2 [OF first], of ?mx]
    have "r' = ?r\<lparr>rj_invocations := hm_insert ?i (snd ?a) (rj_invocations ?r)\<rparr>" "res = fst ?a"
      using app fresh opened(1) by (auto simp: runtime_append_def Let_def split: prod.splits)
    then show ?thesis using opened(2) first by simp
  qed
qed

subsection \<open>The journal\<close>

lemma open_runtime_ok:
  assumes ok: "journal_ok journal"
  shows "hm_get (js_runtimes (open_runtime (journal_limits journal) (journal_inner journal) rid)) rid \<noteq> None
    \<and> journal_ok (journal\<lparr>journal_inner := open_runtime (journal_limits journal) (journal_inner journal) rid\<rparr>)"
proof (cases "hm_get (js_runtimes (journal_inner journal)) rid")
  case (Some r)
  then show ?thesis using ok by (simp add: open_runtime_def)
next
  case None
  let ?s = "journal_inner journal" and ?l = "journal_limits journal"
  let ?new = "RuntimeJournal_new (jl_max_invocations_per_runtime ?l)"
  have new: "rj_ok ?l rid ?new" using ok by (simp add: rj_ok_def RuntimeJournal_new_def)
  have rid: "rid \<notin> set (js_runtime_order ?s)" "rid \<notin> fst ` set (js_runtimes ?s)"
    using None ok by (auto simp: journal_ok_def Let_def map_of_eq_None_iff)
  show ?thesis
  proof (cases "length (js_runtime_order ?s) < jl_max_runtimes ?l")
    case True
    with None ok new rid show ?thesis
      by (auto simp: open_runtime_def evict_while_snoc journal_ok_def Let_def update_conv' list_all_hm_insert)
  next
    case False
    have ne: "js_runtime_order ?s \<noteq> []" using False ok by (auto simp: journal_ok_def Let_def)
    then have x: "hd (js_runtime_order ?s) \<noteq> rid" using rid(1) by (metis hd_in_set)
    with None ok new rid False ne show ?thesis
      by (auto simp: open_runtime_def evict_while_snoc journal_ok_def Let_def update_conv' delete_conv'
          list_all_hm_insert list_all_hm_remove distinct_tl distinct_tl_hd)
  qed
qed

lemma journal_append_ok:
  assumes ok: "journal_ok journal" and max: "event_sequence e \<noteq> - 1"
    and app: "journal_append journal e = (res, journal')"
  shows "journal_ok journal' \<and> (\<forall>msg. res \<noteq> Inl (StateInvariant msg))"
proof (cases "event_schema_version e = 1")
  case False
  then show ?thesis using app ok by (auto simp: journal_append_def)
next
  case True
  let ?rid = "event_runtime_id e" and ?l = "journal_limits journal"
  let ?s = "open_runtime ?l (journal_inner journal) ?rid"
  note opened = open_runtime_ok [OF ok, of ?rid]
  obtain r where r: "hm_get (js_runtimes ?s) ?rid = Some r" using opened by auto
  obtain res' r' where a: "runtime_append r e (jl_max_events_per_invocation ?l) = (res', r')" by fastforce
  have pos: "0 < jl_max_invocations_per_runtime ?l" "0 < jl_max_events_per_invocation ?l"
    using ok by (simp_all add: journal_ok_def Let_def)
  have "list_all (\<lambda>(rid, r). rj_ok ?l rid r) (js_runtimes ?s)" using opened by (simp add: journal_ok_def Let_def)
  from list_all_hm_get [OF this r] have "rj_ok ?l ?rid r" .
  note step = runtime_append_ok [OF this refl pos max a]
  have j': "res = res'" "journal' = journal\<lparr>journal_inner := ?s\<lparr>js_runtimes := hm_insert ?rid r' (js_runtimes ?s)\<rparr>\<rparr>"
    using app True r a by (auto simp: journal_append_def Let_def)
  have "?rid \<in> fst ` set (js_runtimes ?s)" using r by (metis map_of_eq_None_iff option.distinct(1))
  then have "journal_ok journal'"
    using opened step unfolding j' by (auto simp: journal_ok_def Let_def list_all_hm_insert)
  then show ?thesis using step j' by blast
qed

end
