(* ===== verification/JournalReplay.thy ===== *)
theory JournalReplay
  imports Journal
begin

text \<open>
  Properties of the event journal: replay in pages, idempotent append, reading back what was
  appended, and the bound on retained events for every sequence of operations.
\<close>

section \<open>Replay\<close>

definition times_monotone :: "RuntimeJournal \<Rightarrow> bool" where
  "times_monotone r \<longleftrightarrow> list_all (\<lambda>(_, j). sorted (map event_observed_at_unix_ms (ij_events j))) (rj_invocations r)"

abbreviation selected :: "InvocationId list option \<Rightarrow> InvocationId \<Rightarrow> bool" where
  "selected only i \<equiv> (case only of None \<Rightarrow> True | Some s \<Rightarrow> i \<in> set s)"

lemma set_pending_events:
  "set (pending_events r only after) =
     {e. \<exists>(i, j) \<in> set (rj_invocations r). selected only i \<and> e \<in> set (ij_events j)
         \<and> event_sequence e > cursor_of after (event_invocation_id e)}"
  by (auto simp: pending_events_def)

lemma rj_ok_event:
  assumes "rj_ok limits rid r" "(i, j) \<in> set (rj_invocations r)" "e \<in> set (ij_events j)"
  shows "event_invocation_id e = i" "event_runtime_id e = rid" "ij_ok (jl_max_events_per_invocation limits) rid i j"
  using assms by (auto simp: rj_ok_def ij_ok_def list_all_iff)

lemma ij_ok_sorted_wrt: "ij_ok mx rid i j \<Longrightarrow> sorted_wrt (\<lambda>a b. event_sequence a < event_sequence b) (ij_events j)"
  by (auto simp: sorted_wrt_iff_nth_less word_less_nat_alt ij_ok_sequences)

text \<open>Events of one invocation come in sequence order, and their times follow it.\<close>

lemma same_invocation_order:
  assumes ok: "rj_ok limits rid r" and mono: "times_monotone r"
    and a: "(i, j) \<in> set (rj_invocations r)" "a \<in> set (ij_events j)"
    and b: "(i', j') \<in> set (rj_invocations r)" "b \<in> set (ij_events j')"
    and same: "event_invocation_id a = event_invocation_id b"
    and key: "replay_key a \<le> replay_key b" and ne: "a \<noteq> b"
  shows "event_sequence a < event_sequence b"
proof -
  have "i = i'" using rj_ok_event [OF ok a] rj_ok_event [OF ok b] same by simp
  then have jj: "j = j'" using ok a(1) b(1) by (metis rj_ok_def eq_key_imp_eq_value)
  obtain m n where m: "m < length (ij_events j)" "ij_events j ! m = a"
    and n: "n < length (ij_events j)" "ij_events j ! n = b"
    using a(2) b(2) jj by (metis in_set_conv_nth)
  have srt: "sorted (map event_observed_at_unix_ms (ij_events j))"
    using mono a(1) by (auto simp: times_monotone_def list_all_iff)
  have less: "event_sequence (ij_events j ! p) < event_sequence (ij_events j ! q)" if "p < q" "q < length (ij_events j)" for p q
    using ij_ok_sorted_wrt [OF rj_ok_event(3) [OF ok a]] that by (simp add: sorted_wrt_iff_nth_less)
  have "m \<noteq> n" using ne m n by auto
  moreover have "\<not> n < m"
  proof
    assume nm: "n < m"
    have "event_observed_at_unix_ms b \<le> event_observed_at_unix_ms a"
      using sorted_nth_mono [OF srt, of n m] nm m n by simp
    moreover have "event_sequence b < event_sequence a" using less [OF nm m(1)] m n by simp
    ultimately show False using key same by (auto simp: replay_key_def less_eq_prod_def less_prod_def)
  qed
  ultimately show ?thesis using less [of m n] m n by (metis nat_neq_iff)
qed

lemma distinct_concat_events:
  assumes ok: "rj_ok limits rid r"
  shows "distinct (concat (map (\<lambda>(_, j). ij_events j) (filter P (rj_invocations r))))"
proof -
  have "distinct (concat (map (\<lambda>(_, j). ij_events j) m))"
    if "hm_ok m" "list_all (\<lambda>(i, j). ij_ok mx rid i j) m" for m mx
    using that
  proof (induction m)
    case (Cons p m)
    obtain i j where p: "p = (i, j)" by force
    have d: "distinct (ij_events j)"
      using ij_ok_sorted_wrt Cons.prems(2) unfolding p by (auto simp: distinct_conv_nth sorted_wrt_iff_nth_less) (metis nat_neq_iff order_less_irrefl)
    have "event_invocation_id e = i" if "e \<in> set (ij_events j)" for e
      using that Cons.prems(2) by (auto simp: p ij_ok_def list_all_iff)
    moreover have "event_invocation_id e \<noteq> i" if "e \<in> set (concat (map (\<lambda>(_, j). ij_events j) m))" for e
      using that Cons.prems by (force simp: p ij_ok_def list_all_iff)
    ultimately have "set (ij_events j) \<inter> set (concat (map (\<lambda>(_, j). ij_events j) m)) = {}" by blast
    with Cons d show ?case by (simp add: p)
  qed simp
  moreover have "hm_ok (filter P (rj_invocations r))" using ok by (simp add: rj_ok_def distinct_map_filter)
  moreover have "list_all (\<lambda>(i, j). ij_ok (jl_max_events_per_invocation limits) rid i j) (filter P (rj_invocations r))"
    using ok by (auto simp: rj_ok_def list_all_iff)
  ultimately show ?thesis by blast
qed

lemma distinct_pending_events: "rj_ok limits rid r \<Longrightarrow> distinct (pending_events r only after)"
  unfolding pending_events_def using distinct_concat_events by simp

lemma sorted_pending_events: "sorted (map replay_key (pending_events r only after))"
  by (simp add: pending_events_def)

definition in_sequence :: "EventEnvelope \<Rightarrow> EventEnvelope \<Rightarrow> bool" where
  "in_sequence a b \<longleftrightarrow> (event_invocation_id a = event_invocation_id b \<longrightarrow> event_sequence a < event_sequence b)"

lemma pending_in_sequence:
  assumes ok: "rj_ok limits rid r" and mono: "times_monotone r"
  shows "sorted_wrt in_sequence (pending_events r only after)"
proof -
  let ?p = "pending_events r only after"
  have "in_sequence (?p ! m) (?p ! n)" if "m < n" "n < length ?p" for m n
  proof -
    have a: "?p ! m \<in> set ?p" and b: "?p ! n \<in> set ?p" using that by auto
    have "replay_key (?p ! m) \<le> replay_key (?p ! n)"
      using sorted_nth_mono [OF sorted_pending_events, of m n r only after] that by simp
    moreover have "?p ! m \<noteq> ?p ! n" using distinct_pending_events [OF ok] that by (simp add: nth_eq_iff_index_eq)
    ultimately show ?thesis
      using a b same_invocation_order [OF ok mono] by (auto simp: set_pending_events in_sequence_def)
  qed
  then show ?thesis by (simp add: sorted_wrt_iff_nth_less)
qed

lemma map_of_advance:
  "map_of (advance_cursors after es) i =
     (case filter (\<lambda>e. event_invocation_id e = i) es of
        [] \<Rightarrow> map_of after i
      | fs \<Rightarrow> Some (event_sequence (last fs)))"
proof (induction es rule: rev_induct)
  case Nil
  then show ?case by (simp add: advance_cursors_def)
next
  case (snoc e es)
  then show ?case
    by (cases "filter (\<lambda>e. event_invocation_id e = i) es") (auto simp: advance_cursors_def)
qed

lemma sorted_wrt_last: "sorted_wrt P xs \<Longrightarrow> x \<in> set xs \<Longrightarrow> x = last xs \<or> P x (last xs)"
  by (induction xs) auto

lemma last_filter: "filter P xs \<noteq> [] \<Longrightarrow> last (filter P xs) \<in> set xs \<and> P (last (filter P xs))"
proof -
  assume "filter P xs \<noteq> []"
  then have "last (filter P xs) \<in> set (filter P xs)" by (rule last_in_set)
  then show ?thesis by simp
qed

lemma cursor_advance_ge:
  assumes "\<forall>e \<in> set page. event_sequence e > cursor_of after (event_invocation_id e)"
  shows "cursor_of after i \<le> cursor_of (advance_cursors after page) i"
proof (cases "filter (\<lambda>e. event_invocation_id e = i) page")
  case Nil
  then show ?thesis by (simp add: cursor_of_def map_of_advance)
next
  case (Cons f fs)
  let ?l = "last (filter (\<lambda>e. event_invocation_id e = i) page)"
  have ne: "filter (\<lambda>e. event_invocation_id e = i) page \<noteq> []" using Cons by simp
  from last_filter [OF ne] have l: "?l \<in> set page" "event_invocation_id ?l = i" by blast+
  from bspec [OF assms l(1)] have "event_sequence ?l > cursor_of after i" by (simp only: l(2))
  moreover have "cursor_of (advance_cursors after page) i = event_sequence ?l"
    by (simp add: cursor_of_def map_of_advance Cons)
  ultimately show ?thesis by simp
qed

text \<open>The cursors after a page separate the page from the rest.\<close>

lemma advance_separates:
  assumes srt: "sorted_wrt in_sequence (page @ rest)"
    and gt: "\<forall>e \<in> set (page @ rest). event_sequence e > cursor_of after (event_invocation_id e)"
    and e: "e \<in> set (page @ rest)"
  shows "event_sequence e > cursor_of (advance_cursors after page) (event_invocation_id e) \<longleftrightarrow> e \<in> set rest"
proof (cases "filter (\<lambda>x. event_invocation_id x = event_invocation_id e) page")
  case Nil
  then have "e \<notin> set page" by (auto simp: filter_empty_conv)
  with e gt show ?thesis by (simp add: cursor_of_def map_of_advance Nil)
next
  case (Cons f fs)
  let ?fs = "filter (\<lambda>x. event_invocation_id x = event_invocation_id e) page"
  have cur: "cursor_of (advance_cursors after page) (event_invocation_id e) = event_sequence (last ?fs)"
    by (simp add: cursor_of_def map_of_advance Cons)
  have ne: "?fs \<noteq> []" using Cons by simp
  from last_filter [OF ne] have last: "last ?fs \<in> set page" "event_invocation_id (last ?fs) = event_invocation_id e"
    by blast+
  show ?thesis
  proof (cases "e \<in> set rest")
    case True
    with srt last have "event_sequence (last ?fs) < event_sequence e"
      by (auto simp: sorted_wrt_append in_sequence_def)
    with True cur show ?thesis by simp
  next
    case False
    then have "e \<in> set ?fs" using e by simp
    moreover have "sorted_wrt in_sequence ?fs" using srt by (simp add: sorted_wrt_append sorted_wrt_filter)
    ultimately have "e = last ?fs \<or> in_sequence e (last ?fs)" by (intro sorted_wrt_last)
    then have "event_sequence e \<le> event_sequence (last ?fs)" using last by (auto simp: in_sequence_def)
    with False cur show ?thesis by simp
  qed
qed

lemma pending_events_advance:
  assumes ok: "rj_ok limits rid r" and mono: "times_monotone r"
  shows "pending_events r only (advance_cursors after (take n (pending_events r only after)))
    = drop n (pending_events r only after)"
proof -
  let ?p = "pending_events r only after" and ?after' = "advance_cursors after (take n (pending_events r only after))"
  let ?above = "\<lambda>c e. event_sequence e > cursor_of c (event_invocation_id e)"
  let ?all = "concat (map (\<lambda>(_, j). ij_events j) (filter (\<lambda>(i, _). selected only i) (rj_invocations r)))"
  have srt: "sorted_wrt in_sequence (take n ?p @ drop n ?p)" using pending_in_sequence [OF ok mono] by simp
  have gt: "\<forall>e \<in> set (take n ?p @ drop n ?p). ?above after e" by (auto simp: set_pending_events)
  note sep = advance_separates [OF srt gt]
  have gt': "\<forall>e \<in> set (take n ?p). ?above after e" using gt unfolding set_append ball_Un by blast
  have split: "?above after e" if "?above ?after' e" for e :: EventEnvelope
    using cursor_advance_ge [OF gt', of "event_invocation_id e"] that by (rule le_less_trans)
  have "pending_events r only ?after' = filter (?above ?after') ?p"
  proof -
    have "filter (?above ?after') ?p = sort_key replay_key (filter (?above ?after') (filter (?above after) ?all))"
      by (simp only: pending_events_def filter_sort)
    also have "filter (?above ?after') (filter (?above after) ?all) = filter (?above ?after') ?all"
      unfolding filter_filter using split by (intro filter_cong) auto
    finally show ?thesis by (simp only: pending_events_def)
  qed
  also have "\<dots> = filter (\<lambda>e. e \<in> set (drop n ?p)) ?p" using sep by (intro filter_cong) auto
  also have "\<dots> = filter (\<lambda>e. e \<in> set (drop n ?p)) (take n ?p) @ filter (\<lambda>e. e \<in> set (drop n ?p)) (drop n ?p)"
    by (metis append_take_drop_id filter_append)
  also have "\<dots> = drop n ?p"
  proof -
    have "set (take n ?p) \<inter> set (drop n ?p) = {}"
      using distinct_pending_events [OF ok] by (metis append_take_drop_id distinct_append)
    then show ?thesis by (simp add: filter_empty_conv disjoint_iff)
  qed
  finally show ?thesis .
qed

subsection \<open>Removal, and sequences of operations\<close>

lemma journal_remove_runtime_ok: "journal_ok journal \<Longrightarrow> journal_ok (journal_remove_runtime journal rid)"
  by (auto simp: journal_ok_def journal_remove_runtime_def Let_def list_all_hm_remove
      intro: order_trans [OF length_filter_le])

datatype JournalOperation = AppendEvent EventEnvelope | RemoveRuntime RuntimeId

definition journal_apply :: "InMemoryEventJournal \<Rightarrow> JournalOperation \<Rightarrow> InMemoryEventJournal" where
  "journal_apply journal operation =
     (case operation of
        AppendEvent e \<Rightarrow> snd (journal_append journal e)
      | RemoveRuntime rid \<Rightarrow> journal_remove_runtime journal rid)"

definition below_last :: "JournalOperation \<Rightarrow> bool" where
  "below_last operation = (case operation of AppendEvent e \<Rightarrow> event_sequence e \<noteq> - 1 | RemoveRuntime _ \<Rightarrow> True)"

lemma journal_new_ok: "journal_new limits = Inr journal \<Longrightarrow> journal_ok journal \<and> journal_limits journal = limits"
  by (auto simp: journal_new_def result_simps journal_ok_def split: if_splits)

lemma journal_limits_append [simp]: "journal_limits (snd (journal_append journal e)) = journal_limits journal"
  by (auto simp: journal_append_def Let_def split: option.splits prod.splits)

lemma journal_apply_ok:
  assumes "journal_ok journal" "below_last operation"
  shows "journal_ok (journal_apply journal operation)"
    and "journal_limits (journal_apply journal operation) = journal_limits journal"
  using assms journal_append_ok [OF assms(1) _ prod.collapse [symmetric]] journal_remove_runtime_ok
  by (auto simp: journal_apply_def below_last_def journal_remove_runtime_def split: JournalOperation.splits)

lemma journal_run_ok:
  assumes "journal_ok journal" "list_all below_last operations"
  shows "journal_ok (foldl journal_apply journal operations)
    \<and> journal_limits (foldl journal_apply journal operations) = journal_limits journal"
  using assms by (induction operations arbitrary: journal) (auto simp: journal_apply_ok)

definition retained_events :: "InMemoryEventJournal \<Rightarrow> EventEnvelope list" where
  "retained_events journal =
     concat (map (\<lambda>(_, r). concat (map (\<lambda>(_, j). ij_events j) (rj_invocations r)))
       (js_runtimes (journal_inner journal)))"

lemma length_concat_bound:
  assumes "\<forall>x \<in> set xs. length (f x) \<le> n" "length xs \<le> m"
  shows "length (concat (map f xs)) \<le> m * n"
proof -
  have "length (concat (map f xs)) \<le> length xs * n" using assms(1) by (induction xs) auto
  also have "\<dots> \<le> m * n" using assms(2) by simp
  finally show ?thesis .
qed

lemma order_length:
  assumes "hm_ok m" "distinct q" "set q = fst ` set m"
  shows "length m = length q"
  by (metis assms distinct_card length_map list.set_map)

lemma retained_events_bound:
  assumes ok: "journal_ok journal"
  shows "length (retained_events journal) \<le>
    jl_max_runtimes (journal_limits journal) *
      (jl_max_invocations_per_runtime (journal_limits journal) * jl_max_events_per_invocation (journal_limits journal))"
  unfolding retained_events_def
proof (rule length_concat_bound, safe)
  let ?l = "journal_limits journal" and ?m = "js_runtimes (journal_inner journal)"
  show "length ?m \<le> jl_max_runtimes ?l"
    using ok order_length [of ?m "js_runtime_order (journal_inner journal)"] by (auto simp: journal_ok_def Let_def)
  fix rid r assume "(rid, r) \<in> set ?m"
  then have r: "rj_ok ?l rid r" using ok by (auto simp: journal_ok_def Let_def list_all_iff)
  show "length (concat (map (\<lambda>(_, j). ij_events j) (rj_invocations r)))
      \<le> jl_max_invocations_per_runtime ?l * jl_max_events_per_invocation ?l"
  proof (rule length_concat_bound, safe)
    show "length (rj_invocations r) \<le> jl_max_invocations_per_runtime ?l"
      using r order_length [of "rj_invocations r" "rj_invocation_order r"] by (auto simp: rj_ok_def)
    fix i j assume "(i, j) \<in> set (rj_invocations r)"
    then have "ij_ok (jl_max_events_per_invocation ?l) rid i j" using r by (auto simp: rj_ok_def list_all_iff)
    then show "length (ij_events j) \<le> jl_max_events_per_invocation ?l" by (simp add: ij_ok_def)
  qed
qed

text \<open>
  C16: whatever sequence of appends (below the last sequence number) and removals a journal with
  valid limits receives, it stays well formed, so an append never reports a broken invariant,
  and it never retains more events than the product of its three limits.
\<close>

theorem journal_bounded_and_consistent:
  assumes "journal_new limits = Inr journal" "list_all below_last operations" "event_sequence e \<noteq> - 1"
  shows "case foldl journal_apply journal operations of journal' \<Rightarrow>
    length (retained_events journal')
      \<le> jl_max_runtimes limits * (jl_max_invocations_per_runtime limits * jl_max_events_per_invocation limits)
    \<and> (\<forall>message. fst (journal_append journal' e) \<noteq> Inl (StateInvariant message))"
proof -
  let ?j = "foldl journal_apply journal operations"
  have ok: "journal_ok ?j" "journal_limits ?j = limits"
    using journal_new_ok [OF assms(1)] journal_run_ok [OF _ assms(2), of journal] by auto
  show ?thesis
    using retained_events_bound [OF ok(1)] journal_append_ok [OF ok(1) assms(3) prod.collapse [symmetric]] ok(2)
    by simp
qed

subsection \<open>Appending twice, and reading back what was appended\<close>

lemma hm_insert_same: "hm_get m k = Some v \<Longrightarrow> hm_insert k v m = m"
  by (induction m) (auto split: if_splits)

lemma invocation_append_Appended:
  assumes ok: "ij_ok mx rid i j" and pos: "0 < mx" and app: "invocation_append j e = (Inr Appended, j')"
  shows "ij_events j' \<noteq> [] \<and> last (ij_events j') = e"
  using assms
  by (auto simp: invocation_append_def Let_def ij_ok_def evict_while_snoc split: if_splits prod.splits)

lemma invocation_append_again:
  assumes ok: "ij_ok mx rid i j" and pos: "0 < mx" and e: "e \<in> set (ij_events j)"
  shows "invocation_append j e = (Inr AlreadyPresent, j)"
proof -
  obtain m where "m < length (ij_events j)" "ij_events j ! m = e" using e by (auto simp: in_set_conv_nth)
  then have "event_sequence e < next_sequence j"
    using ij_ok_sequences [OF ok] next_sequence_ok [OF ok] by (auto simp: word_less_nat_alt)
  then show ?thesis using ij_ok_find [OF ok e] by (simp add: invocation_append_def Let_def)
qed

lemma filter_key_singleton:
  "hm_ok m \<Longrightarrow> hm_get m k = Some v \<Longrightarrow> filter (\<lambda>(i, _). i \<in> set [k]) m = [(k, v)]"
  by (induction m) (force simp: filter_empty_conv split: if_splits)+

text \<open>The journal of one invocation inside the whole journal.\<close>

definition journal_invocation :: "InMemoryEventJournal \<Rightarrow> RuntimeId \<Rightarrow> InvocationId \<Rightarrow> InvocationJournal option" where
  "journal_invocation journal rid i =
     (case hm_get (js_runtimes (journal_inner journal)) rid of
        None \<Rightarrow> None | Some r \<Rightarrow> hm_get (rj_invocations r) i)"

lemma journal_ok_runtime:
  "journal_ok journal \<Longrightarrow> hm_get (js_runtimes (journal_inner journal)) rid = Some r \<Longrightarrow> rj_ok (journal_limits journal) rid r"
  by (rule list_all_hm_get [where P = "rj_ok (journal_limits journal)"]) (auto simp: journal_ok_def Let_def)

lemma rj_ok_invocation:
  "rj_ok limits rid r \<Longrightarrow> hm_get (rj_invocations r) i = Some j \<Longrightarrow> ij_ok (jl_max_events_per_invocation limits) rid i j"
  by (rule list_all_hm_get [where P = "ij_ok (jl_max_events_per_invocation limits) rid"]) (auto simp: rj_ok_def)

lemma rj_ok_not_evicted:
  "rj_ok limits rid r \<Longrightarrow> hm_get (rj_invocations r) i = Some j \<Longrightarrow> i \<notin> rj_evicted_invocations r"
  by (force simp: rj_ok_def dest: map_of_SomeD)

lemma journal_append_Appended:
  assumes ok: "journal_ok journal" and seq: "event_sequence e \<noteq> - 1"
    and app: "journal_append journal e = (Inr Appended, journal')"
  obtains r j where "hm_get (js_runtimes (journal_inner journal')) (event_runtime_id e) = Some r"
    and "hm_get (rj_invocations r) (event_invocation_id e) = Some j"
    and "ij_events j \<noteq> []" "last (ij_events j) = e" "journal_ok journal'" "event_schema_version e = 1"
    and "journal_limits journal' = journal_limits journal"
proof -
  let ?rid = "event_runtime_id e" and ?i = "event_invocation_id e" and ?l = "journal_limits journal"
  let ?s = "open_runtime ?l (journal_inner journal) ?rid" and ?mx = "jl_max_events_per_invocation ?l"
  note opened = open_runtime_ok [OF ok, of ?rid]
  have pos: "0 < ?mx" using ok by (simp add: journal_ok_def Let_def)
  obtain r0 where r0: "hm_get (js_runtimes ?s) ?rid = Some r0" using opened by auto
  have rok: "rj_ok ?l ?rid r0" using journal_ok_runtime [of "journal\<lparr>journal_inner := ?s\<rparr>" ?rid r0] opened r0 by simp
  have v: "event_schema_version e = 1" using app by (auto simp: journal_append_def split: if_splits)
  obtain res r where ra: "runtime_append r0 e ?mx = (res, r)" by fastforce
  have res: "res = Inr Appended"
    and j': "journal' = journal\<lparr>journal_inner := ?s\<lparr>js_runtimes := hm_insert ?rid r (js_runtimes ?s)\<rparr>\<rparr>"
    using app v r0 ra by (auto simp: journal_append_def Let_def)
  let ?r1 = "if hm_get (rj_invocations r0) ?i = None then open_invocation r0 ?i ?mx else r0"
  obtain j0 j where j0: "hm_get (rj_invocations ?r1) ?i = Some j0" "invocation_append j0 e = (Inr Appended, j)"
    and r: "r = ?r1\<lparr>rj_invocations := hm_insert ?i j (rj_invocations ?r1)\<rparr>"
    using ra unfolding res
    by (auto simp: runtime_append_def Let_def split: if_splits option.splits prod.splits)
  have mx0: "ij_maximum j0 = ?mx"
  proof (cases "hm_get (rj_invocations r0) ?i")
    case None
    have fresh: "event_sequence e = 1" "?i \<notin> rj_evicted_invocations r0"
      using ra None unfolding res by (auto simp: runtime_append_def Let_def split: if_splits)
    have "0 < rj_max_invocations r0" using rok ok by (simp add: rj_ok_def journal_ok_def Let_def)
    from open_invocation_ok(1) [OF rok this None fresh(2) conjunct2 [OF invocation_append_first [OF fresh(1) pos refl refl]]]
    show ?thesis using j0(1) None by (auto simp: InvocationJournal_new_def)
  next
    case (Some j1)
    then show ?thesis using rj_ok_invocation [OF rok Some] j0(1) by (simp add: ij_ok_def)
  qed
  have "js_runtimes (journal_inner journal') = hm_insert ?rid r (js_runtimes ?s)" by (simp add: j')
  then have "hm_get (js_runtimes (journal_inner journal')) ?rid = Some r" by (simp add: update_conv')
  moreover have "hm_get (rj_invocations r) ?i = Some j" by (simp add: r update_conv')
  moreover have "ij_events j \<noteq> [] \<and> last (ij_events j) = e"
    using j0(2) pos mx0 by (auto simp: invocation_append_def Let_def evict_while_eq split: if_splits prod.splits)
  moreover have "journal_ok journal'" using journal_append_ok [OF ok seq app] by blast
  moreover have "journal_limits journal' = journal_limits journal" by (simp add: j')
  ultimately show ?thesis using that v by blast
qed

text \<open>
  C18: appending is idempotent: an event that was appended is found again, and a second append
  of it reports that it is present and leaves the journal as it is.
\<close>

theorem journal_append_idempotent:
  assumes ok: "journal_ok journal" and seq: "event_sequence e \<noteq> - 1"
    and app: "journal_append journal e = (Inr Appended, journal')"
  shows "journal_append journal' e = (Inr AlreadyPresent, journal')"
proof -
  obtain r j where r: "hm_get (js_runtimes (journal_inner journal')) (event_runtime_id e) = Some r"
    and j: "hm_get (rj_invocations r) (event_invocation_id e) = Some j"
    and e: "ij_events j \<noteq> []" "last (ij_events j) = e" and ok': "journal_ok journal'" "event_schema_version e = 1"
    using journal_append_Appended [OF assms] by metis
  have rok: "rj_ok (journal_limits journal') (event_runtime_id e) r" using journal_ok_runtime [OF ok'(1) r] .
  have pos: "0 < jl_max_events_per_invocation (journal_limits journal')" using ok'(1) by (simp add: journal_ok_def Let_def)
  have "e \<in> set (ij_events j)" using e by (metis last_in_set)
  from invocation_append_again [OF rj_ok_invocation [OF rok j] pos this]
  have "invocation_append j e = (Inr AlreadyPresent, j)" .
  then have "runtime_append r e (jl_max_events_per_invocation (journal_limits journal')) = (Inr AlreadyPresent, r)"
    using j rj_ok_not_evicted [OF rok j] by (simp add: runtime_append_def Let_def hm_insert_same)
  then show ?thesis using r ok'(2) by (simp add: journal_append_def open_runtime_def hm_insert_same)
qed

text \<open>
  C17: what was appended can be read back: a replay of the invocation from the sequence number
  before it returns exactly this event and moves the cursor past it.
\<close>

theorem journal_append_then_replay:
  assumes ok: "journal_ok journal" and seq: "event_sequence e \<noteq> - 1"
    and app: "journal_append journal e = (Inr Appended, journal')"
  shows "journal_replay journal'
      \<lparr>replay_runtime_id = event_runtime_id e, replay_after = [(event_invocation_id e, event_sequence e - 1)],
       replay_only_invocations = Some [event_invocation_id e], replay_limit = 1\<rparr>
    = Inr \<lparr>batch_events = [e], batch_next = [(event_invocation_id e, event_sequence e)], batch_truncated = False\<rparr>"
proof -
  let ?i = "event_invocation_id e" and ?after = "[(event_invocation_id e, event_sequence e - 1)]"
  obtain r j where r: "hm_get (js_runtimes (journal_inner journal')) (event_runtime_id e) = Some r"
    and j: "hm_get (rj_invocations r) ?i = Some j"
    and e: "ij_events j \<noteq> []" "last (ij_events j) = e" and ok': "journal_ok journal'"
    using journal_append_Appended [OF assms] by metis
  have rok: "rj_ok (journal_limits journal') (event_runtime_id e) r" using journal_ok_runtime [OF ok' r] .
  note jok = rj_ok_invocation [OF rok j]
  have max: "0 < jl_max_replay_events (journal_limits journal')" using ok' by (simp add: journal_ok_def Let_def)
  have inj: "filter (\<lambda>(i, _). i \<in> set [?i]) (rj_invocations r) = [(?i, j)]"
    using rok j by (intro filter_key_singleton) (auto simp: rj_ok_def)
  have seqs: "unat (event_sequence (ij_events j ! m)) = Suc (unat (ij_evicted_through j) + m)"
    if "m < length (ij_events j)" for m using ij_ok_sequences [OF jok that] .
  have le: "unat (event_sequence e) = unat (ij_evicted_through j) + length (ij_events j)"
    using seqs [of "length (ij_events j) - 1"] e by (simp add: last_conv_nth)
  have len: "0 < length (ij_events j)" using e(1) by simp
  from le e(1) have dec: "unat (event_sequence e - 1) = unat (event_sequence e) - 1"
    using e(1) by (intro unat_minus_one) auto
  have "filter (\<lambda>x. event_sequence x > event_sequence e - 1) (ij_events j) = [e]"
  proof -
    have "ij_events j = butlast (ij_events j) @ [e]" using e by (metis append_butlast_last_id)
    moreover have "\<not> event_sequence x > event_sequence e - 1" if x: "x \<in> set (butlast (ij_events j))" for x
    proof -
      obtain m where m: "m < length (ij_events j) - 1" "butlast (ij_events j) ! m = x"
        using x by (auto simp: in_set_conv_nth)
      then have "ij_events j ! m = x" by (simp add: nth_butlast)
      with m(1) seqs [of m] le dec show ?thesis by (simp add: word_less_nat_alt)
    qed
    moreover have "event_sequence e > event_sequence e - 1" using dec le e(1) by (simp add: word_less_nat_alt)
    ultimately show ?thesis by (metis (mono_tags, lifting) append_Nil filter.simps filter_append filter_empty_conv filter_False)
  qed
  moreover have "filter (\<lambda>x. event_sequence x > cursor_of ?after (event_invocation_id x)) (ij_events j)
      = filter (\<lambda>x. event_sequence x > event_sequence e - 1) (ij_events j)"
    using jok by (intro filter_cong) (auto simp: cursor_of_def ij_ok_def list_all_iff)
  ultimately have "pending_events r (Some [?i]) ?after = [e]"
    unfolding pending_events_def option.case inj by simp
  moreover have ge: "\<not> event_sequence e - 1 < ij_evicted_through j"
    unfolding word_less_nat_alt dec le using len by linarith
  moreover have "check_cursor r (event_runtime_id e) (?i, event_sequence e - 1) = Inr ()"
    using rj_ok_not_evicted [OF rok j] j ge by (simp add: check_cursor_def)
  ultimately show ?thesis using r max
    by (simp add: journal_replay_def runtime_replay_def advance_cursors_def Let_def)
qed

subsection \<open>Reading a whole history in pages\<close>

text \<open>A reader that asks for the next page until the batch is not truncated.\<close>

fun drain :: "nat \<Rightarrow> InMemoryEventJournal \<Rightarrow> EventReplayRequest \<Rightarrow> (EventJournalError + EventEnvelope list) option" where
  "drain 0 journal request = None"
| "drain (Suc fuel) journal request =
     (case journal_replay journal request of
        Inl e \<Rightarrow> Some (Inl e)
      | Inr batch \<Rightarrow>
          if batch_truncated batch
          then (case drain fuel journal (request\<lparr>replay_after := batch_next batch\<rparr>) of
                  Some (Inr events) \<Rightarrow> Some (Inr (batch_events batch @ events))
                | other \<Rightarrow> other)
          else Some (Inr (batch_events batch)))"

definition cursors_ok :: "RuntimeJournal \<Rightarrow> RuntimeId \<Rightarrow> (InvocationId, u64) btreemap \<Rightarrow> bool" where
  "cursors_ok r rid after \<longleftrightarrow> list_all (\<lambda>p. check_cursor r rid p = Inr ()) after"

lemma set_bt_insert: "(k, v) \<in> set (bt_insert l w m) \<Longrightarrow> (k, v) = (l, w) \<or> (k, v) \<in> set m"
  by (induction l w m rule: bt_insert.induct) (auto split: if_splits)

lemma set_advance:
  "(i, c) \<in> set (advance_cursors after es) \<Longrightarrow>
     (i, c) \<in> set after \<or> (\<exists>e \<in> set es. i = event_invocation_id e \<and> c = event_sequence e)"
proof (induction es rule: rev_induct)
  case Nil
  then show ?case by (simp add: advance_cursors_def)
next
  case (snoc e es)
  then have "(i, c) \<in> set (bt_insert (event_invocation_id e) (event_sequence e) (advance_cursors after es))"
    by (simp add: advance_cursors_def)
  from set_bt_insert [OF this] snoc.IH show ?case by auto
qed

lemma check_cursor_event:
  assumes ok: "rj_ok limits rid r" and ij: "(i, j) \<in> set (rj_invocations r)" and e: "e \<in> set (ij_events j)"
  shows "check_cursor r rid (event_invocation_id e, event_sequence e) = Inr ()"
proof -
  note ev = rj_ok_event [OF ok ij e]
  have get: "hm_get (rj_invocations r) i = Some j" using ok ij by (simp add: rj_ok_def)
  obtain m where "m < length (ij_events j)" "ij_events j ! m = e" using e by (auto simp: in_set_conv_nth)
  then have "ij_evicted_through j \<le> event_sequence e"
    using ij_ok_sequences [OF ev(3)] by (auto simp: word_le_nat_alt)
  then show ?thesis using get ev(1) rj_ok_not_evicted [OF ok get] by (auto simp: check_cursor_def)
qed

lemma cursors_ok_advance:
  assumes ok: "rj_ok limits rid r" and cur: "cursors_ok r rid after" and sub: "set page \<subseteq> set (pending_events r only after)"
  shows "cursors_ok r rid (advance_cursors after page)"
  unfolding cursors_ok_def list_all_iff
proof (intro ballI)
  fix p assume "p \<in> set (advance_cursors after page)"
  then obtain i c where p: "p = (i, c)" "(i, c) \<in> set (advance_cursors after page)" by (metis prod.collapse)
  from set_advance [OF p(2)] show "check_cursor r rid p = Inr ()"
  proof
    assume "(i, c) \<in> set after"
    then show ?thesis using cur p by (auto simp: cursors_ok_def list_all_iff)
  next
    assume "\<exists>e \<in> set page. i = event_invocation_id e \<and> c = event_sequence e"
    then obtain e where e: "e \<in> set page" "i = event_invocation_id e" "c = event_sequence e" by blast
    with sub obtain i' j where "(i', j) \<in> set (rj_invocations r)" "e \<in> set (ij_events j)"
      by (auto simp: set_pending_events)
    from check_cursor_event [OF ok this] e p show ?thesis by simp
  qed
qed

lemma drain_all:
  assumes rid: "hm_get (js_runtimes (journal_inner journal)) (replay_runtime_id request) = Some r"
    and ok: "rj_ok limits (replay_runtime_id request) r" and mono: "times_monotone r"
    and lim: "0 < replay_limit request" "replay_limit request \<le> jl_max_replay_events (journal_limits journal)"
    and cur: "cursors_ok r (replay_runtime_id request) (replay_after request)"
    and fuel: "length (pending_events r (replay_only_invocations request) (replay_after request)) < fuel"
  shows "drain fuel journal request
    = Some (Inr (pending_events r (replay_only_invocations request) (replay_after request)))"
  using rid ok lim cur fuel
proof (induction fuel arbitrary: request)
  case 0
  then show ?case by simp
next
  case (Suc fuel)
  let ?p = "pending_events r (replay_only_invocations request) (replay_after request)"
  let ?n = "replay_limit request" and ?mx = "jl_max_replay_events (journal_limits journal)"
  let ?next = "advance_cursors (replay_after request) (take ?n ?p)"
  let ?req = "request\<lparr>replay_after := ?next\<rparr>"
  have "try_each (check_cursor r (replay_runtime_id request)) (replay_after request) = Inr ()"
    using Suc.prems(5) by (simp add: result_simps cursors_ok_def list_all_iff)
  then have replay: "journal_replay journal request =
      Inr \<lparr>batch_events = take ?n ?p, batch_next = ?next, batch_truncated = ?n < length ?p\<rparr>"
    using Suc.prems(1,3,4) by (simp add: journal_replay_def runtime_replay_def Let_def min_absorb1)
  show ?case
  proof (cases "?n < length ?p")
    case False
    then show ?thesis by (simp add: replay)
  next
    case True
    have rest: "pending_events r (replay_only_invocations request) ?next = drop ?n ?p"
      by (rule pending_events_advance [OF Suc.prems(2) mono])
    have "cursors_ok r (replay_runtime_id request) ?next"
      using Suc.prems(2,5) set_take_subset by (rule cursors_ok_advance)
    moreover have "length (drop ?n ?p) < fuel" using True Suc.prems(3,6) by simp
    ultimately have "drain fuel journal ?req = Some (Inr (drop ?n ?p))"
      using Suc.IH [of ?req] Suc.prems(1-4) by (simp add: rest)
    then show ?thesis using True by (simp add: replay)
  qed
qed

text \<open>
  C15: while the recorded times of each invocation do not run backwards, reading page by page
  with any admissible page size ends after finitely many pages and yields every retained event
  of the selected invocations after the given cursors, once, in the order of each invocation.
\<close>

theorem journal_drain_complete:
  assumes "journal_ok journal"
    and "hm_get (js_runtimes (journal_inner journal)) (replay_runtime_id request) = Some r"
    and "times_monotone r"
    and "0 < replay_limit request" "replay_limit request \<le> jl_max_replay_events (journal_limits journal)"
    and "cursors_ok r (replay_runtime_id request) (replay_after request)"
    and "length (pending_events r (replay_only_invocations request) (replay_after request)) < fuel"
  shows "\<exists>events. drain fuel journal request = Some (Inr events)
    \<and> distinct events \<and> sorted_wrt in_sequence events
    \<and> set events = {e. \<exists>(i, j) \<in> set (rj_invocations r). selected (replay_only_invocations request) i
         \<and> e \<in> set (ij_events j) \<and> event_sequence e > cursor_of (replay_after request) (event_invocation_id e)}"
proof -
  have ok: "rj_ok (journal_limits journal) (replay_runtime_id request) r"
    using assms(1,2) by (rule journal_ok_runtime)
  from drain_all [OF assms(2) ok assms(3-7)] distinct_pending_events [OF ok] pending_in_sequence [OF ok assms(3)]
  show ?thesis by (auto simp: set_pending_events)
qed

subsection \<open>Examples\<close>

definition demo_event :: "u64 \<Rightarrow> u64 \<Rightarrow> EventEnvelope" where
  "demo_event sequence time =
     \<lparr>event_schema_version = 1, event_runtime_id = RuntimeId ''r'', event_invocation_id = InvocationId ''i'',
      event_sequence = sequence, event_observed_at_unix_ms = time, event_payload = InvocationStarted Claude\<rparr>"

definition demo_limits :: EventJournalLimits where
  "demo_limits = \<lparr>jl_max_runtimes = 2, jl_max_invocations_per_runtime = 2, jl_max_events_per_invocation = 3,
     jl_max_replay_events = 4\<rparr>"

definition demo_journal :: "(u64 \<times> u64) list \<Rightarrow> InMemoryEventJournal" where
  "demo_journal events =
     foldl journal_apply \<lparr>journal_limits = demo_limits, journal_inner = \<lparr>js_runtimes = [], js_runtime_order = []\<rparr>\<rparr>
       (map (\<lambda>(sequence, time). AppendEvent (demo_event sequence time)) events)"

definition demo_request :: "(InvocationId, u64) btreemap \<Rightarrow> usize \<Rightarrow> EventReplayRequest" where
  "demo_request after limit =
     \<lparr>replay_runtime_id = RuntimeId ''r'', replay_after = after, replay_only_invocations = None, replay_limit = limit\<rparr>"

lemma demo_journal_ok:
  assumes "list_all (\<lambda>(sequence, _). sequence \<noteq> - 1) events"
  shows "journal_ok (demo_journal events)" "journal_limits (demo_journal events) = demo_limits"
proof -
  let ?j = "\<lparr>journal_limits = demo_limits, journal_inner = \<lparr>js_runtimes = [], js_runtime_order = []\<rparr>\<rparr>"
  have "journal_ok ?j" by (simp add: journal_ok_def demo_limits_def)
  moreover have "list_all below_last (map (\<lambda>(sequence, time). AppendEvent (demo_event sequence time)) events)"
    using assms by (auto simp: list_all_iff below_last_def demo_event_def)
  ultimately have "journal_ok (demo_journal events) \<and> journal_limits (demo_journal events) = demo_limits"
    unfolding demo_journal_def using journal_run_ok [of ?j] by simp
  then show "journal_ok (demo_journal events)" "journal_limits (demo_journal events) = demo_limits" by auto
qed

theorem journal_bounded_and_consistent_witness:
  "length (retained_events (demo_journal [(1, 10), (2, 20)])) \<le> 2 * (2 * 3)"
proof -
  have new: "journal_new demo_limits
      = Inr \<lparr>journal_limits = demo_limits, journal_inner = \<lparr>js_runtimes = [], js_runtime_order = []\<rparr>\<rparr>" by code_simp
  have ops: "list_all below_last (map (\<lambda>(sequence, time). AppendEvent (demo_event sequence time)) [(1, 10), (2, 20)])"
    by code_simp
  have e: "event_sequence (demo_event 3 30) \<noteq> - 1" by code_simp
  from journal_bounded_and_consistent [OF new ops e] show ?thesis by (simp add: demo_journal_def demo_limits_def)
qed

theorem journal_append_idempotent_witness:
  "journal_append (demo_journal [(1, 10), (2, 20)]) (demo_event 2 20) = (Inr AlreadyPresent, demo_journal [(1, 10), (2, 20)])"
proof (rule journal_append_idempotent)
  show "journal_ok (demo_journal [(1, 10)])" by (rule demo_journal_ok) code_simp
  show "event_sequence (demo_event 2 20) \<noteq> - 1" by code_simp
  show "journal_append (demo_journal [(1, 10)]) (demo_event 2 20) = (Inr Appended, demo_journal [(1, 10), (2, 20)])"
    by code_simp
qed

theorem journal_append_then_replay_witness:
  "journal_replay (demo_journal [(1, 10), (2, 20)])
     \<lparr>replay_runtime_id = RuntimeId ''r'', replay_after = [(InvocationId ''i'', 1)],
      replay_only_invocations = Some [InvocationId ''i''], replay_limit = 1\<rparr>
   = Inr \<lparr>batch_events = [demo_event 2 20], batch_next = [(InvocationId ''i'', 2)], batch_truncated = False\<rparr>"
proof -
  have ok: "journal_ok (demo_journal [(1, 10)])" by (rule demo_journal_ok) code_simp
  have seq: "event_sequence (demo_event 2 20) \<noteq> - 1" by code_simp
  have app: "journal_append (demo_journal [(1, 10)]) (demo_event 2 20) = (Inr Appended, demo_journal [(1, 10), (2, 20)])"
    by code_simp
  have "demo_event 2 20 = demo_event 2 20 \<and> event_runtime_id (demo_event 2 20) = RuntimeId ''r''
      \<and> event_invocation_id (demo_event 2 20) = InvocationId ''i'' \<and> event_sequence (demo_event 2 20) = 2" by code_simp
  then show ?thesis using journal_append_then_replay [OF ok seq app] by simp
qed

theorem journal_drain_complete_witness:
  "\<exists>events. drain 4 (demo_journal [(1, 10), (2, 20), (3, 20)]) (demo_request [] 1) = Some (Inr events)
     \<and> distinct events \<and> demo_event 2 20 \<in> set events"
proof -
  let ?j = "demo_journal [(1, 10), (2, 20), (3, 20)]" and ?q = "demo_request [] 1"
  define r where "r = the (hm_get (js_runtimes (journal_inner ?j)) (RuntimeId ''r''))"
  have r: "hm_get (js_runtimes (journal_inner ?j)) (replay_runtime_id ?q) = Some r" unfolding r_def by code_simp
  have ok: "journal_ok ?j" by (rule demo_journal_ok) code_simp
  have mono: "times_monotone r" unfolding r_def by code_simp
  have lim: "0 < replay_limit ?q" "replay_limit ?q \<le> jl_max_replay_events (journal_limits ?j)" by code_simp+
  have cur: "cursors_ok r (replay_runtime_id ?q) (replay_after ?q)" by (simp add: cursors_ok_def demo_request_def)
  have fuel: "length (pending_events r (replay_only_invocations ?q) (replay_after ?q)) < 4" unfolding r_def by code_simp
  have mem: "list_ex (\<lambda>(i, j). demo_event 2 20 \<in> set (ij_events j)) (rj_invocations r)" unfolding r_def by code_simp
  from journal_drain_complete [OF ok r mono lim cur fuel] mem show ?thesis
    by (force simp: list_ex_iff demo_request_def cursor_of_def demo_event_def)
qed

text \<open>
  C19: without that condition the order of a page is not the order of the sequence numbers, and
  its cursor can pass an event that was never returned: here the clock stepped back between the
  two events of an invocation, the first page holds the second event only, and the page after
  it is empty although the first event is still retained.
\<close>

theorem replay_skips_event_after_clock_step_back:
  "\<exists>batch. journal_replay (demo_journal [(1, 10), (2, 5)]) (demo_request [] 1) = Inr batch
     \<and> batch_events batch = [demo_event 2 5] \<and> batch_truncated batch
     \<and> journal_replay (demo_journal [(1, 10), (2, 5)]) (demo_request (batch_next batch) 1)
         = Inr \<lparr>batch_events = [], batch_next = batch_next batch, batch_truncated = False\<rparr>
     \<and> demo_event 1 10 \<in> set (retained_events (demo_journal [(1, 10), (2, 5)]))"
proof -
  let ?b = "\<lparr>batch_events = [demo_event 2 5], batch_next = [(InvocationId ''i'', 2)], batch_truncated = True\<rparr>"
  have "journal_replay (demo_journal [(1, 10), (2, 5)]) (demo_request [] 1) = Inr ?b" by code_simp
  moreover have "journal_replay (demo_journal [(1, 10), (2, 5)]) (demo_request [(InvocationId ''i'', 2)] 1)
      = Inr \<lparr>batch_events = [], batch_next = [(InvocationId ''i'', 2)], batch_truncated = False\<rparr>" by code_simp
  moreover have "demo_event 1 10 \<in> set (retained_events (demo_journal [(1, 10), (2, 5)]))" by code_simp
  ultimately show ?thesis by (intro exI [of _ ?b]) simp
qed

end
