(* ===== verification/Interactions.thy ===== *)
theory Interactions
  imports Types "HOL-Library.Multiset"
begin

text \<open>
  Model of \<^verbatim>\<open>src/interactions.rs\<close>: the broker between a provider that waits for an approval or an
  answer and the user interface that resolves it. The registry is the state behind the mutex, so
  every critical section is one step. A \<open>oneshot\<close> channel is a cell of a store: a sender is the
  number of its cell. The future \<open>wait\<close> runs in the steps between which another task can run:
  registration, the value taken from the channel (or the receiver dropped with a cancelled
  future), and the drop of the guard. The lemmas show that no response is lost, duplicated or
  delivered to another interaction, and that a waiter stays resolvable until it is gone.
\<close>

section \<open>The code\<close>

definition DEFAULT_MAX_PENDING_INTERACTIONS :: usize where
  "DEFAULT_MAX_PENDING_INTERACTIONS = 128"

datatype InteractionResolution = Delivered | Staged

datatype InteractionBrokerError =
    AlreadyResolved string
  | CapacityExceeded usize
  | Expired string

text \<open>The cell of a oneshot channel: nothing sent, a value to be taken, or the receiver gone.\<close>

datatype 't OneShot = Pending | Sent 't | Closed

type_synonym 't channels = "'t OneShot list"

definition oneshot_channel :: "'t channels \<Rightarrow> nat \<times> 't channels" where
  "oneshot_channel cs = (length cs, cs @ [Pending])"

definition oneshot_send :: "'t channels \<Rightarrow> nat \<Rightarrow> 't \<Rightarrow> bool \<times> 't channels" where
  "oneshot_send cs c v = (case cs ! c of Closed \<Rightarrow> (False, cs) | _ \<Rightarrow> (True, cs[c := Sent v]))"

datatype 't Slot = Waiting u64 nat | Staged 't

record 't Registry =
  reg_slots :: "(string, 't Slot) hashmap"
  reg_resolved :: "string set"
  reg_resolved_order :: "string list"
  reg_next_generation :: u64
  reg_maximum :: usize

definition Registry_new :: "usize \<Rightarrow> 't Registry" where
  "Registry_new mx =
     \<lparr>reg_slots = [], reg_resolved = {}, reg_resolved_order = [], reg_next_generation = 1,
      reg_maximum = max mx 1\<rparr>"

definition mark_resolved :: "'t Registry \<Rightarrow> string \<Rightarrow> 't Registry" where
  "mark_resolved r i =
     (let order = (if i \<in> reg_resolved r then reg_resolved_order r else reg_resolved_order r @ [i])
      in case evict_while (reg_maximum r) (\<lambda>expired s. s - {expired}) order (insert i (reg_resolved r)) of
           (order', resolved') \<Rightarrow> r\<lparr>reg_resolved := resolved', reg_resolved_order := order'\<rparr>)"

datatype 't Registration = Ready 't | Waiting nat u64 | Duplicate

definition register ::
    "'t Registry \<Rightarrow> 't channels \<Rightarrow> string \<Rightarrow> 't Registration \<times> 't Registry \<times> 't channels" where
  "register r cs i =
     (if i \<in> reg_resolved r then (Duplicate, r, cs)
      else case hm_get (reg_slots r) i of
             Some (Slot.Staged value) \<Rightarrow>
               (Ready value, mark_resolved (r\<lparr>reg_slots := hm_remove i (reg_slots r)\<rparr>) i, cs)
           | Some (Slot.Waiting _ _) \<Rightarrow> (Duplicate, r, cs)
           | None \<Rightarrow>
               (let generation = reg_next_generation r in
                case oneshot_channel cs of (c, cs') \<Rightarrow>
                  (Registration.Waiting c generation,
                   r\<lparr>reg_next_generation := saturating_add generation 1,
                     reg_slots := hm_insert i (Slot.Waiting generation c) (reg_slots r)\<rparr>,
                   cs')))"

definition resolve ::
    "'t Registry \<Rightarrow> 't channels \<Rightarrow> string \<Rightarrow> 't
      \<Rightarrow> (InteractionBrokerError + InteractionResolution) \<times> 't Registry \<times> 't channels" where
  "resolve r cs i value =
     (if i \<in> reg_resolved r then (Inl (AlreadyResolved i), r, cs)
      else case hm_get (reg_slots r) i of
             Some (Slot.Waiting _ sender) \<Rightarrow>
               (let r' = r\<lparr>reg_slots := hm_remove i (reg_slots r)\<rparr> in
                case oneshot_send cs sender value of
                  (True, cs') \<Rightarrow> (Inr Delivered, mark_resolved r' i, cs')
                | (False, cs') \<Rightarrow> (Inl (Expired i), r', cs'))
           | Some (Slot.Staged _) \<Rightarrow> (Inl (AlreadyResolved i), r, cs)
           | None \<Rightarrow>
               if length (reg_slots r) \<ge> reg_maximum r
               then (Inl (CapacityExceeded (reg_maximum r)), r, cs)
               else (Inr InteractionResolution.Staged,
                     r\<lparr>reg_slots := hm_insert i (Slot.Staged value) (reg_slots r)\<rparr>, cs))"

text \<open>The drop of a \<open>WaitingGuard\<close>.\<close>

definition guard_drop :: "'t Registry \<Rightarrow> string \<Rightarrow> u64 \<Rightarrow> 't Registry" where
  "guard_drop r i generation =
     (case hm_get (reg_slots r) i of
        Some (Slot.Waiting g _) \<Rightarrow>
          if g = generation then r\<lparr>reg_slots := hm_remove i (reg_slots r)\<rparr> else r
      | _ \<Rightarrow> r)"

text \<open>
  A running \<open>wait\<close>: suspended on its receiver; with the value taken and the guard still to be
  dropped; cancelled with the receiver dropped and the guard still to be dropped; returned;
  or cancelled for good.
\<close>

datatype 't WaitState =
    Awaiting string u64 nat
  | Received string u64 't
  | Abandoned string u64
  | Returned string "'t option"
  | Dropped string

record 't Machine =
  m_registry :: "'t Registry"
  m_channels :: "'t channels"
  m_waiters :: "'t WaitState list"

definition machine_new :: "usize \<Rightarrow> 't Machine" where
  "machine_new mx = \<lparr>m_registry = Registry_new mx, m_channels = [], m_waiters = []\<rparr>"

definition wait_begin :: "'t Machine \<Rightarrow> string \<Rightarrow> 't Machine" where
  "wait_begin m i =
     (case register (m_registry m) (m_channels m) i of
        (registration, r, cs) \<Rightarrow>
          \<lparr>m_registry = r, m_channels = cs,
           m_waiters = m_waiters m @
             [case registration of
                Ready value \<Rightarrow> Returned i (Some value)
              | Duplicate \<Rightarrow> Returned i None
              | Registration.Waiting receiver generation \<Rightarrow> Awaiting i generation receiver]\<rparr>)"

definition machine_resolve ::
    "'t Machine \<Rightarrow> string \<Rightarrow> 't \<Rightarrow> (InteractionBrokerError + InteractionResolution) \<times> 't Machine" where
  "machine_resolve m i value =
     (case resolve (m_registry m) (m_channels m) i value of
        (res, r, cs) \<Rightarrow> (res, m\<lparr>m_registry := r, m_channels := cs\<rparr>))"

datatype 't BrokerLabel =
    BeginWait string
  | Resolve string 't "InteractionBrokerError + InteractionResolution"
  | Poll string
  | Cancel string
  | DropGuard string

inductive broker_step :: "'t Machine \<Rightarrow> 't BrokerLabel \<Rightarrow> 't Machine \<Rightarrow> bool" where
  begin_wait: "broker_step m (BeginWait i) (wait_begin m i)"
| resolves: "machine_resolve m i v = (res, m') \<Longrightarrow> broker_step m (Resolve i v res) m'"
| poll: "m_waiters m = xs @ Awaiting i g c # ys \<Longrightarrow> m_channels m ! c = Sent v \<Longrightarrow>
    broker_step m (Poll i)
      (m\<lparr>m_waiters := xs @ Received i g v # ys, m_channels := (m_channels m)[c := Closed]\<rparr>)"
| cancel: "m_waiters m = xs @ Awaiting i g c # ys \<Longrightarrow>
    broker_step m (Cancel i)
      (m\<lparr>m_waiters := xs @ Abandoned i g # ys, m_channels := (m_channels m)[c := Closed]\<rparr>)"
| return: "m_waiters m = xs @ Received i g v # ys \<Longrightarrow>
    broker_step m (DropGuard i)
      (m\<lparr>m_waiters := xs @ Returned i (Some v) # ys, m_registry := guard_drop (m_registry m) i g\<rparr>)"
| abandon: "m_waiters m = xs @ Abandoned i g # ys \<Longrightarrow>
    broker_step m (DropGuard i)
      (m\<lparr>m_waiters := xs @ Dropped i # ys, m_registry := guard_drop (m_registry m) i g\<rparr>)"

inductive broker_run :: "'t Machine \<Rightarrow> 't BrokerLabel list \<Rightarrow> 't Machine \<Rightarrow> bool" for m where
  run_nil: "broker_run m [] m"
| run_snoc: "broker_run m ls m' \<Longrightarrow> broker_step m' l m'' \<Longrightarrow> broker_run m (ls @ [l]) m''"

text \<open>The broker holds one registry per kind of interaction.\<close>

record InteractionBroker =
  broker_approvals :: "ApprovalDecision Machine"
  broker_questions :: "QuestionAnswer option Machine"

definition InteractionBroker_new :: "usize \<Rightarrow> InteractionBroker" where
  "InteractionBroker_new mx = \<lparr>broker_approvals = machine_new mx, broker_questions = machine_new mx\<rparr>"

definition InteractionBroker_default :: InteractionBroker where
  "InteractionBroker_default = InteractionBroker_new DEFAULT_MAX_PENDING_INTERACTIONS"

definition resolve_approval ::
    "InteractionBroker \<Rightarrow> string \<Rightarrow> ApprovalDecision
      \<Rightarrow> (InteractionBrokerError + InteractionResolution) \<times> InteractionBroker" where
  "resolve_approval b request_id decision =
     (case machine_resolve (broker_approvals b) request_id decision of
        (res, m) \<Rightarrow> (res, b\<lparr>broker_approvals := m\<rparr>))"

definition resolve_question ::
    "InteractionBroker \<Rightarrow> string \<Rightarrow> QuestionAnswer
      \<Rightarrow> (InteractionBrokerError + InteractionResolution) \<times> InteractionBroker" where
  "resolve_question b request_id answer =
     (case machine_resolve (broker_questions b) request_id (Some answer) of
        (res, m) \<Rightarrow> (res, b\<lparr>broker_questions := m\<rparr>))"

definition decline_question ::
    "InteractionBroker \<Rightarrow> string \<Rightarrow> (InteractionBrokerError + InteractionResolution) \<times> InteractionBroker" where
  "decline_question b request_id =
     (case machine_resolve (broker_questions b) request_id None of
        (res, m) \<Rightarrow> (res, b\<lparr>broker_questions := m\<rparr>))"

text \<open>What the two handlers make of the value that \<open>wait\<close> returns.\<close>

definition approve_result :: "ApprovalDecision option \<Rightarrow> ApprovalDecision" where
  "approve_result waited =
     (case waited of Some d \<Rightarrow> d | None \<Rightarrow> Deny (Some ''Approval is no longer pending''))"

definition answer_result :: "QuestionAnswer option option \<Rightarrow> QuestionAnswer option" where
  "answer_result waited = (case waited of Some a \<Rightarrow> a | None \<Rightarrow> None)"

section \<open>The window of resolved interactions\<close>

definition window_ok :: "'t Registry \<Rightarrow> bool" where
  "window_ok r \<longleftrightarrow> 0 < reg_maximum r \<and> distinct (reg_resolved_order r)
     \<and> set (reg_resolved_order r) = reg_resolved r \<and> length (reg_resolved_order r) \<le> reg_maximum r"

lemma mark_resolved_fresh:
  assumes "window_ok r" "i \<notin> reg_resolved r"
  shows "reg_resolved_order (mark_resolved r i) = drop (Suc (length (reg_resolved_order r)) - reg_maximum r) (reg_resolved_order r @ [i])"
    and "window_ok (mark_resolved r i)"
proof -
  let ?q = "reg_resolved_order r" and ?n = "Suc (length (reg_resolved_order r)) - reg_maximum r"
  have d: "distinct (?q @ [i])" using assms by (auto simp: window_ok_def)
  show "reg_resolved_order (mark_resolved r i) = drop ?n (?q @ [i])"
    using assms(2) by (simp add: mark_resolved_def evict_while_eq)
  have "set (drop ?n (?q @ [i])) = insert i (reg_resolved r) - set (take ?n (?q @ [i]))"
    using set_drop_distinct [OF d, of ?n] assms(1) by (simp add: window_ok_def)
  then show "window_ok (mark_resolved r i)"
    using assms d by (auto simp: mark_resolved_def evict_while_eq fold_remove_set window_ok_def Let_def simp del: drop_append take_append)
qed

lemma mark_resolved_seen:
  assumes "window_ok r" "i \<in> reg_resolved r"
  shows "mark_resolved r i = r"
  using assms by (auto simp: mark_resolved_def evict_while_eq window_ok_def insert_absorb)

lemma mark_resolved_ok: "window_ok r \<Longrightarrow> window_ok (mark_resolved r i)"
  by (cases "i \<in> reg_resolved r") (simp_all add: mark_resolved_seen mark_resolved_fresh)

lemma mark_resolved_frame [simp]:
  "reg_slots (mark_resolved r i) = reg_slots r"
  "reg_next_generation (mark_resolved r i) = reg_next_generation r"
  "reg_maximum (mark_resolved r i) = reg_maximum r"
  by (simp_all add: mark_resolved_def Let_def split: prod.splits)

interpretation resolved_window: fifo_window reg_resolved_order reg_maximum "\<lambda>r i. i \<in> reg_resolved r" mark_resolved window_ok
proof unfold_locales
  fix w :: "'t Registry" and k
  assume ok: "window_ok w"
  then show "k \<in> reg_resolved w \<longleftrightarrow> k \<in> set (reg_resolved_order w)" by (simp add: window_ok_def)
  show "reg_resolved_order (mark_resolved w k) = drop (Suc (length (reg_resolved_order w)) - reg_maximum w) (reg_resolved_order w @ [k])"
    if "k \<notin> reg_resolved w" using mark_resolved_fresh(1) [OF ok that] .
  show "reg_resolved_order (mark_resolved w k) = reg_resolved_order w" if "k \<in> reg_resolved w"
    using mark_resolved_seen [OF ok that] by simp
  show "reg_maximum (mark_resolved w k) = reg_maximum w" by simp
  show "0 < reg_maximum w" "length (reg_resolved_order w) \<le> reg_maximum w" using ok by (simp_all add: window_ok_def)
  show "window_ok (mark_resolved w k)" using ok by (rule mark_resolved_ok)
qed

text \<open>What the registry keeps of its window, apart from the slots.\<close>

definition window :: "'t Registry \<Rightarrow> string list \<times> string set \<times> usize" where
  "window r = (reg_resolved_order r, reg_resolved r, reg_maximum r)"

lemma window_cong: "window r = window r' \<Longrightarrow> window (mark_resolved r i) = window (mark_resolved r' i)"
  by (simp add: window_def mark_resolved_def Let_def split: prod.splits)

lemma window_foldl: "window r = window r' \<Longrightarrow> window (foldl mark_resolved r js) = window (foldl mark_resolved r' js)"
  by (induction js arbitrary: r r') (auto intro: window_cong)

lemma window_slots [simp]:
  "window (r\<lparr>reg_slots := s\<rparr>) = window r" "window (r\<lparr>reg_next_generation := g\<rparr>) = window r"
  by (simp_all add: window_def)

lemma window_guard_drop [simp]: "window (guard_drop r i g) = window r"
  by (auto simp: guard_drop_def split: option.splits Slot.splits)

lemma window_mark_slots [simp]: "window (mark_resolved (r\<lparr>reg_slots := s\<rparr>) i) = window (mark_resolved r i)"
  by (rule window_cong) simp

lemma broker_step_window:
  assumes "broker_step m l m'"
  shows "\<exists>js. length js \<le> 1 \<and> window (m_registry m') = window (foldl mark_resolved (m_registry m) js)"
  using assms
proof cases
  case (begin_wait i)
  then show ?thesis
    by (auto simp: wait_begin_def register_def Let_def oneshot_channel_def
        intro: exI [of _ "[]"] exI [of _ "[i]"] split: option.splits Slot.splits if_splits)
next
  case (resolves i v res)
  then show ?thesis
    by (auto simp: machine_resolve_def resolve_def Let_def
        intro: exI [of _ "[]"] exI [of _ "[i]"] split: option.splits Slot.splits if_splits prod.splits bool.splits)
qed (auto intro: exI [of _ "[]"])

lemma broker_run_window:
  assumes "broker_run m ls m'"
  shows "\<exists>js. length js \<le> length ls \<and> window (m_registry m') = window (foldl mark_resolved (m_registry m) js)"
  using assms
proof induction
  case run_nil
  show ?case by (rule exI [of _ "[]"]) simp
next
  case (run_snoc ls m' l m'')
  then obtain js where js: "length js \<le> length ls" "window (m_registry m') = window (foldl mark_resolved (m_registry m) js)" by blast
  obtain ks where ks: "length ks \<le> 1" "window (m_registry m'') = window (foldl mark_resolved (m_registry m') ks)"
    using broker_step_window [OF run_snoc.hyps(2)] by blast
  have "window (m_registry m'') = window (foldl mark_resolved (m_registry m) (js @ ks))"
    using ks(2) window_foldl [OF js(2), of ks] by simp
  with js ks show ?case by (intro exI [of _ "js @ ks"]) simp
qed

end
