(* ===== verification/BrokerRuns.thy ===== *)
theory BrokerRuns
  imports Interactions
begin

text \<open>
  Properties of the interaction broker over all interleavings of waiters, responses and
  cancellations: an invariant on channels and slots with an account of the values on their way,
  and one on the generations that protect a newer waiter from the guard of an older one.
\<close>

section \<open>Channels, waiters and the values on their way\<close>

fun await_channel :: "'t WaitState \<Rightarrow> nat option" where
  "await_channel (Awaiting i g c) = Some c"
| "await_channel _ = None"

fun obtained :: "'t channels \<Rightarrow> 't WaitState \<Rightarrow> (string \<times> 't) option" where
  "obtained cs (Awaiting i g c) = (case cs ! c of Sent v \<Rightarrow> Some (i, v) | _ \<Rightarrow> None)"
| "obtained cs (Received i g v) = Some (i, v)"
| "obtained cs (Returned i r) = map_option (Pair i) r"
| "obtained cs _ = None"

fun staged_value :: "string \<times> 't Slot \<Rightarrow> (string \<times> 't) option" where
  "staged_value (i, Slot.Staged v) = Some (i, v)"
| "staged_value _ = None"

definition values_in :: "'t Machine \<Rightarrow> (string \<times> 't) multiset" where
  "values_in m = mset (List.map_filter (obtained (m_channels m)) (m_waiters m))
     + mset (List.map_filter staged_value (reg_slots (m_registry m)))"

definition accepted :: "'t BrokerLabel list \<Rightarrow> (string \<times> 't) multiset" where
  "accepted ls = mset (List.map_filter (\<lambda>l. case l of Resolve i v (Inr _) \<Rightarrow> Some (i, v) | _ \<Rightarrow> None) ls)"

definition waits :: "'t Registry \<Rightarrow> string \<Rightarrow> u64 \<Rightarrow> nat \<Rightarrow> bool" where
  "waits r i g c \<longleftrightarrow> hm_get (reg_slots r) i = Some (Slot.Waiting g c)"

definition channels_ok :: "'t Machine \<Rightarrow> bool" where
  "channels_ok m \<longleftrightarrow>
     window_ok (m_registry m) \<and> hm_ok (reg_slots (m_registry m))
     \<and> distinct (List.map_filter await_channel (m_waiters m))
     \<and> (\<forall>i g c. Awaiting i g c \<in> set (m_waiters m) \<longrightarrow> c < length (m_channels m) \<and> m_channels m ! c \<noteq> Closed)
     \<and> (\<forall>i g c. waits (m_registry m) i g c \<longrightarrow> c < length (m_channels m) \<and> (\<forall>v. m_channels m ! c \<noteq> Sent v))
     \<and> (\<forall>i g c i' g'. waits (m_registry m) i g c \<longrightarrow> Awaiting i' g' c \<in> set (m_waiters m) \<longrightarrow> i' = i)
     \<and> (\<forall>i g c i' g'. waits (m_registry m) i g c \<longrightarrow> waits (m_registry m) i' g' c \<longrightarrow> i' = i)"

lemma channels_okI:
  assumes "window_ok (m_registry m)" "hm_ok (reg_slots (m_registry m))" "distinct (List.map_filter await_channel (m_waiters m))"
    and "\<And>i g c. Awaiting i g c \<in> set (m_waiters m) \<Longrightarrow> c < length (m_channels m) \<and> m_channels m ! c \<noteq> Closed"
    and "\<And>i g c. waits (m_registry m) i g c \<Longrightarrow> c < length (m_channels m) \<and> (\<forall>v. m_channels m ! c \<noteq> Sent v)"
    and "\<And>i g c i' g'. waits (m_registry m) i g c \<Longrightarrow> Awaiting i' g' c \<in> set (m_waiters m) \<Longrightarrow> i' = i"
    and "\<And>i g c i' g'. waits (m_registry m) i g c \<Longrightarrow> waits (m_registry m) i' g' c \<Longrightarrow> i' = i"
  shows "channels_ok m"
  using assms unfolding channels_ok_def by blast

lemma channels_okD:
  assumes "channels_ok m"
  shows "window_ok (m_registry m)" "hm_ok (reg_slots (m_registry m))" "distinct (List.map_filter await_channel (m_waiters m))"
    and "Awaiting i g c \<in> set (m_waiters m) \<Longrightarrow> c < length (m_channels m) \<and> m_channels m ! c \<noteq> Closed"
    and "waits (m_registry m) i g c \<Longrightarrow> c < length (m_channels m) \<and> (\<forall>v. m_channels m ! c \<noteq> Sent v)"
    and "waits (m_registry m) i g c \<Longrightarrow> Awaiting i' g' c \<in> set (m_waiters m) \<Longrightarrow> i' = i"
    and "waits (m_registry m) i g c \<Longrightarrow> waits (m_registry m) i' g' c \<Longrightarrow> i' = i"
  using assms unfolding channels_ok_def by blast+

lemma waits_simps [simp]:
  "waits (r\<lparr>reg_slots := hm_remove k (reg_slots r)\<rparr>) i g c \<longleftrightarrow> i \<noteq> k \<and> waits r i g c"
  "waits (r\<lparr>reg_slots := hm_insert k s (reg_slots r)\<rparr>) i g c \<longleftrightarrow> (if i = k then s = Slot.Waiting g c else waits r i g c)"
  "waits (r\<lparr>reg_next_generation := n, reg_slots := hm_insert k s (reg_slots r)\<rparr>) i g c
     \<longleftrightarrow> (if i = k then s = Slot.Waiting g c else waits r i g c)"
  "waits (mark_resolved r k) i g c \<longleftrightarrow> waits r i g c"
  by (auto simp: waits_def delete_conv' update_conv')

lemma waits_guard_drop:
  "waits (guard_drop r k g') i g c \<longleftrightarrow> waits r i g c \<and> (i \<noteq> k \<or> g \<noteq> g')"
  by (auto simp: guard_drop_def waits_def delete_conv' split: option.splits Slot.splits)

lemma map_filter_append: "List.map_filter f (xs @ ys) = List.map_filter f xs @ List.map_filter f ys"
  by (simp add: List.map_filter_def)

lemma mset_map_filter: "mset (List.map_filter f xs) = image_mset (the \<circ> f) (filter_mset (\<lambda>x. f x \<noteq> None) (mset xs))"
  by (simp add: List.map_filter_def)

lemma mset_map_filter_remove:
  assumes "hm_ok m" "hm_get m k = Some v"
  shows "mset (List.map_filter f m) =
    (case f (k, v) of None \<Rightarrow> {#} | Some x \<Rightarrow> {#x#}) + mset (List.map_filter f (hm_remove k m))"
proof -
  have "mset m = add_mset (k, v) (mset (hm_remove k m))"
    using assms
  proof (induction m)
    case (Cons p m)
    then show ?case
      by (cases p) (auto split: if_splits simp: delete_id)
  qed simp
  then show ?thesis by (auto simp: mset_map_filter split: option.splits)
qed

lemma mset_map_filter_insert:
  assumes "hm_get m k = None"
  shows "mset (List.map_filter f (hm_insert k v m)) =
    (case f (k, v) of None \<Rightarrow> {#} | Some x \<Rightarrow> {#x#}) + mset (List.map_filter f m)"
proof -
  have "hm_insert k v m = m @ [(k, v)]" using assms by (induction m) (auto split: if_splits)
  then show ?thesis by (auto simp: mset_map_filter split: option.splits)
qed

lemma await_channelD: "c \<in> set (List.map_filter await_channel ws) \<longleftrightarrow> (\<exists>i g. Awaiting i g c \<in> set ws)"
proof -
  have "await_channel w = Some c \<longleftrightarrow> (\<exists>i g. w = Awaiting i g c)" for w :: "'a WaitState" by (cases w) auto
  then show ?thesis by (auto simp: List.map_filter_def image_iff) force+
qed

lemma obtained_other:
  assumes "c \<notin> set (List.map_filter await_channel ws)"
  shows "List.map_filter (obtained (cs[c := x])) ws = List.map_filter (obtained cs) ws"
proof -
  have "obtained (cs[c := x]) w = obtained cs w" if "w \<in> set ws" for w
  proof (cases w)
    case (Awaiting i g c')
    with that assms have "c' \<noteq> c" unfolding await_channelD by blast
    then show ?thesis by (simp add: Awaiting)
  qed simp_all
  then show ?thesis by (simp add: List.map_filter_def cong: filter_cong map_cong)
qed

lemma obtained_send:
  assumes "distinct (List.map_filter await_channel ws)" "\<forall>i' g'. Awaiting i' g' c \<in> set ws \<longrightarrow> i' = i"
    "c < length cs" "\<forall>v. cs ! c \<noteq> Sent v"
  shows "mset (List.map_filter (obtained (cs[c := Sent v])) ws) \<subseteq># add_mset (i, v) (mset (List.map_filter (obtained cs) ws))"
  using assms(1,2)
proof (induction ws)
  case Nil
  then show ?case by (simp add: List.map_filter_simps)
next
  case (Cons w ws)
  show ?case
  proof (cases "await_channel w = Some c")
    case True
    then obtain i' g where w: "w = Awaiting i' g c" by (cases w) auto
    with Cons.prems have "i' = i" "c \<notin> set (List.map_filter await_channel ws)" by (auto simp: List.map_filter_simps)
    then show ?thesis using assms(3,4) by (auto simp: w List.map_filter_simps obtained_other split: OneShot.splits)
  next
    case False
    then have "obtained (cs[c := Sent v]) w = obtained cs w" by (cases w) auto
    moreover have "distinct (List.map_filter await_channel ws)"
      using Cons.prems(1) by (auto simp: List.map_filter_simps split: option.splits)
    ultimately show ?thesis using Cons by (auto simp: List.map_filter_simps split: option.splits)
  qed
qed

lemmas machine_defs = values_in_def map_filter_append List.map_filter_simps

lemma new_ok: "channels_ok (machine_new mx)" "values_in (machine_new mx) = {#}"
  by (simp_all add: machine_defs machine_new_def Registry_new_def window_ok_def channels_ok_def waits_def)

text \<open>Each step keeps the invariant, and adds at most the value of an accepted response.\<close>

lemma channels_ok_window: "channels_ok m \<Longrightarrow> window_ok (m_registry m)"
  by (simp add: channels_ok_def)

lemma window_ok_slots [simp]: "window_ok (r\<lparr>reg_slots := s\<rparr>) = window_ok r"
  "window_ok (r\<lparr>reg_next_generation := g\<rparr>) = window_ok r"
  by (simp_all add: window_ok_def)

lemma wait_begin_cases:
  obtains (dup) "wait_begin m i = m\<lparr>m_waiters := m_waiters m @ [Returned i None]\<rparr>"
  | (ready) v where "hm_get (reg_slots (m_registry m)) i = Some (Slot.Staged v)"
      "wait_begin m i =
         m\<lparr>m_registry := mark_resolved ((m_registry m)\<lparr>reg_slots := hm_remove i (reg_slots (m_registry m))\<rparr>) i,
           m_waiters := m_waiters m @ [Returned i (Some v)]\<rparr>"
  | (wait) "hm_get (reg_slots (m_registry m)) i = None"
      "wait_begin m i =
         m\<lparr>m_registry := (m_registry m)\<lparr>reg_next_generation := saturating_add (reg_next_generation (m_registry m)) 1,
              reg_slots := hm_insert i (Slot.Waiting (reg_next_generation (m_registry m)) (length (m_channels m)))
                (reg_slots (m_registry m))\<rparr>,
           m_channels := m_channels m @ [Pending],
           m_waiters := m_waiters m @ [Awaiting i (reg_next_generation (m_registry m)) (length (m_channels m))]\<rparr>"
proof (cases "i \<in> reg_resolved (m_registry m)")
  case True
  then show ?thesis by (intro dup) (cases m, simp add: wait_begin_def register_def)
next
  case False
  show ?thesis
  proof (cases "hm_get (reg_slots (m_registry m)) i")
    case None
    with False show ?thesis by (intro wait) (simp_all add: wait_begin_def register_def oneshot_channel_def Let_def)
  next
    case (Some slot)
    show ?thesis
    proof (cases slot)
      case (Waiting g c)
      with Some False show ?thesis by (intro dup) (cases m, simp add: wait_begin_def register_def)
    next
      case (Staged v)
      with Some False show ?thesis by (intro ready) (cases m, simp_all add: wait_begin_def register_def)+
    qed
  qed
qed

lemma wait_begin_ok:
  assumes ok: "channels_ok m"
  shows "channels_ok (wait_begin m i)" "values_in (wait_begin m i) = values_in m"
proof -
  let ?r = "m_registry m" and ?cs = "m_channels m" and ?ws = "m_waiters m"
  have "channels_ok (wait_begin m i) \<and> values_in (wait_begin m i) = values_in m"
  proof (cases rule: wait_begin_cases [of m i])
    case dup
    have "channels_ok (wait_begin m i)" unfolding dup
      by (rule channels_okI) (auto simp: machine_defs channels_okD(1-3) [OF ok] dest: channels_okD(4-7) [OF ok])
    then show ?thesis by (simp add: dup machine_defs)
  next
    case (ready v)
    have "hm_ok (reg_slots ?r)" using ok by (simp add: channels_ok_def)
    from mset_map_filter_remove [OF this ready(1), of staged_value]
    have "values_in (wait_begin m i) = values_in m" by (simp add: ready(2) machine_defs)
    moreover have "channels_ok (wait_begin m i)"
      unfolding ready(2)
      by (rule channels_okI) (auto simp: machine_defs mark_resolved_ok channels_okD(1-3) [OF ok] dest: channels_okD(4-7) [OF ok])
    ultimately show ?thesis by blast
  next
    case wait
    have old: "c < length ?cs" if "Awaiting i' g c \<in> set ?ws" for i' g c
      using ok that unfolding channels_ok_def by blast
    have oldw: "c < length ?cs" if "waits ?r i' g c" for i' g c
      using ok that unfolding channels_ok_def by blast
    have fresh: "length ?cs \<notin> set (List.map_filter await_channel ?ws)" using old by (auto simp: await_channelD)
    have "List.map_filter (obtained (?cs @ [Pending])) ?ws = List.map_filter (obtained ?cs) ?ws"
    proof -
      have "obtained (?cs @ [Pending]) w = obtained ?cs w" if "w \<in> set ?ws" for w
      proof (cases w)
        case (Awaiting i' g c)
        with old that have "c < length ?cs" by blast
        then show ?thesis by (simp add: Awaiting nth_append)
      qed simp_all
      then show ?thesis by (simp add: List.map_filter_def cong: filter_cong map_cong)
    qed
    then have "values_in (wait_begin m i) = values_in m"
      using mset_map_filter_insert [OF wait(1), of staged_value] by (simp add: wait(2) machine_defs)
    moreover have "channels_ok (wait_begin m i)"
      unfolding wait(2) using fresh
      by (intro channels_okI)
        (auto simp: machine_defs nth_append channels_okD(1-3) [OF ok] split: if_splits dest: old oldw channels_okD(4-7) [OF ok])
    ultimately show ?thesis by blast
  qed
  then show "channels_ok (wait_begin m i)" "values_in (wait_begin m i) = values_in m" by blast+
qed

lemma machine_resolve_cases [consumes 1]:
  assumes "machine_resolve m i v = (res, m')"
  obtains (same) "m' = m" "\<exists>e. res = Inl e"
  | (sent) g c where "waits (m_registry m) i g c" "m_channels m ! c \<noteq> Closed"
      "res = Inr Delivered"
      "m' = m\<lparr>m_registry := mark_resolved ((m_registry m)\<lparr>reg_slots := hm_remove i (reg_slots (m_registry m))\<rparr>) i,
              m_channels := (m_channels m)[c := Sent v]\<rparr>"
  | (expired) g c where "waits (m_registry m) i g c" "m_channels m ! c = Closed"
      "res = Inl (Expired i)"
      "m' = m\<lparr>m_registry := (m_registry m)\<lparr>reg_slots := hm_remove i (reg_slots (m_registry m))\<rparr>\<rparr>"
  | (staged) "hm_get (reg_slots (m_registry m)) i = None" "res = Inr InteractionResolution.Staged"
      "length (reg_slots (m_registry m)) < reg_maximum (m_registry m)"
      "m' = m\<lparr>m_registry := (m_registry m)\<lparr>reg_slots := hm_insert i (Slot.Staged v) (reg_slots (m_registry m))\<rparr>\<rparr>"
proof (cases "i \<in> reg_resolved (m_registry m)")
  case True
  then show ?thesis using assms by (intro same) (auto simp: machine_resolve_def resolve_def)
next
  case False
  show ?thesis
  proof (cases "hm_get (reg_slots (m_registry m)) i")
    case None
    show ?thesis
    proof (cases "reg_maximum (m_registry m) \<le> length (reg_slots (m_registry m))")
      case True
      with None False show ?thesis using assms by (intro same) (auto simp: machine_resolve_def resolve_def)
    next
      case room: False
      with None False show ?thesis using assms by (intro staged) (auto simp: machine_resolve_def resolve_def)
    qed
  next
    case (Some slot)
    show ?thesis
    proof (cases slot)
      case (Waiting g c)
      show ?thesis
      proof (cases "m_channels m ! c = Closed")
        case True
        with Some False Waiting show ?thesis using assms
          by (intro expired) (auto simp: machine_resolve_def resolve_def oneshot_send_def Let_def waits_def)
      next
        case live: False
        with Some False Waiting show ?thesis using assms
          by (intro sent) (auto simp: machine_resolve_def resolve_def oneshot_send_def Let_def waits_def split: OneShot.splits)
      qed
    next
      case (Staged w)
      with Some False show ?thesis using assms by (intro same) (auto simp: machine_resolve_def resolve_def)
    qed
  qed
qed

lemma machine_resolve_ok:
  assumes ok: "channels_ok m" and res: "machine_resolve m i v = (res, m')"
  shows "channels_ok m'" "values_in m' \<subseteq># accepted [Resolve i v res] + values_in m"
proof -
  let ?r = "m_registry m" and ?cs = "m_channels m" and ?ws = "m_waiters m"
  let ?gone = "?r\<lparr>reg_slots := hm_remove i (reg_slots ?r)\<rparr>"
  have "channels_ok m' \<and> values_in m' \<subseteq># accepted [Resolve i v res] + values_in m"
    using res
  proof (cases rule: machine_resolve_cases)
    case same
    then show ?thesis using ok by (auto simp: accepted_def List.map_filter_simps)
  next
    case (sent g c)
    have c: "distinct (List.map_filter await_channel ?ws)" "\<forall>i' g'. Awaiting i' g' c \<in> set ?ws \<longrightarrow> i' = i"
        "c < length ?cs" "\<forall>v. ?cs ! c \<noteq> Sent v"
      using ok sent(1) unfolding channels_ok_def by blast+
    have "hm_ok (reg_slots ?r)" using ok by (simp add: channels_ok_def)
    from mset_map_filter_remove [OF this sent(1) [unfolded waits_def], of staged_value]
    have "values_in m' \<subseteq># accepted [Resolve i v res] + values_in m"
      using obtained_send [OF c, of v] by (simp add: sent(3,4) accepted_def machine_defs)
    moreover have "channels_ok m'"
      unfolding sent(4) using c sent(1,2)
      by (intro channels_okI)
        (auto simp: nth_list_update mark_resolved_ok channels_okD(1-3) [OF ok] dest: channels_okD(4-7) [OF ok])
    ultimately show ?thesis by blast
  next
    case (expired g c)
    have "hm_ok (reg_slots ?r)" using ok by (simp add: channels_ok_def)
    from mset_map_filter_remove [OF this expired(1) [unfolded waits_def], of staged_value]
    have "values_in m' \<subseteq># accepted [Resolve i v res] + values_in m"
      by (simp add: expired accepted_def machine_defs)
    moreover have "channels_ok m'" unfolding expired(4)
      by (rule channels_okI) (auto simp: channels_okD(1-3) [OF ok] dest: channels_okD(4-7) [OF ok])
    ultimately show ?thesis by blast
  next
    case staged
    have "values_in m' \<subseteq># accepted [Resolve i v res] + values_in m"
      using mset_map_filter_insert [OF staged(1), of staged_value]
      by (simp add: staged(2,4) accepted_def machine_defs)
    moreover have "channels_ok m'" unfolding staged(4)
      by (rule channels_okI) (auto simp: channels_okD(1-3) [OF ok]split: if_splits dest: channels_okD(4-7) [OF ok])
    ultimately show ?thesis by blast
  qed
  then show "channels_ok m'" "values_in m' \<subseteq># accepted [Resolve i v res] + values_in m" by blast+
qed

lemma guard_drop_frame [simp]:
  "hm_ok (reg_slots r) \<Longrightarrow> hm_ok (reg_slots (guard_drop r i g))"
  "window_ok (guard_drop r i g) = window_ok r"
  "reg_next_generation (guard_drop r i g) = reg_next_generation r"
  by (auto simp: guard_drop_def split: option.splits Slot.splits)

lemma guard_drop_values:
  assumes "hm_ok (reg_slots r)"
  shows "mset (List.map_filter staged_value (reg_slots (guard_drop r i g))) = mset (List.map_filter staged_value (reg_slots r))"
proof (cases "reg_slots (guard_drop r i g) = reg_slots r")
  case False
  then obtain g' c where g: "hm_get (reg_slots r) i = Some (Slot.Waiting g' c)" "reg_slots (guard_drop r i g) = hm_remove i (reg_slots r)"
    by (auto simp: guard_drop_def split: option.splits Slot.splits if_splits)
  from mset_map_filter_remove [OF assms g(1), of staged_value] show ?thesis by (simp add: g(2))
qed simp

text \<open>A waiter that no longer awaits its channel, whose cell is closed.\<close>

lemma close_ok:
  assumes ok: "channels_ok m" and ws: "m_waiters m = xs @ Awaiting i g c # ys" and w: "await_channel w = None"
  shows "channels_ok (m\<lparr>m_waiters := xs @ w # ys, m_channels := (m_channels m)[c := Closed]\<rparr>)"
    and "List.map_filter (obtained ((m_channels m)[c := Closed])) xs = List.map_filter (obtained (m_channels m)) xs"
    and "List.map_filter (obtained ((m_channels m)[c := Closed])) ys = List.map_filter (obtained (m_channels m)) ys"
proof -
  have c: "c \<notin> set (List.map_filter await_channel (xs @ ys))" "c < length (m_channels m)"
    using ok by (auto simp: machine_defs ws channels_ok_def)
  show "List.map_filter (obtained ((m_channels m)[c := Closed])) xs = List.map_filter (obtained (m_channels m)) xs"
    "List.map_filter (obtained ((m_channels m)[c := Closed])) ys = List.map_filter (obtained (m_channels m)) ys"
    using c(1) by (auto simp: map_filter_append intro: obtained_other)
  have sub: "Awaiting i' g' c' \<in> set (m_waiters m) \<and> c' \<noteq> c" if "Awaiting i' g' c' \<in> set (xs @ w # ys)" for i' g' c'
    using that w c(1) ws by (auto simp: await_channelD)
  have d: "distinct (List.map_filter await_channel (xs @ w # ys))"
    using ok w by (simp add: machine_defs ws channels_ok_def)
  show "channels_ok (m\<lparr>m_waiters := xs @ w # ys, m_channels := (m_channels m)[c := Closed]\<rparr>)"
    using d sub c(2)
    by (intro channels_okI)
      (auto simp: nth_list_update channels_okD(1-3) [OF ok] dest: channels_okD(4-7) [OF ok])
qed

lemma guard_ok:
  assumes ok: "channels_ok m" and ws: "m_waiters m = xs @ w # ys" and w: "await_channel w = None" "await_channel w' = None"
  shows "channels_ok (m\<lparr>m_waiters := xs @ w' # ys, m_registry := guard_drop (m_registry m) i g\<rparr>)"
proof -
  have sub: "Awaiting i' g' c' \<in> set (m_waiters m)" if "Awaiting i' g' c' \<in> set (xs @ w' # ys)" for i' g' c'
    using that w(2) ws by auto
  have "distinct (List.map_filter await_channel (xs @ w' # ys))"
    using channels_okD(3) [OF ok] w by (simp add: map_filter_append List.map_filter_simps ws)
  note d = this
  let ?m = "m\<lparr>m_waiters := xs @ w' # ys, m_registry := guard_drop (m_registry m) i g\<rparr>"
  show ?thesis
  proof (rule channels_okI)
    show "window_ok (m_registry ?m)" "hm_ok (reg_slots (m_registry ?m))" "distinct (List.map_filter await_channel (m_waiters ?m))"
      using d by (simp_all add: channels_okD(1,2) [OF ok])
  next
    fix i' g' c' assume "Awaiting i' g' c' \<in> set (m_waiters ?m)"
    then have "Awaiting i' g' c' \<in> set (m_waiters m)" using sub by simp
    from channels_okD(4) [OF ok this] show "c' < length (m_channels ?m) \<and> m_channels ?m ! c' \<noteq> Closed" by simp
  next
    fix i' g' c' assume "waits (m_registry ?m) i' g' c'"
    then have "waits (m_registry m) i' g' c'" by (simp add: waits_guard_drop)
    from channels_okD(5) [OF ok this] show "c' < length (m_channels ?m) \<and> (\<forall>v. m_channels ?m ! c' \<noteq> Sent v)" by simp
  next
    fix i' g' c' i'' g'' assume "waits (m_registry ?m) i' g' c'" "Awaiting i'' g'' c' \<in> set (m_waiters ?m)"
    then have "waits (m_registry m) i' g' c'" "Awaiting i'' g'' c' \<in> set (m_waiters m)"
      using sub by (simp_all add: waits_guard_drop)
    then show "i'' = i'" by (rule channels_okD(6) [OF ok])
  next
    fix i' g' c' i'' g'' assume "waits (m_registry ?m) i' g' c'" "waits (m_registry ?m) i'' g'' c'"
    then have "waits (m_registry m) i' g' c'" "waits (m_registry m) i'' g'' c'" by (simp_all add: waits_guard_drop)
    then show "i'' = i'" by (rule channels_okD(7) [OF ok])
  qed
qed

text \<open>Every step keeps the invariant; only an accepted response adds a value.\<close>

lemma broker_step_ok:
  assumes ok: "channels_ok m" and step: "broker_step m l m'"
  shows "channels_ok m' \<and> values_in m' \<subseteq># accepted [l] + values_in m"
  using step
proof cases
  case (begin_wait i)
  show ?thesis unfolding begin_wait using wait_begin_ok [OF ok, of i] by (simp add: accepted_def List.map_filter_simps)
next
  case (resolves i v res)
  show ?thesis unfolding resolves(1) using machine_resolve_ok [OF ok resolves(2)] by simp
next
  case (poll xs i g c ys v)
  have "channels_ok m'" unfolding poll(2) by (rule close_ok(1) [OF ok poll(3)]) simp
  moreover have "values_in m' \<subseteq># values_in m"
    using close_ok(2,3) [OF ok poll(3), of "Received i g v"] poll(4) by (simp add: poll(2,3) machine_defs)
  ultimately show ?thesis by (simp add: subset_mset.add_increasing)
next
  case (cancel xs i g c ys)
  have "channels_ok m'" unfolding cancel(2) by (rule close_ok(1) [OF ok cancel(3)]) simp
  moreover have "values_in m' \<subseteq># values_in m"
    using close_ok(2,3) [OF ok cancel(3), of "Abandoned i g"] by (auto simp: cancel(2,3) machine_defs split: OneShot.splits)
  ultimately show ?thesis by (simp add: subset_mset.add_increasing)
next
  case (return xs i g v ys)
  have "channels_ok m'" unfolding return(2) by (rule guard_ok [OF ok return(3)]) simp_all
  moreover have "values_in m' = values_in m"
    using guard_drop_values [OF channels_okD(2) [OF ok]] by (simp add: return(2,3) machine_defs)
  ultimately show ?thesis by (simp add: subset_mset.add_increasing)
next
  case (abandon xs i g ys)
  have "channels_ok m'" unfolding abandon(2) by (rule guard_ok [OF ok abandon(3)]) simp_all
  moreover have "values_in m' = values_in m"
    using guard_drop_values [OF channels_okD(2) [OF ok]] by (simp add: abandon(2,3) machine_defs)
  ultimately show ?thesis by (simp add: subset_mset.add_increasing)
qed

lemma accepted_append: "accepted (ls @ ls') = accepted ls + accepted ls'"
  by (simp add: accepted_def map_filter_append)

lemma broker_run_ok:
  assumes "broker_run (machine_new mx) ls m"
  shows "channels_ok m \<and> values_in m \<subseteq># accepted ls"
  using assms
proof induction
  case run_nil
  show ?case by (simp add: new_ok)
next
  case (run_snoc ls m' l m'')
  have step: "channels_ok m'' \<and> values_in m'' \<subseteq># accepted [l] + values_in m'"
    using run_snoc by (intro broker_step_ok) auto
  have "accepted [l] + values_in m' \<subseteq># accepted [l] + accepted ls" using run_snoc.IH by simp
  with step have "values_in m'' \<subseteq># accepted [l] + accepted ls" by (blast intro: subset_mset.order_trans)
  with step show ?case by (simp only: accepted_append union_commute)
qed

definition returned_values :: "'t Machine \<Rightarrow> (string \<times> 't) multiset" where
  "returned_values m = mset (List.map_filter
     (\<lambda>w. case w of Returned i (Some v) \<Rightarrow> Some (i, v) | _ \<Rightarrow> None) (m_waiters m))"

lemma subseteq_add_mset: "A \<subseteq># B \<Longrightarrow> A \<subseteq># add_mset p B"
  by (auto simp: subseteq_mset_def intro: le_SucI)

lemma returned_values_in: "returned_values m \<subseteq># values_in m"
proof -
  have "mset (List.map_filter (\<lambda>w. case w of Returned i (Some v) \<Rightarrow> Some (i, v) | _ \<Rightarrow> None) ws)
      \<subseteq># mset (List.map_filter (obtained cs) ws)" for cs and ws :: "'a WaitState list"
  proof (induction ws)
    case (Cons w ws)
    then show ?case
      by (cases w) (auto simp: List.map_filter_simps split: option.splits OneShot.splits intro: subseteq_add_mset)
  qed (simp add: List.map_filter_simps)
  from this show ?thesis unfolding returned_values_def values_in_def
    by (rule subset_mset.order_trans [OF _ mset_subset_eq_add_left])
qed

section \<open>A waiter stays resolvable\<close>

fun live_generation :: "'t WaitState \<Rightarrow> u64 option" where
  "live_generation (Awaiting i g c) = Some g"
| "live_generation (Received i g v) = Some g"
| "live_generation (Abandoned i g) = Some g"
| "live_generation _ = None"

abbreviation live_generations :: "'t WaitState list \<Rightarrow> u64 list" where
  "live_generations ws \<equiv> List.map_filter live_generation ws"

text \<open>
  The generation of a waiter is one more than the number of its channel as long as the counter
  has not reached its end, so a guard removes only the slot of its own waiter.
\<close>

definition generations_ok :: "'t Machine \<Rightarrow> bool" where
  "generations_ok m \<longleftrightarrow>
     unat (reg_next_generation (m_registry m)) = Suc (length (m_channels m))
     \<and> distinct (live_generations (m_waiters m))
     \<and> (\<forall>g \<in> set (live_generations (m_waiters m)). unat g \<le> length (m_channels m))
     \<and> (\<forall>i g c. Awaiting i g c \<in> set (m_waiters m) \<longrightarrow>
          unat g = Suc c \<and> (m_channels m ! c = Pending \<longrightarrow> waits (m_registry m) i g c))
     \<and> (\<forall>i g c. waits (m_registry m) i g c \<longrightarrow> i \<notin> reg_resolved (m_registry m))"

lemma generations_okI:
  assumes "unat (reg_next_generation (m_registry m)) = Suc (length (m_channels m))"
    "distinct (live_generations (m_waiters m))"
    "\<And>g. g \<in> set (live_generations (m_waiters m)) \<Longrightarrow> unat g \<le> length (m_channels m)"
    "\<And>i g c. Awaiting i g c \<in> set (m_waiters m) \<Longrightarrow> unat g = Suc c"
    "\<And>i g c. Awaiting i g c \<in> set (m_waiters m) \<Longrightarrow> m_channels m ! c = Pending \<Longrightarrow> waits (m_registry m) i g c"
    "\<And>i g c. waits (m_registry m) i g c \<Longrightarrow> i \<notin> reg_resolved (m_registry m)"
  shows "generations_ok m"
  using assms unfolding generations_ok_def by blast

lemma generations_okD:
  assumes "generations_ok m"
  shows "unat (reg_next_generation (m_registry m)) = Suc (length (m_channels m))"
    "distinct (live_generations (m_waiters m))"
    "g \<in> set (live_generations (m_waiters m)) \<Longrightarrow> unat g \<le> length (m_channels m)"
    "Awaiting i g c \<in> set (m_waiters m) \<Longrightarrow> unat g = Suc c"
    "Awaiting i g c \<in> set (m_waiters m) \<Longrightarrow> m_channels m ! c = Pending \<Longrightarrow> waits (m_registry m) i g c"
    "waits (m_registry m) i g c \<Longrightarrow> i \<notin> reg_resolved (m_registry m)"
  using assms unfolding generations_ok_def by blast+

lemma waits_unique: "waits r i g c \<Longrightarrow> waits r i g' c' \<Longrightarrow> g' = g \<and> c' = c"
  by (simp add: waits_def)

lemma mark_resolved_subset: "j \<in> reg_resolved (mark_resolved r i) \<Longrightarrow> j = i \<or> j \<in> reg_resolved r"
  by (auto simp: mark_resolved_def evict_while_eq fold_remove_set Let_def)

lemma guard_drop_resolved [simp]: "reg_resolved (guard_drop r i g) = reg_resolved r"
  by (auto simp: guard_drop_def split: option.splits Slot.splits)

lemma awaiting_live: "Awaiting i g c \<in> set ws \<Longrightarrow> g \<in> set (live_generations ws)"
  by (force simp: List.map_filter_def image_iff)

lemma wait_begin_generations:
  assumes ok: "channels_ok m" and gen: "generations_ok m" and bound: "Suc (Suc (length (m_channels m))) < 2 ^ 64"
  shows "generations_ok (wait_begin m i)"
proof (cases "hm_get (reg_slots (m_registry m)) i = None \<and> i \<notin> reg_resolved (m_registry m)")
  case True
  let ?r = "m_registry m" and ?cs = "m_channels m" and ?ws = "m_waiters m"
  let ?g = "reg_next_generation ?r"
  have begun: "wait_begin m i =
      m\<lparr>m_registry := ?r\<lparr>reg_next_generation := saturating_add ?g 1,
           reg_slots := hm_insert i (Slot.Waiting ?g (length ?cs)) (reg_slots ?r)\<rparr>,
        m_channels := ?cs @ [Pending], m_waiters := ?ws @ [Awaiting i ?g (length ?cs)]\<rparr>"
    using True by (simp add: wait_begin_def register_def oneshot_channel_def Let_def)
  have g: "unat ?g = Suc (length ?cs)" using generations_okD(1) [OF gen] .
  have no: "\<not> waits ?r i g' c'" for g' c' using True by (simp add: waits_def)
  show ?thesis unfolding begun
  proof (rule generations_okI, goal_cases)
    case 1
    then show ?case using g bound by (simp add: sat_simps)
  next
    case 2
    have "?g \<notin> set (live_generations ?ws)" using generations_okD(3) [OF gen, of ?g] g by auto
    then show ?case using generations_okD(2) [OF gen] by (simp add: map_filter_append List.map_filter_simps)
  next
    case (3 g')
    then show ?case using generations_okD(3) [OF gen, of g'] g by (auto simp: map_filter_append List.map_filter_simps)
  next
    case (4 i' g' c')
    then show ?case using generations_okD(4) [OF gen, of i' g' c'] g by auto
  next
    case (5 i' g' c')
    show ?case
    proof (cases "Awaiting i' g' c' \<in> set ?ws")
      case True
      then have "?cs ! c' = Pending" using 5(2) channels_okD(4) [OF ok True] by (simp add: nth_append)
      from generations_okD(5) [OF gen True this] have "waits ?r i' g' c'" .
      then show ?thesis using no by auto
    next
      case False
      then show ?thesis using 5(1) by auto
    qed
  next
    case (6 i' g' c')
    then show ?case using True generations_okD(6) [OF gen, of i' g' c'] by (auto split: if_splits)
  qed
next
  case False
  show ?thesis
  proof (cases rule: wait_begin_cases [of m i])
    case dup
    show ?thesis unfolding dup
      by (rule generations_okI)
        (auto simp: map_filter_append List.map_filter_simps generations_okD(1,2) [OF gen]
          dest: generations_okD(3-6) [OF gen])
  next
    case (ready v)
    have no: "\<not> waits (m_registry m) i g' c'" for g' c' using ready(1) by (simp add: waits_def)
    show ?thesis unfolding ready(2)
      by (rule generations_okI)
        (auto simp: map_filter_append List.map_filter_simps generations_okD(1,2) [OF gen] no
          dest!: mark_resolved_subset dest: generations_okD(3-6) [OF gen])
  next
    case wait
    with False have "i \<in> reg_resolved (m_registry m)" by simp
    then have "wait_begin m i = m\<lparr>m_waiters := m_waiters m @ [Returned i None]\<rparr>"
      by (cases m) (simp add: wait_begin_def register_def)
    then show ?thesis using arg_cong [OF wait(2), of "\<lambda>m. length (m_channels m)"] by simp
  qed
qed

lemma machine_resolve_generations:
  assumes ok: "channels_ok m" and gen: "generations_ok m" and res: "machine_resolve m i v = (res, m')"
  shows "generations_ok m'"
  using res
proof (cases rule: machine_resolve_cases)
  case same
  then show ?thesis using gen by simp
next
  case (sent g c)
  let ?r = "m_registry m"
  have keep: "waits ?r i' g' c' \<and> i' \<noteq> i" if "Awaiting i' g' c' \<in> set (m_waiters m)" "(m_channels m)[c := Sent v] ! c' = Pending" for i' g' c'
  proof -
    have c: "c < length (m_channels m)" using channels_okD(5) [OF ok sent(1)] by blast
    with that(2) have "c' \<noteq> c" "m_channels m ! c' = Pending" by (auto simp: nth_list_update split: if_splits)
    then show ?thesis using generations_okD(5) [OF gen that(1)] waits_unique [OF sent(1)] by blast
  qed
  show ?thesis unfolding sent(4)
    by (rule generations_okI)
      (auto simp: generations_okD(1,2) [OF gen] keep dest!: mark_resolved_subset dest: generations_okD(3,4,6) [OF gen])
next
  case (expired g c)
  have keep: "waits (m_registry m) i' g' c' \<and> i' \<noteq> i" if "Awaiting i' g' c' \<in> set (m_waiters m)" "m_channels m ! c' = Pending" for i' g' c'
    using generations_okD(5) [OF gen that] waits_unique [OF expired(1), of g' c'] expired(2) that(2) by auto
  show ?thesis unfolding expired(4)
    by (rule generations_okI)
      (auto simp: generations_okD(1,2) [OF gen] keep dest: generations_okD(3,4,6) [OF gen])
next
  case staged
  have no: "\<not> waits (m_registry m) i g' c'" for g' c' using staged(1) by (simp add: waits_def)
  have keep: "waits (m_registry m) i' g' c' \<and> i' \<noteq> i" if "Awaiting i' g' c' \<in> set (m_waiters m)" "m_channels m ! c' = Pending" for i' g' c'
    using generations_okD(5) [OF gen that] no by auto
  show ?thesis unfolding staged(4)
    by (rule generations_okI)
      (auto simp: generations_okD(1,2) [OF gen] keep split: if_splits dest: generations_okD(3,4,6) [OF gen])
qed

text \<open>A waiter that leaves its channel keeps its generation; the other channels are untouched.\<close>

lemma close_generations:
  assumes ok: "channels_ok m" and gen: "generations_ok m" and ws: "m_waiters m = xs @ Awaiting i g c # ys"
    and w: "await_channel w = None" "live_generation w = Some g"
  shows "generations_ok (m\<lparr>m_waiters := xs @ w # ys, m_channels := (m_channels m)[c := Closed]\<rparr>)"
proof -
  have live: "live_generations (xs @ w # ys) = live_generations (m_waiters m)"
    using w by (simp add: ws map_filter_append List.map_filter_simps)
  have sub: "Awaiting i' g' c' \<in> set (m_waiters m)" if "Awaiting i' g' c' \<in> set (xs @ w # ys)" for i' g' c'
    using that w ws by auto
  have c: "c < length (m_channels m)" using channels_okD(4) [OF ok, of i g c] ws by simp
  have "\<And>c'. (m_channels m)[c := Closed] ! c' = Pending \<Longrightarrow> m_channels m ! c' = Pending"
    using c by (auto simp: nth_list_update split: if_splits)
  then show ?thesis
    using sub generations_okD [OF gen] live by (intro generations_okI) (simp_all, blast)
qed

lemma guard_generations:
  assumes gen: "generations_ok m" and ws: "m_waiters m = xs @ w # ys"
    and w: "live_generation w = Some g" "live_generation w' = None"
  shows "generations_ok (m\<lparr>m_waiters := xs @ w' # ys, m_registry := guard_drop (m_registry m) i g\<rparr>)"
proof -
  have live: "live_generations (m_waiters m) = live_generations xs @ g # live_generations ys"
      "live_generations (xs @ w' # ys) = live_generations xs @ live_generations ys"
    using w by (simp_all add: ws map_filter_append List.map_filter_simps)
  have d: "distinct (live_generations xs @ g # live_generations ys)" using generations_okD(2) [OF gen] by (simp add: live)
  have sub: "Awaiting i' g' c' \<in> set (m_waiters m) \<and> g' \<noteq> g" if "Awaiting i' g' c' \<in> set (xs @ w' # ys)" for i' g' c'
  proof -
    from that w(2) have "Awaiting i' g' c' \<in> set (xs @ ys)" by auto
    then have "g' \<in> set (live_generations xs @ live_generations ys)"
      using awaiting_live [of i' g' c' "xs @ ys"] by (simp add: map_filter_append)
    with d \<open>Awaiting i' g' c' \<in> set (xs @ ys)\<close> show ?thesis by (auto simp: ws)
  qed
  show ?thesis
  proof (rule generations_okI, goal_cases)
    case 1
    then show ?case using generations_okD(1) [OF gen] by simp
  next
    case 2
    then show ?case using d by (simp add: live)
  next
    case (3 g')
    then show ?case using generations_okD(3) [OF gen, of g'] by (simp add: live)
  next
    case (4 i' g' c')
    then show ?case using sub generations_okD(4) [OF gen, of i' g' c'] by simp
  next
    case (5 i' g' c')
    then have "Awaiting i' g' c' \<in> set (m_waiters m) \<and> g' \<noteq> g" using sub by simp
    then show ?case using generations_okD(5) [OF gen, of i' g' c'] 5(2) by (simp add: waits_guard_drop)
  next
    case (6 i' g' c')
    then show ?case using generations_okD(6) [OF gen, of i' g' c'] by (simp add: waits_guard_drop)
  qed
qed

lemma broker_step_generations:
  assumes ok: "channels_ok m" and gen: "generations_ok m" and bound: "Suc (Suc (length (m_channels m))) < 2 ^ 64"
    and step: "broker_step m l m'"
  shows "generations_ok m'"
  using step
proof cases
  case (begin_wait i)
  show ?thesis unfolding begin_wait(2) by (rule wait_begin_generations [OF ok gen bound])
next
  case (resolves i v res)
  show ?thesis by (rule machine_resolve_generations [OF ok gen resolves(2)])
next
  case (poll xs i g c ys v)
  show ?thesis unfolding poll(2) by (rule close_generations [OF ok gen poll(3)]) simp_all
next
  case (cancel xs i g c ys)
  show ?thesis unfolding cancel(2) by (rule close_generations [OF ok gen cancel(3)]) simp_all
next
  case (return xs i g v ys)
  show ?thesis unfolding return(2) by (rule guard_generations [OF gen return(3)]) simp_all
next
  case (abandon xs i g ys)
  show ?thesis unfolding abandon(2) by (rule guard_generations [OF gen abandon(3)]) simp_all
qed

lemma broker_step_channels:
  assumes "broker_step m l m'"
  shows "length (m_channels m') \<le> Suc (length (m_channels m))"
  using assms
proof cases
  case (begin_wait i)
  show ?thesis unfolding begin_wait(2) by (cases rule: wait_begin_cases [of m i]) auto
next
  case (resolves i v res)
  show ?thesis using resolves(2) by (cases rule: machine_resolve_cases) auto
qed auto

lemma broker_run_generations:
  assumes "broker_run (machine_new mx) ls m" "Suc (length ls) < 2 ^ 64"
  shows "generations_ok m \<and> length (m_channels m) \<le> length ls"
  using assms
proof induction
  case run_nil
  show ?case by (simp add: machine_new_def Registry_new_def generations_ok_def waits_def List.map_filter_simps)
next
  case (run_snoc ls m' l m'')
  then have "generations_ok m'" "length (m_channels m') \<le> length ls" by auto
  moreover have "channels_ok m'" using broker_run_ok [OF run_snoc.hyps(1)] by blast
  ultimately show ?case
    using broker_step_generations [OF _ _ _ run_snoc.hyps(2)] broker_step_channels [OF run_snoc.hyps(2)] run_snoc.prems
    by auto
qed

section \<open>The properties\<close>

text \<open>
  C20: in every interleaving of waiters and responses, the values that waiters return are among
  the accepted responses, with their multiplicity: no response reaches another interaction,
  and none is delivered twice.
\<close>

theorem responses_delivered_at_most_once:
  assumes "broker_run (machine_new mx) ls m"
  shows "returned_values m \<subseteq># accepted ls"
  using broker_run_ok [OF assms] returned_values_in [of m] by (blast intro: subset_mset.order_trans)

text \<open>
  C21: a waiter is never stuck: as long as it awaits its channel, either its value is already
  there or a response to its interaction is accepted and reaches exactly this channel, whatever
  other waiters came, were answered or were cancelled before.
\<close>

theorem waiter_stays_resolvable:
  assumes run: "broker_run (machine_new mx) ls m" "Suc (length ls) < 2 ^ 64"
    and w: "Awaiting i g c \<in> set (m_waiters m)"
  shows "(\<exists>v. m_channels m ! c = Sent v)
    \<or> (case machine_resolve m i v of (res, m') \<Rightarrow> res = Inr Delivered \<and> m_channels m' ! c = Sent v)"
proof (cases "m_channels m ! c")
  case Pending
  have gen: "generations_ok m" using broker_run_generations [OF run] by blast
  have ok: "channels_ok m" using broker_run_ok [OF run(1)] by blast
  have waits: "waits (m_registry m) i g c" using generations_okD(5) [OF gen w Pending] .
  have "i \<notin> reg_resolved (m_registry m)" using generations_okD(6) [OF gen waits] .
  moreover have "c < length (m_channels m)" using channels_okD(4) [OF ok w] by blast
  ultimately show ?thesis using waits Pending
    by (simp add: machine_resolve_def resolve_def waits_def oneshot_send_def)
next
  case Closed
  then show ?thesis using channels_okD(4) [OF conjunct1 [OF broker_run_ok [OF run(1)]] w] by simp
qed simp

lemma hm_remove_insert: "hm_get m k = None \<Longrightarrow> hm_remove k (hm_insert k v m) = m"
  by (induction m) (auto simp: delete_id split: if_splits)

lemma mark_resolved_fold_maximum: "reg_maximum (foldl mark_resolved r js) = reg_maximum r"
  by (induction js arbitrary: r) simp_all


text \<open>
  C23: the response and the waiter may come in either order: a response that comes first is
  staged and handed to the waiter at once, one that comes second wakes it, and both orders end
  with the waiter holding the value and the same registry of slots and resolved interactions.
\<close>

theorem response_and_waiter_commute:
  assumes ok: "channels_ok m" and fresh: "i \<notin> reg_resolved (m_registry m)" "hm_get (reg_slots (m_registry m)) i = None"
    and room: "length (reg_slots (m_registry m)) < reg_maximum (m_registry m)"
  shows "\<exists>m2. broker_run (snd (machine_resolve (wait_begin m i) i v)) [Poll i, DropGuard i] m2
    \<and> m_waiters m2 = m_waiters m @ [Returned i (Some v)]
    \<and> (case wait_begin (snd (machine_resolve m i v)) i of m1 \<Rightarrow>
         m_waiters m1 = m_waiters m2 \<and> reg_slots (m_registry m1) = reg_slots (m_registry m2)
         \<and> window (m_registry m1) = window (m_registry m2))"
proof -
  let ?r = "m_registry m" and ?cs = "m_channels m" and ?ws = "m_waiters m"
  let ?g = "reg_next_generation ?r" and ?c = "length ?cs"
  let ?r' = "?r\<lparr>reg_next_generation := saturating_add ?g 1, reg_slots := hm_remove i (hm_insert i (Slot.Waiting ?g ?c) (reg_slots ?r))\<rparr>"
  have begun: "snd (machine_resolve (wait_begin m i) i v) =
      \<lparr>m_registry = mark_resolved ?r' i, m_channels = ?cs @ [Sent v], m_waiters = ?ws @ [Awaiting i ?g ?c]\<rparr>"
    using fresh by (simp add: wait_begin_def register_def oneshot_channel_def machine_resolve_def resolve_def
        oneshot_send_def Let_def update_conv')
  let ?m1 = "\<lparr>m_registry = mark_resolved ?r' i, m_channels = ?cs @ [Closed], m_waiters = ?ws @ [Received i ?g v]\<rparr>"
  let ?m2 = "\<lparr>m_registry = guard_drop (mark_resolved ?r' i) i ?g, m_channels = ?cs @ [Closed],
      m_waiters = ?ws @ [Returned i (Some v)]\<rparr>"
  have "broker_step (snd (machine_resolve (wait_begin m i) i v)) (Poll i) ?m1"
    using broker_step.poll [of "snd (machine_resolve (wait_begin m i) i v)" ?ws i ?g ?c "[]" v] by (simp add: begun)
  moreover have "broker_step ?m1 (DropGuard i) ?m2"
    using broker_step.return [of ?m1 ?ws i ?g v "[]"] by simp
  ultimately have run: "broker_run (snd (machine_resolve (wait_begin m i) i v)) [Poll i, DropGuard i] ?m2"
    using broker_run.intros(2) [OF broker_run.intros(2) [OF broker_run.intros(1)]] by fastforce
  note gone = hm_remove_insert [OF fresh(2)]
  have "guard_drop (mark_resolved ?r' i) i ?g = mark_resolved ?r' i"
    using fresh(2) by (simp add: guard_drop_def gone)
  moreover have "wait_begin (snd (machine_resolve m i v)) i =
      \<lparr>m_registry = mark_resolved (?r\<lparr>reg_slots := reg_slots ?r\<rparr>) i, m_channels = ?cs, m_waiters = ?ws @ [Returned i (Some v)]\<rparr>"
    using fresh room by (simp add: wait_begin_def register_def machine_resolve_def resolve_def update_conv' gone)
  moreover have "window (mark_resolved ?r' i) = window (mark_resolved (?r\<lparr>reg_slots := reg_slots ?r\<rparr>) i)"
    by (rule window_cong) (simp add: window_def)
  ultimately show ?thesis using run by (intro exI [of _ ?m2]) (simp add: gone)
qed

subsection \<open>Examples\<close>

definition demo_waiting :: "bool Machine" where
  "demo_waiting = wait_begin (machine_new 4) ''a''"

definition demo_answered :: "bool Machine" where
  "demo_answered = snd (machine_resolve demo_waiting ''a'' True)"

definition demo_returned :: "bool Machine" where
  "demo_returned =
     \<lparr>m_registry = m_registry demo_answered, m_channels = [Closed], m_waiters = [Returned ''a'' (Some True)]\<rparr>"

lemma demo_run_waiting: "broker_run (machine_new 4) [BeginWait ''a''] demo_waiting"
  using broker_run.intros(2) [OF broker_run.intros(1) broker_step.begin_wait, of "machine_new 4" "''a''"]
  by (simp add: demo_waiting_def)

lemma demo_answer: "machine_resolve demo_waiting ''a'' True = (Inr Delivered, demo_answered)"
  by code_simp

lemma demo_run_returned:
  "broker_run (machine_new 4) [BeginWait ''a'', Resolve ''a'' True (Inr Delivered), Poll ''a'', DropGuard ''a''] demo_returned"
proof -
  define r where "r = m_registry demo_answered"
  let ?m = "\<lparr>m_registry = r, m_channels = [Closed], m_waiters = [Received ''a'' 1 True]\<rparr>"
  have eq: "demo_answered = \<lparr>m_registry = r, m_channels = [Sent True], m_waiters = [Awaiting ''a'' 1 0]\<rparr>"
    unfolding r_def by code_simp
  have "broker_step \<lparr>m_registry = r, m_channels = [Sent True], m_waiters = [Awaiting ''a'' 1 0]\<rparr> (Poll ''a'') ?m"
    using broker_step.poll [of "\<lparr>m_registry = r, m_channels = [Sent True], m_waiters = [Awaiting ''a'' 1 0]\<rparr>" "[]" "''a''" 1 0 "[]" True]
    by simp
  then have p: "broker_step demo_answered (Poll ''a'') ?m" by (simp only: eq)
  have "guard_drop r ''a'' 1 = r" unfolding r_def by code_simp
  then have q: "broker_step ?m (DropGuard ''a'') demo_returned"
    using broker_step.return [of ?m "[]" "''a''" 1 True "[]"] by (simp add: demo_returned_def r_def [symmetric])
  show ?thesis
    using broker_run.run_snoc [OF broker_run.run_snoc [OF broker_run.run_snoc [OF demo_run_waiting
        broker_step.resolves [OF demo_answer]] p] q] by simp
qed

theorem responses_delivered_at_most_once_witness:
  "returned_values demo_returned \<subseteq># accepted
     [BeginWait ''a'', Resolve ''a'' True (Inr Delivered), Poll ''a'', DropGuard ''a'']
   \<and> returned_values demo_returned = {#(''a'', True)#}"
proof
  show "returned_values demo_returned \<subseteq># accepted
     [BeginWait ''a'', Resolve ''a'' True (Inr Delivered), Poll ''a'', DropGuard ''a'']"
    by (rule responses_delivered_at_most_once [OF demo_run_returned])
  show "returned_values demo_returned = {#(''a'', True)#}"
    by (simp add: returned_values_def demo_returned_def List.map_filter_simps)
qed

theorem waiter_stays_resolvable_witness:
  "(\<exists>v. m_channels demo_waiting ! 0 = Sent v)
   \<or> (case machine_resolve demo_waiting ''a'' True of (res, m') \<Rightarrow> res = Inr Delivered \<and> m_channels m' ! 0 = Sent True)"
proof (rule waiter_stays_resolvable [OF demo_run_waiting])
  show "Suc (length [BeginWait ''a'' :: bool BrokerLabel]) < 2 ^ 64" by simp
  have "list_ex (\<lambda>w. w = Awaiting ''a'' 1 0) (m_waiters demo_waiting)" by code_simp
  then show "Awaiting ''a'' 1 0 \<in> set (m_waiters demo_waiting)" by (auto simp: list_ex_iff)
qed


theorem response_and_waiter_commute_witness:
  "\<exists>m2. broker_run (snd (machine_resolve (wait_begin (machine_new 4) ''a'') ''a'' True)) [Poll ''a'', DropGuard ''a''] m2
     \<and> m_waiters m2 = [Returned ''a'' (Some True)]"
  using response_and_waiter_commute [OF new_ok(1), of "''a''" 4 True]
  by (auto simp: machine_new_def Registry_new_def)

end
