(* ===== verification/Invocations.thy ===== *)
theory Invocations
  imports Requests
begin

text \<open>
  What a retained runtime does with one invocation (\<^verbatim>\<open>src/retained.rs\<close>): it validates the input,
  builds the provider turn from the runtime's defaults and the input's overrides, and runs it
  behind an event sink that numbers the events, keeps at most one compaction open and closes
  it, and ends with one terminal event. The executor is a parameter: the events it emits and
  the result it returns.
\<close>

section \<open>Validation\<close>

definition MAX_ATTACHMENTS :: usize where "MAX_ATTACHMENTS = 64"
definition MAX_ATTACHMENT_METADATA_BYTES :: usize where "MAX_ATTACHMENT_METADATA_BYTES = 4096"
definition MAX_COMPACTION_INSTRUCTIONS_BYTES :: usize where
  "MAX_COMPACTION_INSTRUCTIONS_BYTES = 16 * 1024"

text \<open>Valid UTF-8, the condition of \<open>Path::to_str\<close>.\<close>

definition byte_in :: "nat \<Rightarrow> nat \<Rightarrow> char \<Rightarrow> bool" where
  "byte_in lo hi c \<longleftrightarrow> lo \<le> (of_char c :: nat) \<and> (of_char c :: nat) \<le> hi"

fun utf8_valid :: "string \<Rightarrow> bool" where
  "utf8_valid [] = True"
| "utf8_valid (a # rest) =
     (if byte_in 0 127 a then utf8_valid rest
      else if byte_in 194 223 a
      then (case rest of b # r \<Rightarrow> byte_in 128 191 b \<and> utf8_valid r | _ \<Rightarrow> False)
      else if byte_in 224 239 a
      then (case rest of
              b # c # r \<Rightarrow>
                byte_in (if byte_in 224 224 a then 160 else 128) (if byte_in 237 237 a then 159 else 191) b
                \<and> byte_in 128 191 c \<and> utf8_valid r
            | _ \<Rightarrow> False)
      else if byte_in 240 244 a
      then (case rest of
              b # c # d # r \<Rightarrow>
                byte_in (if byte_in 240 240 a then 144 else 128) (if byte_in 244 244 a then 143 else 191) b
                \<and> byte_in 128 191 c \<and> byte_in 128 191 d \<and> utf8_valid r
            | _ \<Rightarrow> False)
      else False)"

definition validate_auto_compaction_policy :: "AutoCompactionPolicy \<Rightarrow> string + unit" where
  "validate_auto_compaction_policy policy =
     (case policy of
        TokenThreshold tokens \<Rightarrow>
          if \<not> (100000 \<le> tokens \<and> tokens \<le> 1000000)
          then Inl ''automatic compaction threshold must be between 100000 and 1000000 tokens''
          else Inr ()
      | _ \<Rightarrow> Inr ())"

definition invalid_input :: "RuntimeSpec \<Rightarrow> InvocationId \<Rightarrow> string \<Rightarrow> RuntimeFailure" where
  "invalid_input spec invocation_id text =
     lifecycle_failure (Some (spec_runtime_id spec)) (Some invocation_id)
       RuntimeFailureKind.InvalidRequest RetryAdvice.Never DeliveryState.NotSent text"

definition attachment_check :: "RuntimeSpec \<Rightarrow> InvocationId \<Rightarrow> TurnAttachment \<Rightarrow> RuntimeFailure + unit" where
  "attachment_check spec invocation_id a =
     (if \<not> utf8_valid (tattach_path a)
      then Inl (invalid_input spec invocation_id
             ''attachment paths must be valid UTF-8 for provider prompt delivery'')
      else if tattach_path a = [] \<or> contains_any [NUL, LF, CR] (tattach_path a)
      then Inl (invalid_input spec invocation_id
             ''attachment paths must be non-empty and cannot contain NUL or newlines'')
      else try_each (\<lambda>(field, value).
             case value of
               None \<Rightarrow> Inr ()
             | Some v \<Rightarrow>
                 if length v > MAX_ATTACHMENT_METADATA_BYTES \<or> contains_any [NUL, LF, CR] v
                 then Inl (invalid_input spec invocation_id
                        (''attachment '' @ field @ '' must be at most '' @
                         decimal MAX_ATTACHMENT_METADATA_BYTES @ '' bytes and cannot contain NUL or newlines''))
                 else Inr ())
           [(''display name'', tattach_display_name a), (''media type'', tattach_media_type a)])"

definition validate_input ::
    "RuntimeSpec \<Rightarrow> RuntimeDriverCapabilities \<Rightarrow> TurnInput \<Rightarrow> bool \<Rightarrow> RuntimeFailure + unit" where
  "validate_input spec driver input has_interaction_handler =
     (let err = invalid_input spec (input_invocation_id input) in
      if input_invocation_kind input = Continuation
         \<and> (input_prompt input \<noteq> [] \<or> input_attachments input \<noteq> [])
      then Inl (err ''a continuation submits no prompt or attachments'')
      else if input_invocation_kind input = ManualCompaction \<and> input_attachments input \<noteq> []
      then Inl (err ''manual compaction cannot include attachments'')
      else if input_invocation_kind input = ManualCompaction
         \<and> (length (input_prompt input) > MAX_COMPACTION_INSTRUCTIONS_BYTES + length ''/compact ''
            \<or> NUL \<in> set (input_prompt input))
      then Inl (err (''manual compaction instructions must be at most '' @
             decimal MAX_COMPACTION_INSTRUCTIONS_BYTES @ '' bytes and cannot contain NUL''))
      else if input_auto_compaction input \<noteq> None \<and> \<not> driver_configurable_auto_compaction driver
      then Inl (err (display_provider (spec_provider spec) @
             '' does not support configurable automatic compaction''))
      else and_then
        (case input_auto_compaction input of
           None \<Rightarrow> Inr ()
         | Some policy \<Rightarrow> map_err err (validate_auto_compaction_policy policy))
        (\<lambda>_. if length (input_attachments input) > MAX_ATTACHMENTS
          then Inl (err (''a turn may reference at most '' @ decimal MAX_ATTACHMENTS @ '' attachments''))
          else if input_interaction_policy input = RequireHandler \<and> \<not> has_interaction_handler
          then Inl (err ''this turn requires an interaction handler for approvals and questions'')
          else try_each (attachment_check spec (input_invocation_id input)) (input_attachments input)))"

section \<open>Building the provider turn\<close>

definition is_image :: "TurnAttachment \<Rightarrow> bool" where
  "is_image a =
     (case tattach_media_type a of
        None \<Rightarrow> False
      | Some media_type \<Rightarrow> media_type \<in> {''image/jpeg'', ''image/png'', ''image/gif'', ''image/webp''})"

text \<open>Validated attachment paths are UTF-8, so the lossy conversion of the source returns them unchanged.\<close>

definition describe_attachment :: "TurnAttachment \<Rightarrow> string" where
  "describe_attachment a =
     ''- path: '' @ tattach_path a @
     (case tattach_display_name a of None \<Rightarrow> [] | Some n \<Rightarrow> ''; name: '' @ n) @
     (case tattach_media_type a of None \<Rightarrow> [] | Some m \<Rightarrow> ''; media type: '' @ m) @ [LF]"

definition render_prompt :: "TurnInput \<Rightarrow> bool \<Rightarrow> string" where
  "render_prompt input native_images =
     (let described = filter (\<lambda>a. \<not> (native_images \<and> is_image a)) (input_attachments input)
      in if described = [] then input_prompt input
         else input_prompt input @ [LF, LF] @
           ''Files attached to this request and available on the execution host:'' @ [LF] @
           concat (map describe_attachment described))"

definition opt_or :: "'a option \<Rightarrow> 'a option \<Rightarrow> 'a option" where
  "opt_or a b = (case a of Some _ \<Rightarrow> a | None \<Rightarrow> b)"

definition unwrap_or :: "'a option \<Rightarrow> 'a \<Rightarrow> 'a" where
  "unwrap_or a b = (case a of Some x \<Rightarrow> x | None \<Rightarrow> b)"

definition build_request ::
    "RuntimeSpec \<Rightarrow> RuntimeDriverCapabilities \<Rightarrow> TurnInput \<Rightarrow> string option \<Rightarrow> TurnRequest" where
  "build_request spec driver input provider_session_id =
     \<lparr>req_provider = spec_provider spec,
      req_working_directory = spec_working_directory spec,
      req_prompt = render_prompt input (driver_native_image_attachments driver),
      req_provenance = input_provenance input,
      req_model = opt_or (input_model input) (spec_model spec),
      req_reasoning = opt_or (input_reasoning input) (spec_reasoning spec),
      req_permission_mode = unwrap_or (input_permission_mode input) (spec_permission_mode spec),
      req_harness_options = unwrap_or (input_harness_options input) (spec_harness_options spec),
      req_launch_context = unwrap_or (input_launch_context input) (spec_launch_context spec),
      req_auto_compaction = unwrap_or (input_auto_compaction input) (spec_auto_compaction spec),
      req_session_id = provider_session_id,
      req_max_turns = input_max_turns input,
      req_timeout = unwrap_or (input_timeout input) (spec_turn_timeout spec),
      req_interaction_timeout = unwrap_or (input_interaction_timeout input) (spec_interaction_timeout spec),
      req_tool_process_policy = unwrap_or (input_tool_process_policy input) (spec_tool_process_policy spec),
      req_environment = bt_extend (spec_environment spec) (input_environment input),
      req_attachments = input_attachments input,
      req_sandbox = spec_sandbox spec,
      req_required_sandbox_capabilities = spec_required_sandbox_capabilities spec,
      req_continuation = (input_invocation_kind input = Continuation),
      req_keep_background_work = input_keep_background_work input,
      req_request_session_title = input_request_session_title input\<rparr>"

section \<open>The event sink\<close>

text \<open>
  The environment of an invocation: what the clock reads and whether the receiver of the event
  channel still exists when the event with a given sequence number is sent. Sending waits for
  room in the channel, so the sink keeps the sequence of all envelopes it delivered.
\<close>

record SinkEnvironment =
  env_clock :: "u64 \<Rightarrow> u64"
  env_receiver_alive :: "u64 \<Rightarrow> bool"

record ChannelEventSink =
  sink_provider :: Provider
  sink_runtime_id :: RuntimeId
  sink_invocation_id :: InvocationId
  sink_sequence :: u64
  sink_sent :: "EventEnvelope list"
  sink_announced_session_id :: "string option"
  sink_compaction_open :: "CompactionTrigger option"

definition sink_new :: "Provider \<Rightarrow> RuntimeId \<Rightarrow> InvocationId \<Rightarrow> ChannelEventSink" where
  "sink_new provider runtime_id invocation_id =
     \<lparr>sink_provider = provider, sink_runtime_id = runtime_id, sink_invocation_id = invocation_id,
      sink_sequence = 0, sink_sent = [], sink_announced_session_id = None, sink_compaction_open = None\<rparr>"

definition emit_runtime ::
    "SinkEnvironment \<Rightarrow> ChannelEventSink \<Rightarrow> RuntimeEvent \<Rightarrow> (RuntimeError + unit) \<times> ChannelEventSink" where
  "emit_runtime env sink event =
     (let n = sink_sequence sink + 1;
          envelope = \<lparr>event_schema_version = 1, event_runtime_id = sink_runtime_id sink,
                      event_invocation_id = sink_invocation_id sink, event_sequence = n,
                      event_observed_at_unix_ms = env_clock env n, event_payload = event\<rparr>;
          sink' = sink\<lparr>sink_sequence := n\<rparr>
      in if env_receiver_alive env n
         then (Inr (), sink'\<lparr>sink_sent := sink_sent sink @ [envelope]\<rparr>)
         else (Inl (EventSink (sink_provider sink)
                  ''the retained invocation event receiver was dropped''), sink'))"

definition sink_emit ::
    "SinkEnvironment \<Rightarrow> ChannelEventSink \<Rightarrow> TurnEvent \<Rightarrow> (RuntimeError + unit) \<times> ChannelEventSink" where
  "sink_emit env sink event =
     (case event of
        SessionStarted session_id _ \<Rightarrow>
          emit_runtime env (sink\<lparr>sink_announced_session_id := Some session_id\<rparr>) (ProviderEvent event)
      | CompactionStarted trigger \<Rightarrow>
          if sink_compaction_open sink \<noteq> None then (Inr (), sink)
          else emit_runtime env (sink\<lparr>sink_compaction_open := Some trigger\<rparr>) (ProviderEvent event)
      | CompactionCompleted _ \<Rightarrow>
          emit_runtime env (sink\<lparr>sink_compaction_open := None\<rparr>) (ProviderEvent event)
      | CompactionFailed _ _ \<Rightarrow>
          emit_runtime env (sink\<lparr>sink_compaction_open := None\<rparr>) (ProviderEvent event)
      | _ \<Rightarrow> emit_runtime env sink (ProviderEvent event))"

definition close_open_compaction ::
    "SinkEnvironment \<Rightarrow> ChannelEventSink \<Rightarrow> bool \<Rightarrow> (RuntimeError + unit) \<times> ChannelEventSink" where
  "close_open_compaction env sink succeeded =
     (case sink_compaction_open sink of
        None \<Rightarrow> (Inr (), sink)
      | Some trigger \<Rightarrow>
          emit_runtime env (sink\<lparr>sink_compaction_open := None\<rparr>)
            (ProviderEvent (CompactionFailed trigger (Some
               (if succeeded then ''The provider finished without confirming the compaction.''
                else ''The invocation ended before the compaction finished.'')))))"

text \<open>The executor emits a list of events; an emission error does not stop the model's list.\<close>

definition emit_all :: "SinkEnvironment \<Rightarrow> ChannelEventSink \<Rightarrow> TurnEvent list \<Rightarrow> ChannelEventSink" where
  "emit_all env sink events = foldl (\<lambda>s e. snd (sink_emit env s e)) sink events"

text \<open>
  The task of one invocation, without the updates of the shared runtime state (which are in
  the next theory): it announces the start, runs the executor, and ends with the compaction
  closed and the terminal event. Its value is the final result, the session it leaves behind
  and its sink.
\<close>

definition start_invocation ::
    "SinkEnvironment \<Rightarrow> ChannelEventSink \<Rightarrow> RuntimeInvocationKind \<Rightarrow> (RuntimeError + unit) \<times> ChannelEventSink" where
  "start_invocation env sink kind =
     (case emit_runtime env sink (InvocationStarted (sink_provider sink)) of
        (started, s1) \<Rightarrow>
          (case (started, kind) of
             (Inr _, ManualCompaction) \<Rightarrow> sink_emit env s1 (CompactionStarted Manual)
           | _ \<Rightarrow> (started, s1)))"

definition terminal_of :: "RuntimeFailure + TurnResult \<Rightarrow> RuntimeEvent" where
  "terminal_of result =
     (case result of Inr turn \<Rightarrow> InvocationCompleted turn | Inl failure \<Rightarrow> InvocationFailed failure)"

definition session_of :: "RuntimeFailure + TurnResult \<Rightarrow> ChannelEventSink \<Rightarrow> string option" where
  "session_of result sink =
     opt_or (case result of Inr turn \<Rightarrow> turn_session_id turn | Inl _ \<Rightarrow> None) (sink_announced_session_id sink)"

definition sink_failure :: "ChannelEventSink \<Rightarrow> RuntimeError \<Rightarrow> RuntimeFailure" where
  "sink_failure sink e = runtime_error_to_failure e (sink_runtime_id sink) (sink_invocation_id sink)"

definition finish_invocation ::
    "SinkEnvironment \<Rightarrow> ChannelEventSink \<Rightarrow> RuntimeFailure + TurnResult
      \<Rightarrow> (RuntimeFailure + TurnResult) \<times> ChannelEventSink" where
  "finish_invocation env sink result =
     (case emit_runtime env (snd (close_open_compaction env sink (is_ok result))) (terminal_of result) of
        (Inr _, s) \<Rightarrow> (result, s)
      | (Inl e, s) \<Rightarrow> (if is_ok result then Inl (sink_failure sink e) else result, s))"

definition run_invocation ::
    "SinkEnvironment \<Rightarrow> ChannelEventSink \<Rightarrow> RuntimeInvocationKind \<Rightarrow> TurnEvent list \<Rightarrow> RuntimeError + TurnResult
      \<Rightarrow> (RuntimeFailure + TurnResult) \<times> string option \<times> ChannelEventSink" where
  "run_invocation env sink kind events executed =
     (case start_invocation env sink kind of
        (started, s2) \<Rightarrow>
          (case (case started of
                   Inr _ \<Rightarrow> (map_err (sink_failure sink) executed, emit_all env s2 events)
                 | Inl e \<Rightarrow> (Inl (sink_failure sink e), s2)) of
             (result, s3) \<Rightarrow>
               (case finish_invocation env s3 result of
                  (final, s5) \<Rightarrow> (final, session_of result s3, s5))))"

section \<open>Facts of the sink\<close>

text \<open>A receiver that keeps reading, with an arbitrary clock.\<close>

definition live_receiver :: "(u64 \<Rightarrow> u64) \<Rightarrow> SinkEnvironment" where
  "live_receiver clock = \<lparr>env_clock = clock, env_receiver_alive = \<lambda>_. True\<rparr>"

definition payloads :: "ChannelEventSink \<Rightarrow> RuntimeEvent list" where
  "payloads sink = map event_payload (sink_sent sink)"

definition sink_numbered :: "ChannelEventSink \<Rightarrow> bool" where
  "sink_numbered sink \<longleftrightarrow>
     sink_sequence sink = of_nat (length (sink_sent sink))
     \<and> map event_sequence (sink_sent sink) = map of_nat [1..<Suc (length (sink_sent sink))]
     \<and> list_all (\<lambda>e. event_runtime_id e = sink_runtime_id sink
            \<and> event_invocation_id e = sink_invocation_id sink) (sink_sent sink)"

text \<open>
  Following the compactions of a stream: the trigger that is open after it, or \<open>None\<close> when a
  second start arrived while one was open.
\<close>

fun compaction_after :: "CompactionTrigger option \<Rightarrow> RuntimeEvent list \<Rightarrow> CompactionTrigger option option" where
  "compaction_after opened [] = Some opened"
| "compaction_after opened (event # rest) =
     (case event of
        ProviderEvent (CompactionStarted trigger) \<Rightarrow>
          if opened = None then compaction_after (Some trigger) rest else None
      | ProviderEvent (CompactionCompleted _) \<Rightarrow> compaction_after None rest
      | ProviderEvent (CompactionFailed _ _) \<Rightarrow> compaction_after None rest
      | _ \<Rightarrow> compaction_after opened rest)"

lemma compaction_after_append:
  "compaction_after opened (xs @ ys) =
     (case compaction_after opened xs of None \<Rightarrow> None | Some o' \<Rightarrow> compaction_after o' ys)"
  by (induction opened xs rule: compaction_after.induct)
    (auto split: RuntimeEvent.splits TurnEvent.splits option.splits)

definition sink_ok :: "ChannelEventSink \<Rightarrow> bool" where
  "sink_ok sink \<longleftrightarrow> sink_numbered sink \<and> compaction_after None (payloads sink) = Some (sink_compaction_open sink)"

lemma emit_runtime_live:
  "emit_runtime (live_receiver clock) sink event =
     (Inr (), sink\<lparr>sink_sequence := sink_sequence sink + 1,
        sink_sent := sink_sent sink @
          [\<lparr>event_schema_version = 1, event_runtime_id = sink_runtime_id sink,
            event_invocation_id = sink_invocation_id sink, event_sequence = sink_sequence sink + 1,
            event_observed_at_unix_ms = clock (sink_sequence sink + 1), event_payload = event\<rparr>]\<rparr>)"
  by (simp add: emit_runtime_def live_receiver_def Let_def)

lemma payloads_emit_runtime [simp]:
  "payloads (snd (emit_runtime (live_receiver clock) sink event)) = payloads sink @ [event]"
  by (simp add: emit_runtime_live payloads_def)

lemma sink_numbered_emit:
  "sink_numbered sink \<Longrightarrow> sink_numbered (snd (emit_runtime (live_receiver clock) sink event))"
  by (simp add: sink_numbered_def emit_runtime_live add.commute)

lemma sink_numbered_update [simp]:
  "sink_numbered (sink\<lparr>sink_announced_session_id := a\<rparr>) = sink_numbered sink"
  "sink_numbered (sink\<lparr>sink_compaction_open := c\<rparr>) = sink_numbered sink"
  "payloads (sink\<lparr>sink_announced_session_id := a\<rparr>) = payloads sink"
  "payloads (sink\<lparr>sink_compaction_open := c\<rparr>) = payloads sink"
  by (simp_all add: sink_numbered_def payloads_def)

lemma emit_runtime_keeps [simp]:
  "sink_compaction_open (snd (emit_runtime env sink event)) = sink_compaction_open sink"
  "sink_announced_session_id (snd (emit_runtime env sink event)) = sink_announced_session_id sink"
  "sink_runtime_id (snd (emit_runtime env sink event)) = sink_runtime_id sink"
  "sink_invocation_id (snd (emit_runtime env sink event)) = sink_invocation_id sink"
  by (simp_all add: emit_runtime_def Let_def)

lemma sink_ok_emit_runtime:
  assumes "sink_ok sink" and "compaction_after (sink_compaction_open sink) [event] = Some opened"
  shows "sink_ok ((snd (emit_runtime (live_receiver clock) sink event))\<lparr>sink_compaction_open := opened\<rparr>)"
  using assms by (simp add: sink_ok_def sink_numbered_emit compaction_after_append)

text \<open>What one emission of the executor does to the delivered payloads.\<close>

lemma sink_emit_live:
  assumes "sink_ok sink"
  shows "fst (sink_emit (live_receiver clock) sink event) = Inr ()"
    and "sink_ok (snd (sink_emit (live_receiver clock) sink event))"
    and "payloads (snd (sink_emit (live_receiver clock) sink event)) \<in>
           {payloads sink, payloads sink @ [ProviderEvent event]}"
    and "sink_runtime_id (snd (sink_emit (live_receiver clock) sink event)) = sink_runtime_id sink"
    and "sink_invocation_id (snd (sink_emit (live_receiver clock) sink event)) = sink_invocation_id sink"
  using assms
  by (auto simp: sink_emit_def emit_runtime_live sink_ok_def sink_numbered_def payloads_def
      compaction_after_append add.commute split: TurnEvent.splits)

lemma emit_all_live:
  assumes "sink_ok sink"
  shows "sink_ok (emit_all (live_receiver clock) sink events)
    \<and> sink_runtime_id (emit_all (live_receiver clock) sink events) = sink_runtime_id sink
    \<and> sink_invocation_id (emit_all (live_receiver clock) sink events) = sink_invocation_id sink
    \<and> (\<exists>mid. subseq mid events
         \<and> payloads (emit_all (live_receiver clock) sink events) = payloads sink @ map ProviderEvent mid)"
  using assms
proof (induction events arbitrary: sink)
  case Nil
  then show ?case by (auto simp: emit_all_def)
next
  case (Cons event events)
  let ?s = "snd (sink_emit (live_receiver clock) sink event)"
  note step = sink_emit_live [OF Cons.prems, of clock event]
  obtain mid where mid: "subseq mid events"
    "payloads (emit_all (live_receiver clock) ?s events) = payloads ?s @ map ProviderEvent mid"
    using Cons.IH [OF step(2)] by blast
  have eq: "emit_all (live_receiver clock) sink (event # events) = emit_all (live_receiver clock) ?s events"
    by (simp add: emit_all_def)
  from step(3) have "\<exists>mid'. subseq mid' (event # events)
      \<and> payloads ?s @ map ProviderEvent mid = payloads sink @ map ProviderEvent mid'"
    using mid(1) by (auto intro: exI [of _ mid] exI [of _ "event # mid"])
  with mid(2) Cons.IH [OF step(2)] step(4,5) show ?case by (simp add: eq)
qed

lemma close_open_compaction_live:
  assumes "sink_ok sink"
  shows "sink_ok (snd (close_open_compaction (live_receiver clock) sink ok))
    \<and> sink_compaction_open (snd (close_open_compaction (live_receiver clock) sink ok)) = None
    \<and> sink_runtime_id (snd (close_open_compaction (live_receiver clock) sink ok)) = sink_runtime_id sink
    \<and> sink_invocation_id (snd (close_open_compaction (live_receiver clock) sink ok)) = sink_invocation_id sink
    \<and> (\<exists>close. length close \<le> 1 \<and> payloads (snd (close_open_compaction (live_receiver clock) sink ok))
         = payloads sink @ map ProviderEvent close)"
proof (cases "sink_compaction_open sink")
  case None
  with assms show ?thesis by (auto simp: close_open_compaction_def intro: exI [of _ "[]"])
next
  case (Some trigger)
  with assms show ?thesis
    by (auto simp: close_open_compaction_def emit_runtime_live sink_ok_def sink_numbered_def payloads_def
        compaction_after_append add.commute intro!: exI [of _ "[CompactionFailed trigger _]"])
qed

lemma sink_ok_new: "sink_ok (sink_new p r i)"
  by (simp add: sink_ok_def sink_numbered_def payloads_def sink_new_def)

text \<open>The payloads of a running invocation: the start and then provider events.\<close>

definition running :: "Provider \<Rightarrow> RuntimeId \<Rightarrow> InvocationId \<Rightarrow> ChannelEventSink \<Rightarrow> bool" where
  "running p r i sink \<longleftrightarrow>
     sink_ok sink \<and> sink_runtime_id sink = r \<and> sink_invocation_id sink = i
     \<and> (\<exists>mid. payloads sink = InvocationStarted p # map ProviderEvent mid)"

lemma start_invocation_live:
  "\<exists>s. start_invocation (live_receiver clock) (sink_new p r i) kind = (Inr (), s) \<and> running p r i s"
proof -
  let ?env = "live_receiver clock"
  define s1 where "s1 = snd (emit_runtime ?env (sink_new p r i) (InvocationStarted p))"
  have st: "emit_runtime ?env (sink_new p r i) (InvocationStarted (sink_provider (sink_new p r i))) = (Inr (), s1)"
    by (simp add: s1_def emit_runtime_live sink_new_def)
  have s1: "sink_ok s1" "payloads s1 = [InvocationStarted p]" "sink_runtime_id s1 = r" "sink_invocation_id s1 = i"
    by (simp_all add: s1_def emit_runtime_live sink_new_def sink_ok_def sink_numbered_def payloads_def)
  show ?thesis
  proof (cases "kind = ManualCompaction")
    case True
    note e = sink_emit_live [OF s1(1), of clock "CompactionStarted Manual"]
    obtain s where s: "sink_emit ?env s1 (CompactionStarted Manual) = (Inr (), s)"
      using e(1) by (metis prod.collapse)
    have "\<exists>mid. payloads s = InvocationStarted p # map ProviderEvent mid"
      using e(3) s1(2) by (auto simp: s intro: exI [of _ "[]"] exI [of _ "[CompactionStarted Manual]"])
    then show ?thesis using e s1 by (simp add: start_invocation_def st True s running_def)
  next
    case False
    then show ?thesis
      using s1 by (cases kind) (auto simp: start_invocation_def st running_def)
  qed
qed

lemma emit_all_running: "running p r i sink \<Longrightarrow> running p r i (emit_all (live_receiver clock) sink events)"
  using emit_all_live [of sink clock events] by (auto simp: running_def simp flip: map_append)

lemma finish_invocation_live:
  assumes "running p r i sink"
  shows "\<exists>s. finish_invocation (live_receiver clock) sink result = (result, s)
    \<and> sink_ok s \<and> sink_compaction_open s = None \<and> sink_runtime_id s = r \<and> sink_invocation_id s = i
    \<and> (\<exists>mid. payloads s = InvocationStarted p # map ProviderEvent mid @ [terminal_of result])"
proof -
  let ?c = "snd (close_open_compaction (live_receiver clock) sink (is_ok result))"
  let ?s = "snd (emit_runtime (live_receiver clock) ?c (terminal_of result))"
  have ok: "sink_ok sink" using assms by (simp add: running_def)
  note c = close_open_compaction_live [OF ok, of clock "is_ok result"]
  have "compaction_after (sink_compaction_open ?c) [terminal_of result] = Some None"
    using c by (simp add: terminal_of_def split: sum.splits)
  then have "sink_ok (?s\<lparr>sink_compaction_open := None\<rparr>)" using c sink_ok_emit_runtime by blast
  moreover have "?s\<lparr>sink_compaction_open := None\<rparr> = ?s" using c by simp
  moreover have "\<exists>mid. payloads ?s = InvocationStarted p # map ProviderEvent mid @ [terminal_of result]"
  proof -
    obtain mid where "payloads sink = InvocationStarted p # map ProviderEvent mid"
      using assms by (auto simp: running_def)
    moreover obtain close where "payloads ?c = payloads sink @ map ProviderEvent close" using c by blast
    ultimately have "payloads ?s = InvocationStarted p # map ProviderEvent (mid @ close) @ [terminal_of result]"
      by simp
    then show ?thesis by blast
  qed
  moreover have "finish_invocation (live_receiver clock) sink result = (result, ?s)"
    by (simp add: finish_invocation_def emit_runtime_live)
  ultimately show ?thesis using c assms by (simp add: running_def)
qed

lemma run_invocation_live:
  assumes "run_invocation (live_receiver clock) (sink_new p r i) kind events executed = (result, session, sink)"
  shows "sink_ok sink \<and> sink_compaction_open sink = None \<and> sink_runtime_id sink = r \<and> sink_invocation_id sink = i
    \<and> result = map_err (\<lambda>e. runtime_error_to_failure e r i) executed
    \<and> (\<exists>mid. payloads sink = InvocationStarted p # map ProviderEvent mid @ [terminal_of result])"
proof -
  let ?env = "live_receiver clock" and ?r = "map_err (\<lambda>e. runtime_error_to_failure e r i) executed"
  obtain s where s: "start_invocation ?env (sink_new p r i) kind = (Inr (), s)" "running p r i s"
    using start_invocation_live by blast
  obtain s' where s': "finish_invocation ?env (emit_all ?env s events) ?r = (?r, s')"
    and facts: "sink_ok s' \<and> sink_compaction_open s' = None \<and> sink_runtime_id s' = r \<and> sink_invocation_id s' = i
      \<and> (\<exists>mid. payloads s' = InvocationStarted p # map ProviderEvent mid @ [terminal_of ?r])"
    using finish_invocation_live [OF emit_all_running [OF s(2), of clock events], of clock ?r] by blast
  have "sink_failure (sink_new p r i) = (\<lambda>e. runtime_error_to_failure e r i)"
    by (simp add: fun_eq_iff sink_failure_def sink_new_def)
  with assms s(1) s' have "result = ?r" "sink = s'" by (simp_all add: run_invocation_def)
  with facts show ?thesis by simp
qed

section \<open>Properties\<close>


text \<open>
  C11: in the envelopes of an invocation no compaction starts while another is open, and none is
  left open at the end, whatever the provider reported and however the invocation ended.
\<close>

theorem run_invocation_closes_compactions:
  "case run_invocation (live_receiver clock) (sink_new p r i) kind events executed of
     (result, session, sink) \<Rightarrow> compaction_after None (map event_payload (sink_sent sink)) = Some None"
proof -
  obtain result session sink where
    run: "run_invocation (live_receiver clock) (sink_new p r i) kind events executed = (result, session, sink)"
    by (metis prod_cases3)
  from run_invocation_live [OF this] show ?thesis
    by (simp add: run sink_ok_def payloads_def)
qed
end
