(* ===== verification/Text.thy ===== *)
theory Text
  imports Prelude
begin

text \<open>
  Text operations of the Rust standard library that several components use on UTF-8 strings:
  white space and trimming. A character is the byte string that \<open>chars\<close> yields for it.
\<close>

definition bytes :: "nat list \<Rightarrow> string" where
  "bytes ns = map char_of ns"

text \<open>The characters with the Unicode property \<open>White_Space\<close>, in UTF-8.\<close>

definition whitespace_chars :: "string list" where
  "whitespace_chars =
     map bytes ([[9], [10], [11], [12], [13], [32], [194, 133], [194, 160], [225, 154, 128]]
       @ map (\<lambda>n. [226, 128, n]) [128..<139] @ [[226, 128, 168], [226, 128, 169], [226, 128, 175],
         [226, 129, 159], [227, 128, 128]])"

definition is_whitespace :: "string \<Rightarrow> bool" where
  "is_whitespace c = (c \<in> set whitespace_chars)"

definition trim :: "string \<Rightarrow> string" where
  "trim s = concat (rev (dropWhile is_whitespace (rev (dropWhile is_whitespace (chars s)))))"

lemma trim_empty_iff: "trim s = [] \<longleftrightarrow> list_all is_whitespace (chars s)"
proof -
  have ne: "[] \<notin> set (chars s)"
    by (induction s) (auto split: list.splits)
  have "concat xs = [] \<longleftrightarrow> xs = []" if "set xs \<subseteq> set (chars s)" for xs
    using that ne by (cases xs) auto
  moreover have "set (rev (dropWhile is_whitespace (rev (dropWhile is_whitespace (chars s))))) \<subseteq> set (chars s)"
    by (auto dest!: set_dropWhileD)
  ultimately have "trim s = [] \<longleftrightarrow> rev (dropWhile is_whitespace (rev (dropWhile is_whitespace (chars s)))) = []"
    unfolding trim_def by blast
  also have "\<dots> \<longleftrightarrow> (\<forall>c \<in> set (dropWhile is_whitespace (chars s)). is_whitespace c)"
    by (simp add: dropWhile_eq_Nil_conv)
  also have "\<dots> \<longleftrightarrow> dropWhile is_whitespace (chars s) = []"
  proof
    assume a: "\<forall>c \<in> set (dropWhile is_whitespace (chars s)). is_whitespace c"
    show "dropWhile is_whitespace (chars s) = []"
    proof (rule ccontr)
      assume ne: "dropWhile is_whitespace (chars s) \<noteq> []"
      from hd_dropWhile [OF ne] a hd_in_set [OF ne] show False by blast
    qed
  qed (auto dest: set_dropWhileD)
  also have "\<dots> \<longleftrightarrow> list_all is_whitespace (chars s)"
    by (simp add: dropWhile_eq_Nil_conv list_all_iff)
  finally show ?thesis .
qed

end
