(* ===== verification/Retained.thy ===== *)
theory Retained
  imports Invocations Text
begin

text \<open>
  Model of the retained runtime host of \<^verbatim>\<open>src/retained.rs\<close>: the state of a runtime entry behind its
  mutex, the critical sections of \<open>start_turn\<close>, of the invocation task and of \<open>dispose\<close>, message
  and interrupt handles, and the in-process client with its table of runtimes. An executor is a
  parameter: its capabilities are a function, its asynchronous answers are arguments of the steps.
  The signals a turn shares with its handles live in the record of its task, whose number stands
  for the shared pointer.
\<close>

section \<open>The code\<close>

definition RECENT_INVOCATION_CAPACITY :: usize where "RECENT_INVOCATION_CAPACITY = 1024"

datatype CompletionKind = Finished | Cancelled

definition RUNNING :: u8 where "RUNNING = 0"
definition FINISHED :: u8 where "FINISHED = 1"
definition CANCELLED :: u8 where "CANCELLED = 2"

text \<open>A \<open>CompletionSignal\<close> is its atomic byte.\<close>

definition signal_of :: "CompletionKind \<Rightarrow> u8" where
  "signal_of kind = (case kind of Finished \<Rightarrow> FINISHED | CompletionKind.Cancelled \<Rightarrow> CANCELLED)"

definition is_complete :: "u8 \<Rightarrow> bool" where
  "is_complete signal = (signal \<noteq> RUNNING)"

definition completion_of :: "u8 \<Rightarrow> CompletionKind option" where
  "completion_of signal =
     (if signal = FINISHED then Some Finished
      else if signal = CANCELLED then Some CompletionKind.Cancelled else None)"

record ActiveTurn =
  active_invocation_id :: InvocationId
  active_task :: nat

record EntryState =
  es_status :: RuntimeStatus
  es_provider_session_id :: "string option"
  es_active :: "ActiveTurn option"
  es_detail :: "string option"
  es_recent_invocations :: "InvocationId set"
  es_recent_invocation_order :: "InvocationId list"

record RuntimeEntry =
  entry_spec :: RuntimeSpec
  entry_state :: EntryState
  entry_disposed :: bool

definition RuntimeEntry_new :: "RuntimeSpec \<Rightarrow> RuntimeEntry" where
  "RuntimeEntry_new spec =
     \<lparr>entry_spec = spec,
      entry_state = \<lparr>es_status = RuntimeStatus.Ready, es_provider_session_id = spec_provider_session_id spec,
        es_active = None, es_detail = None, es_recent_invocations = {}, es_recent_invocation_order = []\<rparr>,
      entry_disposed = False\<rparr>"

definition entry_health :: "u64 \<Rightarrow> RuntimeEntry \<Rightarrow> RuntimeHealth" where
  "entry_health now entry =
     \<lparr>health_runtime_id = spec_runtime_id (entry_spec entry), health_status = es_status (entry_state entry),
      health_observed_at_unix_ms = now, health_detail = es_detail (entry_state entry)\<rparr>"

text \<open>
  One invocation task. Its phases are the points between its critical sections: executing; the
  executor returned (with the session it leaves); the session is recorded; released, so that a
  turn admitted by hand-off may run; the entry is updated; the terminal signal is given.
\<close>

datatype TaskPhase =
    Executing
  | ExecutorReturned "RuntimeFailure + TurnResult" "string option"
  | SessionRecorded "RuntimeFailure + TurnResult"
  | Released "RuntimeFailure + TurnResult"
  | EntryUpdated "RuntimeFailure + TurnResult"
  | TaskDone "RuntimeFailure + TurnResult"

record TurnTask =
  task_invocation_id :: InvocationId
  task_request :: TurnRequest
  task_cancellation :: bool
  task_terminal :: u8
  task_released :: u8
  task_phase :: TaskPhase

definition TurnTask_new :: "InvocationId \<Rightarrow> TurnRequest \<Rightarrow> TurnTask" where
  "TurnTask_new invocation_id request =
     \<lparr>task_invocation_id = invocation_id, task_request = request, task_cancellation = False,
      task_terminal = RUNNING, task_released = RUNNING, task_phase = Executing\<rparr>"

subsection \<open>Admission\<close>

definition start_check ::
    "RuntimeDriverCapabilities \<Rightarrow> RuntimeEntry \<Rightarrow> TurnInput \<Rightarrow> bool \<Rightarrow> RuntimeFailure + unit" where
  "start_check driver entry input has_interactions =
     and_then (validate_input (entry_spec entry) driver input has_interactions)
       (\<lambda>_. if entry_disposed entry
            then Inl (lifecycle_failure (Some (spec_runtime_id (entry_spec entry))) (Some (input_invocation_id input))
                   RuntimeFailureKind.RuntimeDisposed RetryAdvice.Never DeliveryState.NotSent
                   ''the retained runtime has been disposed'')
            else Inr ())"

definition remember_invocation :: "EntryState \<Rightarrow> InvocationId \<Rightarrow> EntryState" where
  "remember_invocation s i =
     (case evict_while RECENT_INVOCATION_CAPACITY (\<lambda>expired seen. seen - {expired})
             (es_recent_invocation_order s @ [i]) (insert i (es_recent_invocations s)) of
        (order, seen) \<Rightarrow> s\<lparr>es_recent_invocations := seen, es_recent_invocation_order := order\<rparr>)"

datatype Admission = Rejected RuntimeFailure | AskHandoff nat | Admitted "string option"

text \<open>
  One round of the admission loop: a critical section under the state mutex. The two flags are
  the loop's local variables; \<open>tasks\<close> gives the signals of the active turn, and the new turn gets
  the next task number.
\<close>

definition admit ::
    "RuntimeEntry \<Rightarrow> TurnTask list \<Rightarrow> TurnInput \<Rightarrow> bool \<Rightarrow> bool \<Rightarrow> Admission \<times> RuntimeEntry" where
  "admit entry tasks input handoff_attempted handoff_accepted =
     (let s = entry_state entry;
          rid = spec_runtime_id (entry_spec entry);
          i = input_invocation_id input;
          handed_off = (handoff_accepted \<and>
            (case es_active s of None \<Rightarrow> False | Some a \<Rightarrow> is_complete (task_released (tasks ! active_task a))))
      in if entry_disposed entry
         then (Rejected (lifecycle_failure (Some rid) (Some i) RuntimeFailureKind.RuntimeDisposed RetryAdvice.Never
                 DeliveryState.NotSent ''the retained runtime was disposed before invocation admission''), entry)
         else if i \<in> es_recent_invocations s
         then (Rejected (lifecycle_failure (Some rid) (Some i) RuntimeFailureKind.InvocationAlreadyExists
                 RetryAdvice.Never DeliveryState.Accepted
                 ''the invocation identifier was already accepted by this runtime''), entry)
         else case (if handed_off then None else es_active s) of
                Some a \<Rightarrow>
                  if \<not> handoff_attempted \<and> input_invocation_kind input = Turn
                  then (AskHandoff (active_task a), entry)
                  else (Rejected (lifecycle_failure (Some rid) (Some i) RuntimeFailureKind.RuntimeBusy
                          (RetryAdvice.After 100) DeliveryState.NotSent
                          (''runtime is processing invocation '' @ invocation_id_str (active_invocation_id a))), entry)
              | None \<Rightarrow>
                  if input_invocation_kind input = ManualCompaction \<and> es_provider_session_id s = None
                  then (Rejected (invalid_input (entry_spec entry) i
                          ''manual compaction requires an existing provider session''), entry)
                  else (Admitted (es_provider_session_id s),
                        entry\<lparr>entry_state := remember_invocation
                          (s\<lparr>es_status := RuntimeStatus.Busy, es_detail := None,
                             es_active := Some \<lparr>active_invocation_id = i, active_task = length tasks\<rparr>\<rparr>) i\<rparr>))"

subsection \<open>The invocation task\<close>

definition owns :: "EntryState \<Rightarrow> InvocationId \<Rightarrow> bool" where
  "owns s i = (case es_active s of None \<Rightarrow> False | Some a \<Rightarrow> active_invocation_id a = i)"

definition record_session :: "RuntimeEntry \<Rightarrow> InvocationId \<Rightarrow> string option \<Rightarrow> RuntimeEntry" where
  "record_session entry i session_id =
     (case session_id of
        Some session \<Rightarrow>
          if owns (entry_state entry) i
          then entry\<lparr>entry_state := (entry_state entry)\<lparr>es_provider_session_id := Some session\<rparr>\<rparr> else entry
      | None \<Rightarrow> entry)"

definition completion_kind :: "RuntimeFailure + TurnResult \<Rightarrow> CompletionKind" where
  "completion_kind result =
     (case result of
        Inl failure \<Rightarrow>
          if failure_kind failure = RuntimeFailureKind.Cancelled then CompletionKind.Cancelled else Finished
      | Inr _ \<Rightarrow> Finished)"

definition degrades :: "RuntimeFailure + TurnResult \<Rightarrow> bool" where
  "degrades result =
     (case result of
        Inl failure \<Rightarrow>
          failure_kind failure \<in> {RuntimeFailureKind.Network, RuntimeFailureKind.Transport,
            RuntimeFailureKind.ProviderProcess, RuntimeFailureKind.Indeterminate}
      | Inr _ \<Rightarrow> False)"

definition finish_turn :: "RuntimeEntry \<Rightarrow> InvocationId \<Rightarrow> RuntimeFailure + TurnResult \<Rightarrow> RuntimeEntry" where
  "finish_turn entry i result =
     (let s = entry_state entry in
      if owns s i
      then entry\<lparr>entry_state := s\<lparr>es_active := None,
             es_detail := (case result of Inr _ \<Rightarrow> None | Inl failure \<Rightarrow> Some (failure_message failure)),
             es_status := (if entry_disposed entry then RuntimeStatus.Stopped
                           else if degrades result then RuntimeStatus.Degraded else RuntimeStatus.Ready)\<rparr>\<rparr>
      else entry)"

subsection \<open>Disposal, interruption and messages\<close>

text \<open>The flag is stored before the lock is taken; the critical section follows.\<close>

definition dispose_flag :: "RuntimeEntry \<Rightarrow> RuntimeEntry" where
  "dispose_flag entry = entry\<lparr>entry_disposed := True\<rparr>"

definition dispose_locked :: "RuntimeEntry \<Rightarrow> ActiveTurn option \<times> RuntimeEntry" where
  "dispose_locked entry =
     (let s = entry_state entry in
      case es_active s of
        Some a \<Rightarrow> (Some a, entry\<lparr>entry_state := s\<lparr>es_status := RuntimeStatus.Stopping\<rparr>\<rparr>)
      | None \<Rightarrow> (None, entry\<lparr>entry_state := s\<lparr>es_status := RuntimeStatus.Stopped\<rparr>\<rparr>))"

text \<open>
  What \<open>dispose\<close> returns: the wait for the terminal signal of the active turn may time out, and
  the executor's own cleanup may fail; the first failure wins.
\<close>

definition dispose_result ::
    "RuntimeEntry \<Rightarrow> ActiveTurn option \<Rightarrow> CompletionKind option \<Rightarrow> RuntimeError + unit \<Rightarrow> RuntimeFailure + unit" where
  "dispose_result entry terminal awaited cleanup =
     (let rid = spec_runtime_id (entry_spec entry);
          confirmation = (case terminal of
              Some a \<Rightarrow>
                if awaited = None
                then Inl (lifecycle_failure (Some rid) (Some (active_invocation_id a)) RuntimeFailureKind.Indeterminate
                       RetryAdvice.RequiresUserAction DeliveryState.PossiblySent
                       ''retained provider termination was not confirmed during disposal'')
                else Inr ()
            | None \<Rightarrow> Inr ());
          cleaned = map_err (\<lambda>e. runtime_error_to_failure e rid (InvocationId ''dispose'')) cleanup
      in and_then confirmation (\<lambda>_. cleaned))"

definition interrupt_begin :: "RuntimeEntry \<Rightarrow> TurnTask \<Rightarrow> InterruptOutcome option \<times> TurnTask" where
  "interrupt_begin entry t =
     (if entry_disposed entry then (Some InterruptOutcome.RuntimeDisposed, t)
      else if task_terminal t \<noteq> RUNNING then (Some AlreadyFinished, t)
      else (None, t\<lparr>task_cancellation := True\<rparr>))"

text \<open>\<open>None\<close> is the timeout of the wait.\<close>

definition interrupt_end :: "CompletionKind option \<Rightarrow> InterruptOutcome" where
  "interrupt_end awaited =
     (case awaited of
        Some CompletionKind.Cancelled \<Rightarrow> Interrupted
      | Some Finished \<Rightarrow> AlreadyFinished
      | None \<Rightarrow> Unconfirmed)"

definition turn_running :: "RuntimeEntry \<Rightarrow> TurnTask list \<Rightarrow> InvocationId \<Rightarrow> bool" where
  "turn_running entry tasks i =
     (case es_active (entry_state entry) of
        None \<Rightarrow> False
      | Some a \<Rightarrow> active_invocation_id a = i \<and> \<not> is_complete (task_released (tasks ! active_task a)))"

definition turn_failure ::
    "RuntimeEntry \<Rightarrow> InvocationId \<Rightarrow> RuntimeFailureKind \<Rightarrow> DeliveryState \<Rightarrow> string \<Rightarrow> RuntimeFailure" where
  "turn_failure entry i kind delivery detail =
     lifecycle_failure (Some (spec_runtime_id (entry_spec entry))) (Some i) kind RetryAdvice.Never delivery detail"

definition withdrawn_failure :: "RuntimeEntry \<Rightarrow> InvocationId \<Rightarrow> string \<Rightarrow> RuntimeFailure" where
  "withdrawn_failure entry i detail =
     lifecycle_failure (Some (spec_runtime_id (entry_spec entry))) (Some i) RuntimeFailureKind.Timeout
       (RetryAdvice.After 1000) DeliveryState.NotSent detail"

text \<open>
  \<open>send_identified\<close>: the checks that precede the call of the executor, then the mapping of its
  answer. The state lock is held throughout, so both see the same entry.
\<close>

definition finished_failure :: "RuntimeEntry \<Rightarrow> InvocationId \<Rightarrow> RuntimeFailure" where
  "finished_failure entry i =
     turn_failure entry i RuntimeFailureKind.InvalidRequest DeliveryState.NotSent
       (''invocation '' @ invocation_id_str i @ '' is no longer running; start a new turn instead'')"

definition send_check ::
    "RuntimeDriverCapabilities \<Rightarrow> RuntimeEntry \<Rightarrow> TurnTask list \<Rightarrow> InvocationId \<Rightarrow> string \<Rightarrow> RuntimeFailure + unit" where
  "send_check driver entry tasks i text' =
     (if trim text' = [] \<or> NUL \<in> set text'
      then Inl (turn_failure entry i RuntimeFailureKind.InvalidRequest DeliveryState.NotSent
             ''a message must contain text and cannot contain NUL bytes'')
      else if \<not> driver_live_messages driver
      then Inl (turn_failure entry i RuntimeFailureKind.CapabilityUnavailable DeliveryState.NotSent
             (display_provider (spec_provider (entry_spec entry)) @
              '' on this runtime cannot accept messages while a turn runs''))
      else if entry_disposed entry
      then Inl (turn_failure entry i RuntimeFailureKind.RuntimeDisposed DeliveryState.NotSent
             ''the retained runtime has been disposed'')
      else if \<not> turn_running entry tasks i then Inl (finished_failure entry i)
      else Inr ())"

definition send_delivery ::
    "RuntimeEntry \<Rightarrow> InvocationId \<Rightarrow> RuntimeError + MessageDelivery \<Rightarrow> RuntimeFailure + unit" where
  "send_delivery entry i delivery =
     (case delivery of
        Inr MessageDelivery.Delivered \<Rightarrow> Inr ()
      | Inr NotAccepting \<Rightarrow> Inl (finished_failure entry i)
      | Inr Withdrawn \<Rightarrow> Inl (withdrawn_failure entry i
          (''invocation '' @ invocation_id_str i @ '' did not take the message in time; it was not sent''))
      | Inr MessageDelivery.Unsupported \<Rightarrow> Inl (turn_failure entry i RuntimeFailureKind.CapabilityUnavailable
          DeliveryState.NotSent
          (display_provider (spec_provider (entry_spec entry)) @ '' cannot accept messages while a turn runs''))
      | Inl e \<Rightarrow> Inl (runtime_error_to_failure e (spec_runtime_id (entry_spec entry)) i))"

definition send_identified ::
    "RuntimeDriverCapabilities \<Rightarrow> RuntimeEntry \<Rightarrow> TurnTask list \<Rightarrow> InvocationId \<Rightarrow> string
      \<Rightarrow> RuntimeError + MessageDelivery \<Rightarrow> RuntimeFailure + unit" where
  "send_identified driver entry tasks i text' delivery =
     and_then (send_check driver entry tasks i text') (\<lambda>_. send_delivery entry i delivery)"

definition turn_control ::
    "RuntimeEntry \<Rightarrow> TurnTask list \<Rightarrow> InvocationId \<Rightarrow> RuntimeError + MessageDelivery \<Rightarrow> RuntimeFailure + unit" where
  "turn_control entry tasks i delivery =
     (let ended = turn_failure entry i RuntimeFailureKind.InvalidRequest DeliveryState.NotSent ''This turn has ended'' in
      if entry_disposed entry \<or> \<not> turn_running entry tasks i then Inl ended
      else case delivery of
             Inr MessageDelivery.Delivered \<Rightarrow> Inr ()
           | Inr NotAccepting \<Rightarrow> Inl ended
           | Inr Withdrawn \<Rightarrow> Inl (withdrawn_failure entry i ''The control was not taken in time; it was not sent'')
           | Inr MessageDelivery.Unsupported \<Rightarrow> Inl (turn_failure entry i RuntimeFailureKind.CapabilityUnavailable
               DeliveryState.NotSent ''The current step cannot be released by this runtime'')
           | Inl e \<Rightarrow> Inl (runtime_error_to_failure e (spec_runtime_id (entry_spec entry)) i))"

definition compact_check :: "RuntimeDriverCapabilities \<Rightarrow> RuntimeSpec \<Rightarrow> CompactionInput \<Rightarrow> RuntimeFailure + TurnInput" where
  "compact_check driver spec input =
     (let err = (\<lambda>suffix. lifecycle_failure (Some (spec_runtime_id spec)) (Some (compact_invocation_id input))
                   RuntimeFailureKind.CapabilityUnavailable RetryAdvice.Never DeliveryState.NotSent
                   (display_provider (spec_provider spec) @ suffix))
      in if \<not> driver_manual_compaction driver
         then Inl (err '' does not support provider-native manual compaction'')
         else if compact_instructions input \<noteq> None \<and> \<not> driver_compaction_instructions driver
         then Inl (err '' compacts natively without summary instructions; omit them'')
         else Inr (into_turn_input input))"

text \<open>\<open>TurnCompletion::wait\<close>; \<open>None\<close> is a task that was dropped before it sent its result.\<close>

definition completion_wait ::
    "RuntimeId \<Rightarrow> InvocationId \<Rightarrow> (RuntimeFailure + TurnResult) option \<Rightarrow> RuntimeFailure + TurnResult" where
  "completion_wait rid i received =
     (case received of
        Some result \<Rightarrow> result
      | None \<Rightarrow> Inl (lifecycle_failure (Some rid) (Some i) RuntimeFailureKind.Indeterminate
          RetryAdvice.RequiresUserAction DeliveryState.PossiblySent
          ''the retained runtime task ended without a terminal result''))"

subsection \<open>The in-process client\<close>

record InProcessRuntimeClient =
  client_runtimes :: "(RuntimeId, RuntimeEntry) hashmap"
  client_max_runtimes :: usize

definition from_executor_with_limits :: "RetainedRuntimeLimits \<Rightarrow> RuntimeFailure + InProcessRuntimeClient" where
  "from_executor_with_limits limits =
     (if limits_max_runtimes limits = 0
      then Inl (lifecycle_failure None None RuntimeFailureKind.InvalidRequest RetryAdvice.Never DeliveryState.NotSent
             ''retained runtime capacity must be greater than zero'')
      else Inr \<lparr>client_runtimes = [], client_max_runtimes = limits_max_runtimes limits\<rparr>)"

definition acquire ::
    "(Provider \<Rightarrow> RuntimeDriverCapabilities) \<Rightarrow> InProcessRuntimeClient \<Rightarrow> RuntimeSpec
      \<Rightarrow> (RuntimeFailure + RuntimeEntry) \<times> InProcessRuntimeClient" where
  "acquire capabilities client spec =
     (let rid = spec_runtime_id spec;
          err = (\<lambda>kind retry detail. Inl (lifecycle_failure (Some rid) None kind retry DeliveryState.NotSent detail))
      in if spec_auto_compaction spec \<noteq> ProviderDefault
            \<and> \<not> driver_configurable_auto_compaction (capabilities (spec_provider spec))
         then (err RuntimeFailureKind.CapabilityUnavailable RetryAdvice.Never
                 (display_provider (spec_provider spec) @ '' does not support configurable automatic compaction''), client)
         else case validate_auto_compaction_policy (spec_auto_compaction spec) of
                Inl detail \<Rightarrow> (err RuntimeFailureKind.InvalidRequest RetryAdvice.Never detail, client)
              | Inr _ \<Rightarrow>
                  if hm_get (client_runtimes client) rid \<noteq> None
                  then (err RuntimeFailureKind.RuntimeAlreadyExists RetryAdvice.Never
                          ''a runtime with this identifier already exists'', client)
                  else if length (client_runtimes client) \<ge> client_max_runtimes client
                  then (err RuntimeFailureKind.RuntimeBusy (RetryAdvice.After 1000)
                          (''retained runtime capacity of '' @ decimal (client_max_runtimes client) @
                           '' is exhausted; dispose an inactive runtime before retrying''), client)
                  else let entry = RuntimeEntry_new spec
                       in (Inr entry, client\<lparr>client_runtimes := hm_insert rid entry (client_runtimes client)\<rparr>))"

definition attach :: "InProcessRuntimeClient \<Rightarrow> RuntimeId \<Rightarrow> RuntimeFailure + RuntimeEntry" where
  "attach client rid =
     (case hm_get (client_runtimes client) rid of
        Some entry \<Rightarrow> Inr entry
      | None \<Rightarrow> Inl (lifecycle_failure (Some rid) None RuntimeFailureKind.RuntimeNotFound RetryAdvice.Never
          DeliveryState.NotSent ''the retained runtime does not exist''))"

text \<open>
  \<open>dispose\<close> looks the runtime up, disposes it without holding the table, and removes its
  identifier whether or not the disposal succeeded: \<open>client\<close> is the table at the lookup and
  \<open>later\<close> the one it finds when it takes the lock again; \<open>disposal\<close> is the result of the
  entry's own \<open>dispose\<close>.
\<close>

definition client_dispose ::
    "InProcessRuntimeClient \<Rightarrow> RuntimeId \<Rightarrow> RuntimeFailure + unit \<Rightarrow> InProcessRuntimeClient
      \<Rightarrow> (RuntimeFailure + DisposeOutcome) \<times> InProcessRuntimeClient" where
  "client_dispose client rid disposal later =
     (case hm_get (client_runtimes client) rid of
        None \<Rightarrow> (Inr NotFound, later)
      | Some entry \<Rightarrow>
          (and_then disposal (\<lambda>_. Inr Disposed), later\<lparr>client_runtimes := hm_remove rid (client_runtimes later)\<rparr>))"

section \<open>The table of runtimes\<close>

definition client_ok :: "InProcessRuntimeClient \<Rightarrow> bool" where
  "client_ok client \<longleftrightarrow> hm_ok (client_runtimes client) \<and> length (client_runtimes client) \<le> client_max_runtimes client
     \<and> 0 < client_max_runtimes client"

lemma from_executor_with_limits_ok:
  "from_executor_with_limits limits = Inr client \<Longrightarrow> client_ok client"
  by (auto simp: from_executor_with_limits_def client_ok_def split: if_splits)

lemma acquire_Inr:
  assumes "acquire capabilities client spec = (Inr entry, client')"
  shows "hm_get (client_runtimes client) (spec_runtime_id spec) = None"
    and "length (client_runtimes client) < client_max_runtimes client"
    and "entry = RuntimeEntry_new spec"
    and "client' = client\<lparr>client_runtimes := hm_insert (spec_runtime_id spec) entry (client_runtimes client)\<rparr>"
  using assms by (auto simp: acquire_def Let_def split: if_splits sum.splits)

lemma acquire_Inl: "acquire capabilities client spec = (Inl f, client') \<Longrightarrow> client' = client"
  by (auto simp: acquire_def Let_def split: if_splits sum.splits)

lemma acquire_ok:
  assumes "client_ok client" "acquire capabilities client spec = (r, client')"
  shows "client_ok client'"
proof (cases r)
  case (Inl f)
  then show ?thesis using assms(1) acquire_Inl [OF assms(2) [unfolded Inl]] by simp
next
  case (Inr entry)
  note a = acquire_Inr [OF assms(2) [unfolded Inr]]
  then show ?thesis using assms(1) by (simp add: client_ok_def table_simps)
qed

lemma client_dispose_ok:
  assumes "client_ok later"
  shows "client_ok (snd (client_dispose client rid disposal later))"
  using assms by (auto simp: client_dispose_def client_ok_def split: option.splits intro: le_trans [OF hm_remove_length])

text \<open>
  Two overlapping disposals of one identifier: the second removes a runtime that was acquired
  under the same identifier after the first finished, although nothing disposed that runtime.
\<close>

lemma overlapping_dispose_drops_new_runtime:
  assumes first: "acquire capabilities client spec = (Inr entry, c1)"
    and again: "acquire capabilities (snd (client_dispose c1 (spec_runtime_id spec) (Inr ()) c1)) spec = (Inr entry', c2)"
  shows "attach c2 (spec_runtime_id spec) = Inr entry'" "\<not> entry_disposed entry'"
    and "\<exists>f. attach (snd (client_dispose c1 (spec_runtime_id spec) (Inr ()) c2)) (spec_runtime_id spec) = Inl f
      \<and> failure_kind f = RuntimeFailureKind.RuntimeNotFound"
  using acquire_Inr [OF first] acquire_Inr [OF again]
  by (simp_all add: attach_def client_dispose_def RuntimeEntry_new_def lifecycle_failure_def table_simps)

end
