(* ===== verification/RuntimeRuns.thy ===== *)
theory RuntimeRuns
  imports Retained
begin

text \<open>
  All interleavings of the calls on one retained runtime: \<open>start_turn\<close> with its hand-off
  protocol, the tasks of admitted invocations, disposal and interruption. Each step is one
  critical section or one atomic store of \<^verbatim>\<open>src/retained.rs\<close>; the executor's answers are free.
\<close>

section \<open>The transition system\<close>

text \<open>
  A call of \<open>start_turn\<close> between its critical sections: about to run a round of the loop with
  the two local flags, waiting for the executor's answer to the hand-off request, or waiting for
  the active task to be released (at most five seconds, so it may go on at any time).
\<close>

datatype StartPhase = Trying bool bool | Asking nat | AwaitingRelease nat

record StartCall =
  start_input :: TurnInput
  start_phase :: StartPhase

record World =
  w_entry :: RuntimeEntry
  w_tasks :: "TurnTask list"
  w_starts :: "StartCall list"

definition world_new :: "RuntimeSpec \<Rightarrow> World" where
  "world_new spec = \<lparr>w_entry = RuntimeEntry_new spec, w_tasks = [], w_starts = []\<rparr>"

datatype RuntimeLabel =
    CallStart TurnInput
  | RejectStart RuntimeFailure
  | AdmitTurn InvocationId
  | AskForHandoff nat
  | AnswerHandoff bool
  | ResumeStart
  | ReturnExecutor nat
  | RecordSession nat
  | ReleaseTurn nat
  | UpdateEntry nat
  | SignalTerminal nat
  | SetDisposed
  | LockDisposed
  | InterruptTurn nat

abbreviation set_phase :: "TurnTask list \<Rightarrow> nat \<Rightarrow> TaskPhase \<Rightarrow> TurnTask list" where
  "set_phase tasks k p \<equiv> tasks[k := (tasks ! k)\<lparr>task_phase := p\<rparr>]"

text \<open>The result after the terminal event was sent: a failed delivery turns a success into a failure.\<close>

definition delivered_result :: "RuntimeFailure + TurnResult \<Rightarrow> RuntimeFailure option \<Rightarrow> RuntimeFailure + TurnResult" where
  "delivered_result result undelivered =
     (case undelivered of Some failure \<Rightarrow> if is_ok result then Inl failure else result | None \<Rightarrow> result)"

inductive runtime_step :: "(Provider \<Rightarrow> RuntimeDriverCapabilities) \<Rightarrow> World \<Rightarrow> RuntimeLabel \<Rightarrow> World \<Rightarrow> bool"
  for capabilities where
  call_start:
    "start_check (capabilities (spec_provider (entry_spec (w_entry w)))) (w_entry w) input has_interactions = Inr () \<Longrightarrow>
     runtime_step capabilities w (CallStart input)
       (w\<lparr>w_starts := w_starts w @ [\<lparr>start_input = input, start_phase = Trying False False\<rparr>]\<rparr>)"
| call_rejected:
    "start_check (capabilities (spec_provider (entry_spec (w_entry w)))) (w_entry w) input has_interactions = Inl f \<Longrightarrow>
     runtime_step capabilities w (RejectStart f) w"
| admitted:
    "w_starts w = xs @ \<lparr>start_input = input, start_phase = Trying attempted accepted\<rparr> # ys \<Longrightarrow>
     admit (w_entry w) (w_tasks w) input attempted accepted = (Admitted session, entry') \<Longrightarrow>
     request = build_request (entry_spec (w_entry w)) (capabilities (spec_provider (entry_spec (w_entry w)))) input session \<Longrightarrow>
     runtime_step capabilities w (AdmitTurn (input_invocation_id input))
       \<lparr>w_entry = entry', w_tasks = w_tasks w @ [TurnTask_new (input_invocation_id input) request], w_starts = xs @ ys\<rparr>"
| ask_handoff:
    "w_starts w = xs @ \<lparr>start_input = input, start_phase = Trying attempted accepted\<rparr> # ys \<Longrightarrow>
     admit (w_entry w) (w_tasks w) input attempted accepted = (AskHandoff k, entry') \<Longrightarrow>
     runtime_step capabilities w (AskForHandoff k)
       (w\<lparr>w_entry := entry', w_starts := xs @ \<lparr>start_input = input, start_phase = Asking k\<rparr> # ys\<rparr>)"
| rejected:
    "w_starts w = xs @ \<lparr>start_input = input, start_phase = Trying attempted accepted\<rparr> # ys \<Longrightarrow>
     admit (w_entry w) (w_tasks w) input attempted accepted = (Rejected f, entry') \<Longrightarrow>
     runtime_step capabilities w (RejectStart f) (w\<lparr>w_entry := entry', w_starts := xs @ ys\<rparr>)"
| answer_handoff:
    "w_starts w = xs @ \<lparr>start_input = input, start_phase = Asking k\<rparr> # ys \<Longrightarrow>
     runtime_step capabilities w (AnswerHandoff accepted)
       (w\<lparr>w_starts := xs @ \<lparr>start_input = input,
          start_phase = (if accepted then AwaitingRelease k else Trying True False)\<rparr> # ys\<rparr>)"
| resume_start:
    "w_starts w = xs @ \<lparr>start_input = input, start_phase = AwaitingRelease k\<rparr> # ys \<Longrightarrow>
     runtime_step capabilities w ResumeStart
       (w\<lparr>w_starts := xs @ \<lparr>start_input = input, start_phase = Trying True True\<rparr> # ys\<rparr>)"
| executor_returns:
    "k < length (w_tasks w) \<Longrightarrow> task_phase (w_tasks w ! k) = Executing \<Longrightarrow>
     runtime_step capabilities w (ReturnExecutor k)
       (w\<lparr>w_tasks := set_phase (w_tasks w) k (ExecutorReturned result session)\<rparr>)"
| session_recorded:
    "k < length (w_tasks w) \<Longrightarrow> task_phase (w_tasks w ! k) = ExecutorReturned result session \<Longrightarrow>
     runtime_step capabilities w (RecordSession k)
       (w\<lparr>w_tasks := set_phase (w_tasks w) k (SessionRecorded result),
          w_entry := record_session (w_entry w) (task_invocation_id (w_tasks w ! k)) session\<rparr>)"
| turn_released:
    "k < length (w_tasks w) \<Longrightarrow> task_phase (w_tasks w ! k) = SessionRecorded result \<Longrightarrow>
     runtime_step capabilities w (ReleaseTurn k)
       (w\<lparr>w_tasks := (w_tasks w)[k := (w_tasks w ! k)\<lparr>task_phase := Released result, task_released := signal_of Finished\<rparr>]\<rparr>)"
| entry_updated:
    "k < length (w_tasks w) \<Longrightarrow> task_phase (w_tasks w ! k) = Released result \<Longrightarrow>
     final = delivered_result result undelivered \<Longrightarrow>
     runtime_step capabilities w (UpdateEntry k)
       (w\<lparr>w_tasks := set_phase (w_tasks w) k (EntryUpdated final),
          w_entry := finish_turn (w_entry w) (task_invocation_id (w_tasks w ! k)) final\<rparr>)"
| terminal_signalled:
    "k < length (w_tasks w) \<Longrightarrow> task_phase (w_tasks w ! k) = EntryUpdated result \<Longrightarrow>
     runtime_step capabilities w (SignalTerminal k)
       (w\<lparr>w_tasks := (w_tasks w)[k := (w_tasks w ! k)\<lparr>task_phase := TaskDone result,
          task_terminal := signal_of (completion_kind result)\<rparr>]\<rparr>)"
| set_disposed:
    "runtime_step capabilities w SetDisposed (w\<lparr>w_entry := dispose_flag (w_entry w)\<rparr>)"
| lock_disposed:
    "entry_disposed (w_entry w) \<Longrightarrow> dispose_locked (w_entry w) = (terminal, entry') \<Longrightarrow>
     tasks' = (case terminal of
         Some a \<Rightarrow> (w_tasks w)[active_task a := (w_tasks w ! active_task a)\<lparr>task_cancellation := True\<rparr>]
       | None \<Rightarrow> w_tasks w) \<Longrightarrow>
     runtime_step capabilities w LockDisposed (w\<lparr>w_entry := entry', w_tasks := tasks'\<rparr>)"
| interrupted:
    "k < length (w_tasks w) \<Longrightarrow> interrupt_begin (w_entry w) (w_tasks w ! k) = (outcome, t') \<Longrightarrow>
     runtime_step capabilities w (InterruptTurn k) (w\<lparr>w_tasks := (w_tasks w)[k := t']\<rparr>)"

section \<open>Ownership of the provider process\<close>

fun unreleased :: "TaskPhase \<Rightarrow> bool" where
  "unreleased Executing = True"
| "unreleased (ExecutorReturned r s) = True"
| "unreleased (SessionRecorded r) = True"
| "unreleased _ = False"

fun live :: "TaskPhase \<Rightarrow> bool" where
  "live (EntryUpdated r) = False"
| "live (TaskDone r) = False"
| "live _ = True"

lemma unreleased_live: "unreleased p \<Longrightarrow> live p"
  by (cases p) auto

text \<open>The task that still has to update the entry is not older than the remembered invocations.\<close>

definition prompt :: "World \<Rightarrow> bool" where
  "prompt w \<longleftrightarrow> (\<forall>k < length (w_tasks w). live (task_phase (w_tasks w ! k)) \<longrightarrow>
     length (w_tasks w) \<le> k + RECENT_INVOCATION_CAPACITY)"

definition tasks_ok :: "EntryState \<Rightarrow> TurnTask list \<Rightarrow> bool" where
  "tasks_ok s tasks \<longleftrightarrow>
     (\<forall>a. es_active s = Some a \<longrightarrow> active_task a < length tasks
        \<and> task_invocation_id (tasks ! active_task a) = active_invocation_id a
        \<and> live (task_phase (tasks ! active_task a)))
     \<and> (\<forall>k < length tasks. unreleased (task_phase (tasks ! k)) \<longrightarrow>
          (\<exists>a. es_active s = Some a \<and> active_task a = k))
     \<and> (\<forall>k < length tasks. is_complete (task_released (tasks ! k)) \<longleftrightarrow> \<not> unreleased (task_phase (tasks ! k)))
     \<and> (\<forall>a k. es_active s = Some a \<longrightarrow> k < length tasks \<longrightarrow> live (task_phase (tasks ! k)) \<longrightarrow>
          k \<noteq> active_task a \<longrightarrow> task_invocation_id (tasks ! k) \<noteq> active_invocation_id a)"

definition recent_ok :: "EntryState \<Rightarrow> TurnTask list \<Rightarrow> bool" where
  "recent_ok s tasks \<longleftrightarrow>
     es_recent_invocation_order s
       = drop (length tasks - RECENT_INVOCATION_CAPACITY) (map task_invocation_id tasks)
     \<and> distinct (es_recent_invocation_order s)
     \<and> es_recent_invocations s = set (es_recent_invocation_order s)"

definition status_ok :: "EntryState \<Rightarrow> bool" where
  "status_ok s \<longleftrightarrow>
     (case es_active s of
        None \<Rightarrow> es_status s \<in> {RuntimeStatus.Ready, RuntimeStatus.Degraded, RuntimeStatus.Stopped}
      | Some _ \<Rightarrow> es_status s \<in> {RuntimeStatus.Busy, RuntimeStatus.Stopping})"

definition world_ok :: "World \<Rightarrow> bool" where
  "world_ok w \<longleftrightarrow> tasks_ok (entry_state (w_entry w)) (w_tasks w)
     \<and> recent_ok (entry_state (w_entry w)) (w_tasks w) \<and> status_ok (entry_state (w_entry w))"

lemma world_new_ok: "world_ok (world_new spec)"
  by (simp add: world_ok_def world_new_def RuntimeEntry_new_def tasks_ok_def recent_ok_def status_ok_def)

lemma tasks_okI:
  assumes "\<And>a. es_active s = Some a \<Longrightarrow> active_task a < length tasks
        \<and> task_invocation_id (tasks ! active_task a) = active_invocation_id a
        \<and> live (task_phase (tasks ! active_task a))"
    and "\<And>k. k < length tasks \<Longrightarrow> unreleased (task_phase (tasks ! k)) \<Longrightarrow> \<exists>a. es_active s = Some a \<and> active_task a = k"
    and "\<And>k. k < length tasks \<Longrightarrow> is_complete (task_released (tasks ! k)) \<longleftrightarrow> \<not> unreleased (task_phase (tasks ! k))"
    and "\<And>a k. es_active s = Some a \<Longrightarrow> k < length tasks \<Longrightarrow> live (task_phase (tasks ! k)) \<Longrightarrow>
          k \<noteq> active_task a \<Longrightarrow> task_invocation_id (tasks ! k) \<noteq> active_invocation_id a"
  shows "tasks_ok s tasks"
  using assms unfolding tasks_ok_def by blast

lemma tasks_okD:
  assumes "tasks_ok s tasks"
  shows "es_active s = Some a \<Longrightarrow> active_task a < length tasks
        \<and> task_invocation_id (tasks ! active_task a) = active_invocation_id a
        \<and> live (task_phase (tasks ! active_task a))"
    and "k < length tasks \<Longrightarrow> unreleased (task_phase (tasks ! k)) \<Longrightarrow> \<exists>a. es_active s = Some a \<and> active_task a = k"
    and "k < length tasks \<Longrightarrow> is_complete (task_released (tasks ! k)) \<longleftrightarrow> \<not> unreleased (task_phase (tasks ! k))"
    and "es_active s = Some a \<Longrightarrow> k < length tasks \<Longrightarrow> live (task_phase (tasks ! k)) \<Longrightarrow>
          k \<noteq> active_task a \<Longrightarrow> task_invocation_id (tasks ! k) \<noteq> active_invocation_id a"
  using assms unfolding tasks_ok_def by blast+

text \<open>
  Most steps only move one task to its next phase: the invariant survives when the new phase
  keeps the task's ownership and the released signal follows the phase.
\<close>

lemma tasks_ok_update:
  assumes ok: "tasks_ok s tasks" and k: "k < length tasks"
    and t: "task_invocation_id t = task_invocation_id (tasks ! k)"
      "live (task_phase t) = live (task_phase (tasks ! k))"
      "unreleased (task_phase t) \<Longrightarrow> unreleased (task_phase (tasks ! k))"
      "is_complete (task_released t) \<longleftrightarrow> \<not> unreleased (task_phase t)"
    and s: "es_active s' = es_active s"
  shows "tasks_ok s' (tasks[k := t])"
proof (rule tasks_okI)
  fix a assume "es_active s' = Some a"
  then show "active_task a < length (tasks[k := t])
        \<and> task_invocation_id (tasks[k := t] ! active_task a) = active_invocation_id a
        \<and> live (task_phase (tasks[k := t] ! active_task a))"
    using tasks_okD(1) [OF ok, of a] t s by (cases "active_task a = k") auto
next
  fix j assume "j < length (tasks[k := t])" "unreleased (task_phase (tasks[k := t] ! j))"
  then show "\<exists>a. es_active s' = Some a \<and> active_task a = j"
    using tasks_okD(2) [OF ok, of j] t(3) s by (cases "j = k") auto
next
  fix j assume "j < length (tasks[k := t])"
  then show "is_complete (task_released (tasks[k := t] ! j)) \<longleftrightarrow> \<not> unreleased (task_phase (tasks[k := t] ! j))"
    using tasks_okD(3) [OF ok, of j] t(4) by (cases "j = k") auto
next
  fix a j assume "es_active s' = Some a" "j < length (tasks[k := t])" "live (task_phase (tasks[k := t] ! j))" "j \<noteq> active_task a"
  then show "task_invocation_id (tasks[k := t] ! j) \<noteq> active_invocation_id a"
    using tasks_okD(4) [OF ok, of a j] t s by (cases "j = k") auto
qed

lemma recent_ok_update:
  assumes "recent_ok s tasks" "k < length tasks" "task_invocation_id t = task_invocation_id (tasks ! k)"
    and "es_recent_invocations s' = es_recent_invocations s" "es_recent_invocation_order s' = es_recent_invocation_order s"
  shows "recent_ok s' (tasks[k := t])"
proof -
  have "map task_invocation_id (tasks[k := t]) = map task_invocation_id tasks"
    using assms(2,3) by (intro nth_equalityI) (auto simp: nth_list_update)
  note m = this
  show ?thesis using assms(1) unfolding recent_ok_def length_list_update m assms(4,5) .
qed

lemma recent_ok_mem:
  assumes rok: "recent_ok s tasks" and k: "k < length tasks" "length tasks \<le> k + RECENT_INVOCATION_CAPACITY"
  shows "task_invocation_id (tasks ! k) \<in> es_recent_invocations s"
proof -
  have "task_invocation_id (tasks ! k) \<in> set (drop (length tasks - RECENT_INVOCATION_CAPACITY) (map task_invocation_id tasks))"
    using k by (auto simp: in_set_conv_nth intro!: exI [of _ "k - (length tasks - RECENT_INVOCATION_CAPACITY)"])
  then show ?thesis using rok by (simp add: recent_ok_def)
qed

lemma admit_Admitted:
  assumes "admit entry tasks input attempted accepted = (Admitted session, entry')"
  shows "\<not> entry_disposed entry" "input_invocation_id input \<notin> es_recent_invocations (entry_state entry)"
    "es_active (entry_state entry) = None \<or> (\<exists>a. es_active (entry_state entry) = Some a \<and> is_complete (task_released (tasks ! active_task a)))"
    "session = es_provider_session_id (entry_state entry)"
    "entry' = entry\<lparr>entry_state := remember_invocation ((entry_state entry)\<lparr>es_status := RuntimeStatus.Busy, es_detail := None,
       es_active := Some \<lparr>active_invocation_id = input_invocation_id input, active_task = length tasks\<rparr>\<rparr>) (input_invocation_id input)\<rparr>"
  using assms by (auto simp: admit_def Let_def split: if_splits option.splits)

lemma admit_other:
  assumes "admit entry tasks input attempted accepted = (out, entry')" "\<forall>session. out \<noteq> Admitted session"
  shows "entry' = entry"
  using assms by (auto simp: admit_def Let_def split: if_splits option.splits)

lemma remember_invocation_frame [simp]:
  "es_status (remember_invocation s i) = es_status s"
  "es_active (remember_invocation s i) = es_active s"
  "es_provider_session_id (remember_invocation s i) = es_provider_session_id s"
  by (simp_all add: remember_invocation_def split: prod.splits)

lemma remember_invocation_recent:
  assumes ok: "recent_ok s tasks" and fresh: "i \<notin> es_recent_invocations s" and t: "task_invocation_id t = i"
    and s': "es_recent_invocations s' = es_recent_invocations s" "es_recent_invocation_order s' = es_recent_invocation_order s"
  shows "recent_ok (remember_invocation s' i) (tasks @ [t])"
proof -
  let ?c = RECENT_INVOCATION_CAPACITY and ?q = "es_recent_invocation_order s"
  have q: "?q = drop (length tasks - ?c) (map task_invocation_id tasks)" "distinct ?q" "es_recent_invocations s = set ?q"
    using ok by (auto simp: recent_ok_def)
  have d: "distinct (?q @ [i])" using q fresh by simp
  have len: "length ?q = min (length tasks) ?c" using q(1) by simp
  have "drop (Suc (length ?q) - ?c) (?q @ [i]) = drop (Suc (length tasks) - ?c) (map task_invocation_id (tasks @ [t]))"
  proof (cases "length tasks < ?c")
    case True
    then show ?thesis using q(1) len t by simp
  next
    case False
    then have "Suc (length ?q) - ?c = 1" "Suc (length tasks) - ?c = Suc (length tasks - ?c)" using len by auto
    then show ?thesis using q(1) t False by (simp add: drop_drop RECENT_INVOCATION_CAPACITY_def)
  qed
  moreover have "set (drop (Suc (length ?q) - ?c) (?q @ [i])) = insert i (set ?q) - set (take (Suc (length ?q) - ?c) (?q @ [i]))"
    using set_drop_distinct [OF d, of "Suc (length ?q) - ?c"] by simp
  moreover have "distinct (drop (Suc (length ?q) - ?c) (?q @ [i]))" using d distinct_drop by blast
  ultimately show ?thesis
    using q(3) s' by (simp add: recent_ok_def remember_invocation_def evict_while_eq fold_remove_set del: drop_append take_append)
qed

lemma admitted_ok:
  assumes ok: "world_ok w" and prompt: "prompt w"
    and adm: "admit (w_entry w) (w_tasks w) input attempted accepted = (Admitted session, entry')"
  shows "world_ok \<lparr>w_entry = entry', w_tasks = w_tasks w @ [TurnTask_new (input_invocation_id input) request], w_starts = starts\<rparr>"
proof -
  let ?s = "entry_state (w_entry w)" and ?ts = "w_tasks w" and ?i = "input_invocation_id input"
  let ?t = "TurnTask_new ?i request" and ?a = "\<lparr>active_invocation_id = ?i, active_task = length ?ts\<rparr>"
  note adm = admit_Admitted [OF adm]
  have tok: "tasks_ok ?s ?ts" and rok: "recent_ok ?s ?ts" using ok by (simp_all add: world_ok_def)
  have s': "es_active (entry_state entry') = Some ?a" by (simp add: adm(5))
  have none: "\<not> unreleased (task_phase (?ts ! k))" if "k < length ?ts" for k
  proof
    assume u: "unreleased (task_phase (?ts ! k))"
    from tasks_okD(2) [OF tok that u] obtain a where a: "es_active ?s = Some a" "active_task a = k" by blast
    with adm(3) have "is_complete (task_released (?ts ! k))" by auto
    with u tasks_okD(3) [OF tok that] show False by simp
  qed
  have fresh: "task_invocation_id (?ts ! k) \<noteq> ?i" if k: "k < length ?ts" "live (task_phase (?ts ! k))" for k
  proof -
    have "length ?ts \<le> k + RECENT_INVOCATION_CAPACITY" using prompt k by (auto simp: prompt_def)
    from recent_ok_mem [OF rok k(1) this] show ?thesis using adm(2) by auto
  qed
  have "tasks_ok (entry_state entry') (?ts @ [?t])"
  proof (rule tasks_okI)
    fix a assume "es_active (entry_state entry') = Some a"
    then show "active_task a < length (?ts @ [?t]) \<and> task_invocation_id ((?ts @ [?t]) ! active_task a) = active_invocation_id a
        \<and> live (task_phase ((?ts @ [?t]) ! active_task a))"
      using s' by (auto simp: TurnTask_new_def)
  next
    fix k assume "k < length (?ts @ [?t])" "unreleased (task_phase ((?ts @ [?t]) ! k))"
    then have "k = length ?ts" using none by (auto simp: nth_append less_Suc_eq split: if_splits)
    then show "\<exists>a. es_active (entry_state entry') = Some a \<and> active_task a = k" using s' by simp
  next
    fix k assume "k < length (?ts @ [?t])"
    then show "is_complete (task_released ((?ts @ [?t]) ! k)) \<longleftrightarrow> \<not> unreleased (task_phase ((?ts @ [?t]) ! k))"
      using tasks_okD(3) [OF tok, of k] by (auto simp: nth_append less_Suc_eq TurnTask_new_def is_complete_def)
  next
    fix a k assume "es_active (entry_state entry') = Some a" "k < length (?ts @ [?t])"
      "live (task_phase ((?ts @ [?t]) ! k))" "k \<noteq> active_task a"
    then show "task_invocation_id ((?ts @ [?t]) ! k) \<noteq> active_invocation_id a"
      using s' fresh [of k] by (auto simp: nth_append less_Suc_eq split: if_splits)
  qed
  moreover have "recent_ok (entry_state entry') (?ts @ [?t])"
    using remember_invocation_recent [OF rok adm(2), of ?t] by (simp add: adm(5) TurnTask_new_def)
  moreover have "status_ok (entry_state entry')" by (simp add: status_ok_def s') (simp add: adm(5))
  ultimately show ?thesis by (simp add: world_ok_def)
qed

lemma record_session_frame [simp]:
  "es_active (entry_state (record_session e i s)) = es_active (entry_state e)"
  "es_status (entry_state (record_session e i s)) = es_status (entry_state e)"
  "es_recent_invocations (entry_state (record_session e i s)) = es_recent_invocations (entry_state e)"
  "es_recent_invocation_order (entry_state (record_session e i s)) = es_recent_invocation_order (entry_state e)"
  "entry_disposed (record_session e i s) = entry_disposed e"
  by (auto simp: record_session_def split: option.splits)

lemma finish_turn_frame [simp]:
  "es_recent_invocations (entry_state (finish_turn e i r)) = es_recent_invocations (entry_state e)"
  "es_recent_invocation_order (entry_state (finish_turn e i r)) = es_recent_invocation_order (entry_state e)"
  "es_provider_session_id (entry_state (finish_turn e i r)) = es_provider_session_id (entry_state e)"
  "entry_disposed (finish_turn e i r) = entry_disposed e"
  by (auto simp: finish_turn_def Let_def)

lemma record_session_status: "status_ok (entry_state (record_session e i s)) = status_ok (entry_state e)"
  unfolding status_ok_def record_session_frame ..

text \<open>The task that updates the entry clears it exactly when it is the active one.\<close>

lemma entry_updated_ok:
  assumes ok: "world_ok w" and k: "k < length (w_tasks w)" and ph: "task_phase (w_tasks w ! k) = Released result"
  shows "world_ok (w\<lparr>w_tasks := set_phase (w_tasks w) k (EntryUpdated final),
      w_entry := finish_turn (w_entry w) (task_invocation_id (w_tasks w ! k)) final\<rparr>)"
proof -
  let ?s = "entry_state (w_entry w)" and ?ts = "w_tasks w" and ?i = "task_invocation_id (w_tasks w ! k)"
  let ?t = "(?ts ! k)\<lparr>task_phase := EntryUpdated final\<rparr>" and ?e = "finish_turn (w_entry w) (task_invocation_id (w_tasks w ! k)) final"
  have tok: "tasks_ok ?s ?ts" and rok: "recent_ok ?s ?ts" and sok: "status_ok ?s" using ok by (simp_all add: world_ok_def)
  have own: "owns ?s ?i \<longleftrightarrow> (\<exists>a. es_active ?s = Some a \<and> active_task a = k)"
    using tasks_okD(1,4) [OF tok] k ph by (fastforce simp: owns_def split: option.splits)
  have act: "es_active (entry_state ?e) = (if owns ?s ?i then None else es_active ?s)"
    by (simp add: finish_turn_def Let_def)
  have un: "\<not> unreleased (task_phase (?ts ! k))" using ph by simp
  have "tasks_ok (entry_state ?e) (?ts[k := ?t])"
  proof (rule tasks_okI)
    fix a assume "es_active (entry_state ?e) = Some a"
    then have a: "es_active ?s = Some a" "active_task a \<noteq> k" using act own by (auto split: if_splits)
    then show "active_task a < length (?ts[k := ?t]) \<and> task_invocation_id (?ts[k := ?t] ! active_task a) = active_invocation_id a
        \<and> live (task_phase (?ts[k := ?t] ! active_task a))"
      using tasks_okD(1) [OF tok a(1)] by simp
  next
    fix j assume "j < length (?ts[k := ?t])" "unreleased (task_phase (?ts[k := ?t] ! j))"
    then have j: "j < length ?ts" "j \<noteq> k" "unreleased (task_phase (?ts ! j))" using k by (auto simp: nth_list_update split: if_splits)
    from tasks_okD(2) [OF tok j(1,3)] obtain a where a: "es_active ?s = Some a" "active_task a = j" by blast
    then have "\<not> owns ?s ?i" using own j(2) by auto
    then show "\<exists>a. es_active (entry_state ?e) = Some a \<and> active_task a = j" using act a by simp
  next
    fix j assume "j < length (?ts[k := ?t])"
    then show "is_complete (task_released (?ts[k := ?t] ! j)) \<longleftrightarrow> \<not> unreleased (task_phase (?ts[k := ?t] ! j))"
      using tasks_okD(3) [OF tok, of j] un k by (cases "j = k") auto
  next
    fix a j assume a: "es_active (entry_state ?e) = Some a" and j: "j < length (?ts[k := ?t])"
      "live (task_phase (?ts[k := ?t] ! j))" "j \<noteq> active_task a"
    from a have a': "es_active ?s = Some a" using act by (auto split: if_splits)
    have "j \<noteq> k" using j k by auto
    then show "task_invocation_id (?ts[k := ?t] ! j) \<noteq> active_invocation_id a"
      using tasks_okD(4) [OF tok a', of j] j by auto
  qed
  moreover have "recent_ok (entry_state ?e) (?ts[k := ?t])" using rok k by (intro recent_ok_update) auto
  moreover have "status_ok (entry_state ?e)"
    using sok by (auto simp: status_ok_def finish_turn_def Let_def)
  ultimately show ?thesis by (simp add: world_ok_def)
qed

lemma phase_ok:
  assumes ok: "world_ok w" and k: "k < length (w_tasks w)"
    and t: "task_invocation_id t = task_invocation_id (w_tasks w ! k)"
      "live (task_phase t) = live (task_phase (w_tasks w ! k))"
      "unreleased (task_phase t) \<Longrightarrow> unreleased (task_phase (w_tasks w ! k))"
      "is_complete (task_released t) \<longleftrightarrow> \<not> unreleased (task_phase t)"
    and e: "es_active (entry_state e) = es_active (entry_state (w_entry w))"
      "es_recent_invocations (entry_state e) = es_recent_invocations (entry_state (w_entry w))"
      "es_recent_invocation_order (entry_state e) = es_recent_invocation_order (entry_state (w_entry w))"
      "status_ok (entry_state e)"
  shows "world_ok (w\<lparr>w_tasks := (w_tasks w)[k := t], w_entry := e\<rparr>)"
  using tasks_ok_update [OF _ k t e(1)] recent_ok_update [OF _ k t(1) e(2,3)] ok e(4) by (simp add: world_ok_def)

lemma world_okD: "world_ok w \<Longrightarrow> status_ok (entry_state (w_entry w))"
  "world_ok w \<Longrightarrow> k < length (w_tasks w) \<Longrightarrow> is_complete (task_released (w_tasks w ! k)) \<longleftrightarrow> \<not> unreleased (task_phase (w_tasks w ! k))"
  by (auto simp: world_ok_def dest: tasks_okD(3))

lemma world_ok_cong: "world_ok w \<Longrightarrow> entry_state e = entry_state (w_entry w) \<Longrightarrow> world_ok (w\<lparr>w_entry := e, w_starts := starts\<rparr>)"
  by (simp add: world_ok_def)

lemma runtime_step_ok:
  assumes ok: "world_ok w" and prompt: "prompt w" and step: "runtime_step capabilities w l w'"
  shows "world_ok w'"
  using step
proof cases
  case (call_start input has_interactions)
  then show ?thesis using ok by (simp add: world_ok_def)
next
  case (call_rejected input has_interactions f)
  then show ?thesis using ok by simp
next
  case (admitted xs input attempted accepted ys session entry' request)
  show ?thesis unfolding admitted(2) by (rule admitted_ok [OF ok prompt admitted(4)])
next
  case (ask_handoff xs input attempted accepted ys k entry')
  show ?thesis using ok admit_other [OF ask_handoff(4)] by (simp add: ask_handoff(2) world_ok_def)
next
  case (rejected xs input attempted accepted ys f entry')
  show ?thesis using ok admit_other [OF rejected(4)] by (simp add: rejected(2) world_ok_def)
next
  case (answer_handoff xs input k ys accepted)
  then show ?thesis using ok by (simp add: world_ok_def)
next
  case (resume_start xs input k ys)
  then show ?thesis using ok by (simp add: world_ok_def)
next
  case (executor_returns k result session)
  show ?thesis
    using phase_ok [OF ok executor_returns(3), of "(w_tasks w ! k)\<lparr>task_phase := ExecutorReturned result session\<rparr>" "w_entry w"]
      executor_returns(4) world_okD(1) [OF ok] world_okD(2) [OF ok executor_returns(3)]
    by (simp add: executor_returns(2))
next
  case (session_recorded k result session)
  show ?thesis unfolding session_recorded(2)
    using world_okD(1) [OF ok] world_okD(2) [OF ok session_recorded(3)] session_recorded(4)
    by (intro phase_ok [OF ok session_recorded(3)]) (simp_all add: record_session_status)
next
  case (turn_released k result)
  show ?thesis
    using phase_ok [OF ok turn_released(3), of "(w_tasks w ! k)\<lparr>task_phase := Released result, task_released := signal_of Finished\<rparr>" "w_entry w"]
      turn_released(4) world_okD(1) [OF ok]
    by (simp add: turn_released(2) is_complete_def signal_of_def FINISHED_def RUNNING_def)
next
  case (entry_updated k result final undelivered)
  show ?thesis unfolding entry_updated(2) by (rule entry_updated_ok [OF ok entry_updated(3,4)])
next
  case (terminal_signalled k result)
  show ?thesis
    using phase_ok [OF ok terminal_signalled(3), of "(w_tasks w ! k)\<lparr>task_phase := TaskDone result,
          task_terminal := signal_of (completion_kind result)\<rparr>" "w_entry w"]
      terminal_signalled(4) world_okD(1) [OF ok] world_okD(2) [OF ok terminal_signalled(3)]
    by (simp add: terminal_signalled(2))
next
  case set_disposed
  then show ?thesis using ok by (simp add: world_ok_def dispose_flag_def)
next
  case (lock_disposed terminal entry' tasks')
  show ?thesis
  proof (cases "es_active (entry_state (w_entry w))")
    case None
    then show ?thesis using ok lock_disposed(2-5)
      by (auto simp: world_ok_def dispose_locked_def Let_def tasks_ok_def recent_ok_def status_ok_def)
  next
    case (Some a)
    have k: "active_task a < length (w_tasks w)" using ok Some by (auto simp: world_ok_def dest: tasks_okD(1))
    have "world_ok (w\<lparr>w_tasks := (w_tasks w)[active_task a := (w_tasks w ! active_task a)\<lparr>task_cancellation := True\<rparr>],
        w_entry := (w_entry w)\<lparr>entry_state := (entry_state (w_entry w))\<lparr>es_status := RuntimeStatus.Stopping\<rparr>\<rparr>\<rparr>)"
      using world_okD(2) [OF ok k] Some by (intro phase_ok [OF ok k]) (simp_all add: status_ok_def)
    moreover have "terminal = Some a"
      "entry' = (w_entry w)\<lparr>entry_state := (entry_state (w_entry w))\<lparr>es_status := RuntimeStatus.Stopping\<rparr>\<rparr>"
      using lock_disposed(4) Some by (auto simp: dispose_locked_def Let_def)
    ultimately show ?thesis by (cases w) (simp add: lock_disposed(2,5))
  qed
next
  case (interrupted k outcome t')
  show ?thesis
    using phase_ok [OF ok interrupted(3), of t' "w_entry w"] interrupted(4) world_okD(1) [OF ok]
      world_okD(2) [OF ok interrupted(3)]
    by (auto simp: interrupted(2) interrupt_begin_def split: if_splits)
qed

text \<open>Runs in which every task updates the entry before 1024 newer invocations are admitted.\<close>

inductive runtime_run :: "(Provider \<Rightarrow> RuntimeDriverCapabilities) \<Rightarrow> World \<Rightarrow> RuntimeLabel list \<Rightarrow> World \<Rightarrow> bool"
  for capabilities w where
  run_start: "runtime_run capabilities w [] w"
| run_step: "runtime_run capabilities w ls w' \<Longrightarrow> prompt w' \<Longrightarrow> runtime_step capabilities w' l w'' \<Longrightarrow>
    runtime_run capabilities w (ls @ [l]) w''"

lemma runtime_run_ok:
  assumes "runtime_run capabilities w ls w'" "world_ok w"
  shows "world_ok w'"
  using assms by induction (auto intro: runtime_step_ok)


definition disposal_locked :: "World \<Rightarrow> bool" where
  "disposal_locked w \<longleftrightarrow> entry_disposed (w_entry w)
     \<and> es_status (entry_state (w_entry w)) \<in> {RuntimeStatus.Stopping, RuntimeStatus.Stopped}"

lemma disposal_step:
  assumes d: "disposal_locked w" and step: "runtime_step capabilities w l w'"
  shows "disposal_locked w' \<and> (\<forall>i. l \<noteq> AdmitTurn i)"
  using step
proof cases
  case (admitted xs input attempted accepted ys session entry' request)
  then show ?thesis using d admit_Admitted(1) [OF admitted(4)] by (simp add: disposal_locked_def)
next
  case (ask_handoff xs input attempted accepted ys k entry')
  then show ?thesis using d admit_other [OF ask_handoff(4)] by (simp add: disposal_locked_def)
next
  case (rejected xs input attempted accepted ys f entry')
  then show ?thesis using d admit_other [OF rejected(4)] by (simp add: disposal_locked_def)
next
  case (entry_updated k result final undelivered)
  then show ?thesis using d by (auto simp: disposal_locked_def finish_turn_def Let_def)
next
  case (lock_disposed terminal entry' tasks')
  then show ?thesis using d by (auto simp: disposal_locked_def dispose_locked_def Let_def split: option.splits)
qed (use d in \<open>auto simp: disposal_locked_def dispose_flag_def\<close>)

lemma disposal_run:
  assumes "runtime_run capabilities w ls w'" "disposal_locked w"
  shows "disposal_locked w' \<and> (\<forall>i. AdmitTurn i \<notin> set ls)"
  using assms
proof induction
  case run_start
  then show ?case by simp
next
  case (run_step ls w' l w'')
  then have "disposal_locked w''" "\<forall>i. l \<noteq> AdmitTurn i" using disposal_step [OF _ run_step.hyps(3)] by blast+
  then show ?case using run_step by auto
qed

lemma disposal_lock:
  assumes "runtime_step capabilities w LockDisposed w'"
  shows "disposal_locked w'"
  using assms
proof cases
  case (lock_disposed terminal entry' tasks')
  have "entry_disposed entry' \<and> es_status (entry_state entry') \<in> {RuntimeStatus.Stopping, RuntimeStatus.Stopped}"
    using lock_disposed(2,3) by (cases "es_active (entry_state (w_entry w))") (auto simp: dispose_locked_def Let_def)
  then show ?thesis by (simp add: disposal_locked_def lock_disposed(1))
qed

text \<open>
  C25: disposal is final: once its critical section ran, the runtime reports that it is stopping
  or stopped in every later state, stopped only when no turn is active, and no later start call
  admits a turn.
\<close>

theorem disposal_is_final:
  assumes before: "runtime_run capabilities (world_new spec) ls w"
    and lock: "prompt w" "runtime_step capabilities w LockDisposed w1"
    and after: "runtime_run capabilities w1 ls' w2"
  shows "disposal_locked w2 \<and> (\<forall>i. AdmitTurn i \<notin> set ls')
    \<and> (es_status (entry_state (w_entry w2)) = RuntimeStatus.Stopped \<longrightarrow> es_active (entry_state (w_entry w2)) = None)"
proof -
  have "world_ok w1" using runtime_run_ok [OF before world_new_ok] lock by (rule runtime_step_ok)
  with after have "world_ok w2" by (rule runtime_run_ok)
  then have "status_ok (entry_state (w_entry w2))" by (rule world_okD)
  then have "es_status (entry_state (w_entry w2)) = RuntimeStatus.Stopped \<longrightarrow> es_active (entry_state (w_entry w2)) = None"
    by (cases "es_active (entry_state (w_entry w2))") (auto simp: status_ok_def)
  with disposal_run [OF after disposal_lock [OF lock(2)]] show ?thesis by blast
qed


text \<open>
  C27: an invocation identifier is accepted at most once among the last 1024 admissions: whatever
  ran before, a start call that reuses the identifier of one of them is refused as a duplicate
  and leaves the entry unchanged, on the first round of admission as well as after a hand-off.
\<close>

theorem duplicate_invocation_refused:
  assumes run: "runtime_run capabilities (world_new spec) ls w"
    and k: "k < length (w_tasks w)" "length (w_tasks w) \<le> k + RECENT_INVOCATION_CAPACITY"
    and dup: "input_invocation_id input = task_invocation_id (w_tasks w ! k)"
    and live: "\<not> entry_disposed (w_entry w)"
  shows "\<exists>f. admit (w_entry w) (w_tasks w) input attempted accepted = (Rejected f, w_entry w)
    \<and> failure_kind f = RuntimeFailureKind.InvocationAlreadyExists"
proof -
  have "recent_ok (entry_state (w_entry w)) (w_tasks w)"
    using runtime_run_ok [OF run world_new_ok] by (simp add: world_ok_def)
  from recent_ok_mem [OF this k] show ?thesis
    using dup live by (simp add: admit_def Let_def lifecycle_failure_def)
qed

section \<open>Session hand-over\<close>

lemma session_kept:
  assumes "runtime_step capabilities w l w'" "\<forall>k. l \<noteq> RecordSession k"
  shows "es_provider_session_id (entry_state (w_entry w')) = es_provider_session_id (entry_state (w_entry w))"
  using assms(1)
proof cases
  case (admitted xs input attempted accepted ys session entry' request)
  then show ?thesis by (simp add: admit_Admitted(5) [OF admitted(4)])
next
  case (ask_handoff xs input attempted accepted ys k entry')
  then show ?thesis using admit_other [OF ask_handoff(4)] by simp
next
  case (rejected xs input attempted accepted ys f entry')
  then show ?thesis using admit_other [OF rejected(4)] by simp
next
  case (lock_disposed terminal entry' tasks')
  then show ?thesis by (auto simp: dispose_locked_def Let_def split: option.splits)
qed (use assms(2) in \<open>auto simp: dispose_flag_def\<close>)

lemma session_kept_run:
  assumes "runtime_run capabilities w ls w'" "\<forall>k. RecordSession k \<notin> set ls"
  shows "es_provider_session_id (entry_state (w_entry w')) = es_provider_session_id (entry_state (w_entry w))"
  using assms by induction (auto dest!: session_kept)

lemma entry_spec_kept:
  assumes "runtime_step capabilities w l w'"
  shows "entry_spec (w_entry w') = entry_spec (w_entry w)"
  using assms
proof cases
  case (admitted xs input attempted accepted ys session entry' request)
  then show ?thesis by (simp add: admit_Admitted(5) [OF admitted(4)])
next
  case (ask_handoff xs input attempted accepted ys k entry')
  then show ?thesis using admit_other [OF ask_handoff(4)] by simp
next
  case (rejected xs input attempted accepted ys f entry')
  then show ?thesis using admit_other [OF rejected(4)] by simp
next
  case (lock_disposed terminal entry' tasks')
  then show ?thesis by (auto simp: dispose_locked_def Let_def split: option.splits)
qed (auto simp: dispose_flag_def record_session_def finish_turn_def Let_def split: option.splits)

lemma entry_spec_run:
  assumes "runtime_run capabilities w ls w'"
  shows "entry_spec (w_entry w') = entry_spec (w_entry w)"
  using assms by induction (auto dest!: entry_spec_kept)

text \<open>
  C26: the session a turn leaves reaches the next one. When the executor of an admitted invocation
  returned a session and the host recorded it, the next turn admitted, by hand-off while the
  first is still settling or later, is built to resume exactly that session.
\<close>

theorem next_turn_resumes_session:
  assumes before: "runtime_run capabilities (world_new spec) ls w"
    and k: "k < length (w_tasks w)" "task_phase (w_tasks w ! k) = ExecutorReturned result (Some session)"
    and recorded: "prompt w" "runtime_step capabilities w (RecordSession k) w1"
    and between: "runtime_run capabilities w1 ls' w2" "\<forall>j. RecordSession j \<notin> set ls'"
    and admit: "runtime_step capabilities w2 (AdmitTurn i) w3"
  shows "\<exists>input. input_invocation_id input = i \<and>
    w_tasks w3 = w_tasks w2 @ [TurnTask_new i (build_request spec (capabilities (spec_provider spec)) input (Some session))]"
proof -
  have "owns (entry_state (w_entry w)) (task_invocation_id (w_tasks w ! k))"
    using runtime_run_ok [OF before world_new_ok] k tasks_okD(1,2) unfolding world_ok_def owns_def by fastforce
  moreover from recorded(2) have "w_entry w1 = record_session (w_entry w) (task_invocation_id (w_tasks w ! k)) (Some session)"
    using k(2) by cases simp
  ultimately have "es_provider_session_id (entry_state (w_entry w1)) = Some session"
    by (simp add: record_session_def)
  then have s2: "es_provider_session_id (entry_state (w_entry w2)) = Some session"
    using session_kept_run [OF between] by simp
  have "entry_spec (w_entry w2) = spec"
    using entry_spec_run [OF between(1)] entry_spec_kept [OF recorded(2)] entry_spec_run [OF before]
    by (simp add: world_new_def RuntimeEntry_new_def)
  note spec = this
  from admit show ?thesis
  proof cases
    case (admitted xs input attempted accepted ys session' entry' request)
    then show ?thesis using admit_Admitted(4) [OF admitted(4)] s2 spec by auto
  qed
qed

section \<open>Sample runs\<close>

lemma prompt_short: "length (w_tasks w) \<le> RECENT_INVOCATION_CAPACITY \<Longrightarrow> prompt w"
  by (auto simp: prompt_def)

text \<open>The first turn of a fresh runtime, up to its execution.\<close>

lemma first_turn_run:
  fixes capabilities spec input
  defines "i \<equiv> input_invocation_id input"
    and "request \<equiv> build_request spec (capabilities (spec_provider spec)) input (spec_provider_session_id spec)"
  assumes check: "start_check (capabilities (spec_provider spec)) (RuntimeEntry_new spec) input has_interactions = Inr ()"
    and kind: "input_invocation_kind input = Turn"
  shows "runtime_run capabilities (world_new spec) [CallStart input, AdmitTurn i]
    \<lparr>w_entry = snd (admit (RuntimeEntry_new spec) [] input False False), w_tasks = [TurnTask_new i request], w_starts = []\<rparr>"
proof -
  let ?w1 = "\<lparr>w_entry = RuntimeEntry_new spec, w_tasks = [], w_starts = [\<lparr>start_input = input, start_phase = Trying False False\<rparr>]\<rparr>"
  have "runtime_step capabilities (world_new spec) (CallStart input) ?w1"
    using call_start [of capabilities "world_new spec" input has_interactions] check by (simp add: world_new_def RuntimeEntry_new_def)
  then have r1: "runtime_run capabilities (world_new spec) [CallStart input] ?w1"
    using run_step [OF run_start, of "world_new spec" capabilities "CallStart input" ?w1] prompt_short [of "world_new spec"]
    by (simp add: world_new_def)
  have "admit (RuntimeEntry_new spec) [] input False False
    = (Admitted (spec_provider_session_id spec), snd (admit (RuntimeEntry_new spec) [] input False False))"
    using kind by (simp add: admit_def Let_def RuntimeEntry_new_def)
  then have "runtime_step capabilities ?w1 (AdmitTurn i)
    \<lparr>w_entry = snd (admit (RuntimeEntry_new spec) [] input False False), w_tasks = [TurnTask_new i request], w_starts = []\<rparr>"
    using admitted [of ?w1 "[]" input False False "[]" "spec_provider_session_id spec" _ request capabilities]
    by (simp add: i_def request_def RuntimeEntry_new_def)
  from run_step [OF r1 prompt_short this] show ?thesis by simp
qed

abbreviation sample_driver :: RuntimeDriverCapabilities where
  "sample_driver \<equiv> \<lparr>driver_retained_process = True, driver_session_resume = True, driver_live_interactions = True,
     driver_configurable_auto_compaction = True, driver_manual_compaction = True, driver_compaction_instructions = True,
     driver_context_window_usage = True, driver_native_image_attachments = True, driver_compaction_lifecycle = True,
     driver_live_messages = True\<rparr>"

abbreviation sample_spec :: RuntimeSpec where
  "sample_spec \<equiv> RuntimeSpec_new (RuntimeId ''r'') Provider.Claude ''/w''"

abbreviation sample_input :: "string \<Rightarrow> TurnInput" where
  "sample_input i \<equiv> TurnInput_new (InvocationId i) ''go''"

lemma sample_check: "start_check sample_driver (RuntimeEntry_new sample_spec) (sample_input ''i1'') False = Inr ()"
  by code_simp

abbreviation sample_tasks :: "TaskPhase \<Rightarrow> u8 \<Rightarrow> TurnTask list" where
  "sample_tasks p released \<equiv> [\<lparr>task_invocation_id = InvocationId ''i1'',
     task_request = build_request sample_spec sample_driver (sample_input ''i1'') None, task_cancellation = False,
     task_terminal = RUNNING, task_released = released, task_phase = p\<rparr>]"

abbreviation sample_result :: "RuntimeFailure + TurnResult" where
  "sample_result \<equiv> completion_wait (RuntimeId ''r'') (InvocationId ''i1'') None"

abbreviation sample_entry :: RuntimeEntry where
  "sample_entry \<equiv> snd (admit (RuntimeEntry_new sample_spec) [] (sample_input ''i1'') False False)"

lemma sample_run:
  "runtime_run (\<lambda>_. sample_driver) (world_new sample_spec) [CallStart (sample_input ''i1''), AdmitTurn (InvocationId ''i1'')]
     \<lparr>w_entry = sample_entry, w_tasks = sample_tasks Executing RUNNING, w_starts = []\<rparr>"
  using first_turn_run [of "\<lambda>_. sample_driver" sample_spec "sample_input ''i1''" False] sample_check
  by (simp add: TurnTask_new_def TurnInput_new_def RuntimeSpec_new_def)

lemma run_snoc_short:
  assumes "runtime_run capabilities w ls w'" "runtime_step capabilities w' l w''" "length (w_tasks w') \<le> RECENT_INVOCATION_CAPACITY"
  shows "runtime_run capabilities w (ls @ [l]) w''"
  by (rule run_step [OF assms(1) prompt_short [OF assms(3)] assms(2)])


theorem duplicate_invocation_refused_witness:
  "\<exists>f. admit sample_entry (sample_tasks Executing RUNNING) (sample_input ''i1'') True False = (Rejected f, sample_entry)
    \<and> failure_kind f = RuntimeFailureKind.InvocationAlreadyExists"
proof -
  have "\<not> entry_disposed sample_entry" by (simp add: admit_def Let_def RuntimeEntry_new_def TurnInput_new_def)
  then show ?thesis
    using duplicate_invocation_refused [OF sample_run, of 0 "sample_input ''i1''" True False]
    by (simp add: TurnInput_new_def RECENT_INVOCATION_CAPACITY_def)
qed

theorem disposal_is_final_witness:
  "disposal_locked \<lparr>w_entry = snd (dispose_locked (dispose_flag sample_entry)),
      w_tasks = [hd (sample_tasks (ExecutorReturned sample_result None) RUNNING) \<lparr>task_cancellation := True\<rparr>], w_starts = []\<rparr>"
proof -
  let ?w0 = "\<lparr>w_entry = sample_entry, w_tasks = sample_tasks Executing RUNNING, w_starts = []\<rparr>"
  let ?w1 = "?w0\<lparr>w_entry := dispose_flag sample_entry\<rparr>"
  let ?t = "hd (sample_tasks Executing RUNNING) \<lparr>task_cancellation := True\<rparr>"
  let ?w2 = "\<lparr>w_entry = snd (dispose_locked (dispose_flag sample_entry)), w_tasks = [?t], w_starts = []\<rparr>"
  have a: "es_active (entry_state sample_entry) = Some \<lparr>active_invocation_id = InvocationId ''i1'', active_task = 0\<rparr>"
    by (simp add: admit_def Let_def RuntimeEntry_new_def TurnInput_new_def)
  have r1: "runtime_run (\<lambda>_. sample_driver) (world_new sample_spec)
      [CallStart (sample_input ''i1''), AdmitTurn (InvocationId ''i1''), SetDisposed] ?w1"
    using run_snoc_short [OF sample_run set_disposed] by (simp add: RECENT_INVOCATION_CAPACITY_def)
  have s2: "runtime_step (\<lambda>_. sample_driver) ?w1 LockDisposed ?w2"
    using lock_disposed [of ?w1 "Some \<lparr>active_invocation_id = InvocationId ''i1'', active_task = 0\<rparr>"
        "snd (dispose_locked (dispose_flag sample_entry))" "[?t]"] a
    by (simp add: dispose_locked_def dispose_flag_def Let_def)
  have "runtime_step (\<lambda>_. sample_driver) ?w2 (ReturnExecutor 0)
     (?w2\<lparr>w_tasks := [?t\<lparr>task_phase := ExecutorReturned sample_result None\<rparr>]\<rparr>)"
    using executor_returns [of 0 ?w2 "\<lambda>_. sample_driver" sample_result None] by simp
  from run_snoc_short [OF run_start this]
  have "runtime_run (\<lambda>_. sample_driver) ?w2 [ReturnExecutor 0] (?w2\<lparr>w_tasks := [?t\<lparr>task_phase := ExecutorReturned sample_result None\<rparr>]\<rparr>)"
    by (simp add: RECENT_INVOCATION_CAPACITY_def)
  from disposal_is_final [OF r1 _ s2 this] prompt_short [of ?w1] show ?thesis
    by (simp add: RECENT_INVOCATION_CAPACITY_def)
qed

text \<open>The first turn leaves the session \<open>s\<close>, is released and settles; a second start call follows.\<close>

abbreviation sample_world :: "RuntimeEntry \<Rightarrow> TaskPhase \<Rightarrow> u8 \<Rightarrow> StartCall list \<Rightarrow> World" where
  "sample_world e p released starts \<equiv> \<lparr>w_entry = e, w_tasks = sample_tasks p released, w_starts = starts\<rparr>"

abbreviation sample_recorded :: RuntimeEntry where
  "sample_recorded \<equiv> record_session sample_entry (InvocationId ''i1'') (Some ''s'')"

abbreviation sample_settled :: RuntimeEntry where
  "sample_settled \<equiv> finish_turn sample_recorded (InvocationId ''i1'') sample_result"

abbreviation sample_start :: StartCall where
  "sample_start \<equiv> \<lparr>start_input = sample_input ''i2'', start_phase = Trying False False\<rparr>"

lemma sample_returned:
  "runtime_run (\<lambda>_. sample_driver) (world_new sample_spec)
     [CallStart (sample_input ''i1''), AdmitTurn (InvocationId ''i1''), ReturnExecutor 0]
     (sample_world sample_entry (ExecutorReturned sample_result (Some ''s'')) RUNNING [])"
  using run_snoc_short [OF sample_run executor_returns [of 0 _ _ sample_result "Some ''s''"]]
  by (simp add: RECENT_INVOCATION_CAPACITY_def)

lemma sample_session_recorded:
  "runtime_step (\<lambda>_. sample_driver) (sample_world sample_entry (ExecutorReturned sample_result (Some ''s'')) RUNNING [])
     (RecordSession 0) (sample_world sample_recorded (SessionRecorded sample_result) RUNNING [])"
  using session_recorded [of 0 "sample_world sample_entry (ExecutorReturned sample_result (Some ''s'')) RUNNING []"
      sample_result "Some ''s''" "\<lambda>_. sample_driver"] by simp

lemma sample_settles:
  "runtime_run (\<lambda>_. sample_driver) (sample_world sample_recorded (SessionRecorded sample_result) RUNNING [])
     [ReleaseTurn 0, UpdateEntry 0, CallStart (sample_input ''i2'')]
     (sample_world sample_settled (EntryUpdated sample_result) FINISHED [sample_start])"
proof -
  let ?w = "sample_world sample_recorded (SessionRecorded sample_result) RUNNING []"
  have r1: "runtime_run (\<lambda>_. sample_driver) ?w [ReleaseTurn 0] (sample_world sample_recorded (Released sample_result) FINISHED [])"
    using run_snoc_short [OF run_start turn_released [of 0 ?w sample_result]]
    by (simp add: RECENT_INVOCATION_CAPACITY_def signal_of_def)
  have r2: "runtime_run (\<lambda>_. sample_driver) ?w [ReleaseTurn 0, UpdateEntry 0]
      (sample_world sample_settled (EntryUpdated sample_result) FINISHED [])"
    using run_snoc_short [OF r1 entry_updated [of 0 _ sample_result sample_result None]]
    by (simp add: RECENT_INVOCATION_CAPACITY_def delivered_result_def)
  have "start_check sample_driver sample_settled (sample_input ''i2'') False = Inr ()" by code_simp
  then show ?thesis
    using run_snoc_short [OF r2 call_start [of _ _ "sample_input ''i2''" False]] by (simp add: RECENT_INVOCATION_CAPACITY_def)
qed

lemma sample_admit:
  "admit sample_settled (sample_tasks (EntryUpdated sample_result) FINISHED) (sample_input ''i2'') False False
     = (Admitted (Some ''s''), snd (admit sample_settled (sample_tasks (EntryUpdated sample_result) FINISHED) (sample_input ''i2'') False False))"
  by (simp add: admit_def Let_def RuntimeEntry_new_def TurnInput_new_def record_session_def owns_def finish_turn_def
      remember_invocation_def evict_while_eq RECENT_INVOCATION_CAPACITY_def)

theorem next_turn_resumes_session_witness:
  "\<exists>w. runtime_step (\<lambda>_. sample_driver) (sample_world sample_settled (EntryUpdated sample_result) FINISHED [sample_start])
        (AdmitTurn (InvocationId ''i2'')) w
     \<and> (\<exists>input. input_invocation_id input = InvocationId ''i2'' \<and>
       w_tasks w = sample_tasks (EntryUpdated sample_result) FINISHED
         @ [TurnTask_new (InvocationId ''i2'') (build_request sample_spec sample_driver input (Some ''s''))])"
proof -
  let ?w2 = "sample_world sample_settled (EntryUpdated sample_result) FINISHED [sample_start]"
  have "input_invocation_id (sample_input ''i2'') = InvocationId ''i2''" by (simp add: TurnInput_new_def)
  then obtain w3 where w3: "runtime_step (\<lambda>_. sample_driver) ?w2 (AdmitTurn (InvocationId ''i2'')) w3"
    using admitted [of ?w2 "[]" "sample_input ''i2''" False False "[]", OF _ _ refl, of "Some ''s''" _ "\<lambda>_. sample_driver"]
      sample_admit that by fastforce
  have "prompt (sample_world sample_entry (ExecutorReturned sample_result (Some ''s'')) RUNNING [])"
    by (rule prompt_short) (simp add: RECENT_INVOCATION_CAPACITY_def)
  with next_turn_resumes_session [OF sample_returned _ _ _ sample_session_recorded sample_settles _ w3]
  show ?thesis using w3 by auto
qed

end
