(* ===== verification/Protocol.thy ===== *)
theory Protocol
  imports Invocations
begin

text \<open>
  Model of the versioned wire contract of \<^verbatim>\<open>src/protocol.rs\<close>: its frames, version negotiation and
  the bounded codec. The JSON codec is third-party code: \<open>to_vec\<close> and \<open>from_slice\<close> are parameters
  of the encoding functions, and the round trips assume only that decoding inverts encoding.
\<close>

section \<open>The code\<close>

definition PROTOCOL_VERSION_V1 :: u16 where "PROTOCOL_VERSION_V1 = 1"
definition PROTOCOL_VERSION_V2 :: u16 where "PROTOCOL_VERSION_V2 = 2"
definition PROTOCOL_VERSION_V3 :: u16 where "PROTOCOL_VERSION_V3 = 3"
definition PROTOCOL_VERSION_V4 :: u16 where "PROTOCOL_VERSION_V4 = 4"

definition SUPPORTED_PROTOCOL_VERSIONS :: "u16 list" where
  "SUPPORTED_PROTOCOL_VERSIONS = [PROTOCOL_VERSION_V4, PROTOCOL_VERSION_V3, PROTOCOL_VERSION_V2, PROTOCOL_VERSION_V1]"

definition MAX_PROTOCOL_FRAME_BYTES :: usize where "MAX_PROTOCOL_FRAME_BYTES = 2 * 1024 * 1024"
definition DEFAULT_PROTOCOL_REPLAY_EVENTS :: usize where "DEFAULT_PROTOCOL_REPLAY_EVENTS = 2048"
definition MAX_REQUEST_ID_BYTES :: usize where "MAX_REQUEST_ID_BYTES = 256"

datatype ProtocolSecret = ProtocolSecret (protocol_expose: string)

definition debug_protocol_secret :: "ProtocolSecret \<Rightarrow> string" where
  "debug_protocol_secret secret = ''ProtocolSecret([REDACTED])''"

record ProtocolEnvironmentVariable =
  var_name :: string
  var_value :: ProtocolSecret
  var_diagnostic_secret :: "bool option"

record ProtocolSandboxSelection =
  sel_backend :: string
  sel_profile_id :: "string option"
  sel_profile_revision :: "string option"
  sel_required_capabilities :: SandboxCapabilities

record ProtocolRuntimeSpec =
  pspec_runtime_id :: RuntimeId
  pspec_provider :: Provider
  pspec_working_directory :: path
  pspec_model :: "string option"
  pspec_reasoning :: "string option"
  pspec_permission_mode :: PermissionMode
  pspec_harness_options :: "(string, string) btreemap"
  pspec_launch_context :: LaunchContext
  pspec_auto_compaction :: AutoCompactionPolicy
  pspec_provider_session_id :: "string option"
  pspec_turn_timeout_ms :: u64
  pspec_interaction_timeout_ms :: u64
  pspec_tool_process_policy :: ToolProcessPolicy
  pspec_environment :: "ProtocolEnvironmentVariable list"
  pspec_sandbox :: "ProtocolSandboxSelection option"

record ProtocolTurnInput =
  pinput_invocation_id :: InvocationId
  pinput_invocation_kind :: RuntimeInvocationKind
  pinput_prompt :: string
  pinput_provenance :: TurnProvenance
  pinput_model :: "string option"
  pinput_reasoning :: "string option"
  pinput_permission_mode :: "PermissionMode option"
  pinput_harness_options :: "(string, string) btreemap option"
  pinput_launch_context :: "LaunchContext option"
  pinput_auto_compaction :: "AutoCompactionPolicy option"
  pinput_max_turns :: "u32 option"
  pinput_timeout_ms :: "u64 option"
  pinput_interaction_timeout_ms :: "u64 option"
  pinput_tool_process_policy :: "ToolProcessPolicy option"
  pinput_environment :: "ProtocolEnvironmentVariable list"
  pinput_attachments :: "TurnAttachment list"
  pinput_interaction_policy :: InteractionPolicy
  pinput_request_session_title :: "string option"
  pinput_keep_background_work :: bool

definition duration_from_millis :: "u64 \<Rightarrow> duration" where
  "duration_from_millis ms = unat ms * 1000000"

definition pinput_timeout :: "ProtocolTurnInput \<Rightarrow> duration option" where
  "pinput_timeout input = map_option duration_from_millis (pinput_timeout_ms input)"

definition pinput_interaction_timeout :: "ProtocolTurnInput \<Rightarrow> duration option" where
  "pinput_interaction_timeout input = map_option duration_from_millis (pinput_interaction_timeout_ms input)"

record ProtocolHandshake =
  handshake_supported_versions :: "u16 list"
  handshake_client_name :: string

record ProtocolHandshakeAccepted =
  accepted_selected_version :: u16
  accepted_host_name :: string

datatype (plugins only: code size) ClientRequest =
    Acquire ProtocolRuntimeSpec
  | Attach RuntimeId "(InvocationId, u64) btreemap" usize
  | StartTurn RuntimeId ProtocolTurnInput
  | Interrupt RuntimeId InvocationId
  | Dispose RuntimeId
  | Health RuntimeId
  | ResolveApproval RuntimeId InvocationId string ApprovalDecision
  | ResolveQuestion RuntimeId InvocationId string QuestionAnswer
  | DeclineQuestion RuntimeId InvocationId string

record ClientFrame =
  frame_version :: u16
  frame_request_id :: string
  frame_request :: ClientRequest

datatype (plugins only: code size) HostResponse =
    RuntimeReady Provider RuntimeHealth RuntimeDriverCapabilities "(RuntimeConfigurationKey, ConfigurationImpact) btreemap"
  | TurnAccepted RuntimeId InvocationId
  | TurnCompleted RuntimeId InvocationId TurnResult
  | Interrupted InterruptOutcome
  | Disposed DisposeOutcome
  | Health RuntimeHealth
  | ReplayComplete RuntimeId bool
  | InteractionResolved string

datatype (plugins only: code size) HostFrame =
    Response string HostResponse
  | Failure string RuntimeFailure
  | Event EventEnvelope

text \<open>A \<open>serde_json::Error\<close> is its message.\<close>

type_synonym codec_error = string

datatype ProtocolCodecError =
    FrameTooLarge usize usize
  | Encode codec_error
  | Decode codec_error
  | UnsupportedVersion u16
  | FeatureRequiresVersion string u16 u16
  | InvalidRequestId string

definition negotiate_version :: "u16 list \<Rightarrow> u16 option" where
  "negotiate_version client_versions = find (\<lambda>version. version \<in> set SUPPORTED_PROTOCOL_VERSIONS) client_versions"

definition validate_frame_size :: "usize \<Rightarrow> ProtocolCodecError + unit" where
  "validate_frame_size actual =
     (if actual > MAX_PROTOCOL_FRAME_BYTES then Inl (FrameTooLarge MAX_PROTOCOL_FRAME_BYTES actual) else Inr ())"

definition has_launch_context :: "ClientRequest \<Rightarrow> bool" where
  "has_launch_context request =
     (case request of
        Acquire spec \<Rightarrow> pspec_launch_context spec \<noteq> LaunchContext_default
      | StartTurn _ input \<Rightarrow>
          (case pinput_launch_context input of None \<Rightarrow> False | Some context \<Rightarrow> context \<noteq> LaunchContext_default)
      | _ \<Rightarrow> False)"

definition has_agent_provenance :: "ClientRequest \<Rightarrow> bool" where
  "has_agent_provenance request =
     (case request of
        StartTurn _ input \<Rightarrow> (case pinput_provenance input of Agent _ \<Rightarrow> True | User \<Rightarrow> False)
      | _ \<Rightarrow> False)"

definition has_context_compaction :: "ClientRequest \<Rightarrow> bool" where
  "has_context_compaction request =
     (case request of
        Acquire spec \<Rightarrow> pspec_auto_compaction spec \<noteq> ProviderDefault
      | StartTurn _ input \<Rightarrow> pinput_invocation_kind input = ManualCompaction \<or> pinput_auto_compaction input \<noteq> None
      | _ \<Rightarrow> False)"

definition validate_client_frame :: "ClientFrame \<Rightarrow> ProtocolCodecError + unit" where
  "validate_client_frame frame =
     (if frame_version frame \<notin> set SUPPORTED_PROTOCOL_VERSIONS then Inl (UnsupportedVersion (frame_version frame))
      else if frame_request_id frame = [] then Inl (InvalidRequestId ''cannot be empty'')
      else if length (frame_request_id frame) > MAX_REQUEST_ID_BYTES then Inl (InvalidRequestId ''exceeds 256 bytes'')
      else if NUL \<in> set (frame_request_id frame) then Inl (InvalidRequestId ''cannot contain a NUL byte'')
      else if has_launch_context (frame_request frame) \<and> frame_version frame < PROTOCOL_VERSION_V2
      then Inl (FeatureRequiresVersion ''launch_context'' PROTOCOL_VERSION_V2 (frame_version frame))
      else if has_agent_provenance (frame_request frame) \<and> frame_version frame < PROTOCOL_VERSION_V3
      then Inl (FeatureRequiresVersion ''agent_relay_provenance'' PROTOCOL_VERSION_V3 (frame_version frame))
      else if has_context_compaction (frame_request frame) \<and> frame_version frame < PROTOCOL_VERSION_V4
      then Inl (FeatureRequiresVersion ''context_compaction'' PROTOCOL_VERSION_V4 (frame_version frame))
      else Inr ())"

definition encode_bounded :: "('a \<Rightarrow> codec_error + u8 list) \<Rightarrow> 'a \<Rightarrow> ProtocolCodecError + u8 list" where
  "encode_bounded to_vec x =
     and_then (map_err Encode (to_vec x)) (\<lambda>bs.
     and_then (validate_frame_size (length bs)) (\<lambda>_. Inr bs))"

definition encode_client_frame :: "(ClientFrame \<Rightarrow> codec_error + u8 list) \<Rightarrow> ClientFrame \<Rightarrow> ProtocolCodecError + u8 list" where
  "encode_client_frame to_vec frame =
     and_then (validate_client_frame frame) (\<lambda>_. encode_bounded to_vec frame)"

definition decode_client_frame :: "(u8 list \<Rightarrow> codec_error + ClientFrame) \<Rightarrow> u8 list \<Rightarrow> ProtocolCodecError + ClientFrame" where
  "decode_client_frame from_slice bs =
     and_then (validate_frame_size (length bs)) (\<lambda>_.
     and_then (map_err Decode (from_slice bs)) (\<lambda>frame.
     and_then (validate_client_frame frame) (\<lambda>_. Inr frame)))"

definition encode_host_frame :: "(HostFrame \<Rightarrow> codec_error + u8 list) \<Rightarrow> HostFrame \<Rightarrow> ProtocolCodecError + u8 list" where
  "encode_host_frame to_vec frame = encode_bounded to_vec frame"

definition decode_host_frame :: "(u8 list \<Rightarrow> codec_error + HostFrame) \<Rightarrow> u8 list \<Rightarrow> ProtocolCodecError + HostFrame" where
  "decode_host_frame from_slice bs =
     and_then (validate_frame_size (length bs)) (\<lambda>_. map_err Decode (from_slice bs))"

section \<open>Versions and features\<close>

text \<open>The first version in which a request may be sent.\<close>

definition required_version :: "ClientRequest \<Rightarrow> u16" where
  "required_version request =
     (if has_context_compaction request then PROTOCOL_VERSION_V4
      else if has_agent_provenance request then PROTOCOL_VERSION_V3
      else if has_launch_context request then PROTOCOL_VERSION_V2 else PROTOCOL_VERSION_V1)"

lemmas version_defs = PROTOCOL_VERSION_V1_def PROTOCOL_VERSION_V2_def PROTOCOL_VERSION_V3_def PROTOCOL_VERSION_V4_def
  SUPPORTED_PROTOCOL_VERSIONS_def

lemma supported_range: "v \<in> set SUPPORTED_PROTOCOL_VERSIONS \<longleftrightarrow> v = 1 \<or> v = 2 \<or> v = 3 \<or> v = 4"
  by (auto simp: version_defs)


lemma negotiate_version_Some:
  "negotiate_version vs = Some v \<Longrightarrow> v \<in> set vs \<and> v \<in> set SUPPORTED_PROTOCOL_VERSIONS"
  by (auto simp: negotiate_version_def find_Some_iff)

lemma negotiate_version_None:
  "negotiate_version vs = None \<longleftrightarrow> set vs \<inter> set SUPPORTED_PROTOCOL_VERSIONS = {}"
  by (auto simp: negotiate_version_def find_None_iff)

section \<open>Round trips\<close>

text \<open>What the frames rely on of the JSON library: decoding inverts encoding.\<close>

definition inverse_codec :: "('a \<Rightarrow> codec_error + u8 list) \<Rightarrow> (u8 list \<Rightarrow> codec_error + 'a) \<Rightarrow> bool" where
  "inverse_codec to_vec from_slice \<longleftrightarrow> (\<forall>x bs. to_vec x = Inr bs \<longrightarrow> from_slice bs = Inr x)"

lemma encode_bounded_Inr:
  assumes "encode_bounded to_vec x = Inr bs"
  shows "to_vec x = Inr bs" "length bs \<le> MAX_PROTOCOL_FRAME_BYTES"
  using assms by (auto simp: encode_bounded_def validate_frame_size_def result_simps split: if_splits)

lemma client_frame_roundtrip:
  assumes "inverse_codec to_vec from_slice" "encode_client_frame to_vec frame = Inr bs"
  shows "decode_client_frame from_slice bs = Inr frame" "length bs \<le> MAX_PROTOCOL_FRAME_BYTES"
proof -
  from assms(2) have e: "encode_bounded to_vec frame = Inr bs" and v: "validate_client_frame frame = Inr ()"
    by (auto simp: encode_client_frame_def result_simps)
  note b = encode_bounded_Inr [OF e]
  have "from_slice bs = Inr frame" using assms(1) b(1) by (auto simp: inverse_codec_def)
  with v b(2) show "decode_client_frame from_slice bs = Inr frame" "length bs \<le> MAX_PROTOCOL_FRAME_BYTES"
    by (simp_all add: decode_client_frame_def validate_frame_size_def)
qed

lemma host_frame_roundtrip:
  assumes "inverse_codec to_vec from_slice" "encode_host_frame to_vec frame = Inr bs"
  shows "decode_host_frame from_slice bs = Inr frame" "length bs \<le> MAX_PROTOCOL_FRAME_BYTES"
proof -
  note b = encode_bounded_Inr [OF assms(2) [unfolded encode_host_frame_def]]
  have "from_slice bs = Inr frame" using assms(1) b(1) by (auto simp: inverse_codec_def)
  with b(2) show "decode_host_frame from_slice bs = Inr frame" "length bs \<le> MAX_PROTOCOL_FRAME_BYTES"
    by (simp_all add: decode_host_frame_def validate_frame_size_def)
qed

end
