(* ===== verification/ProtocolHost.thy ===== *)
theory ProtocolHost
  imports Protocol Journal Interactions
begin

text \<open>
  Model of the remote host dispatcher of \<^verbatim>\<open>src/protocol_host.rs\<close>: the idempotent request cache with
  its guards, the conversions from wire values, the handler of every client request and the pump
  that forwards the events of a turn. The runtime client is a trait object: its operations are
  the record \<open>RuntimeClientOps\<close>. The journal is the in-memory one.
\<close>

section \<open>Errors and limits\<close>

definition REQUEST_CACHE_CAPACITY :: usize where "REQUEST_CACHE_CAPACITY = 1024"
definition PENDING_REQUEST_CAPACITY :: usize where "PENDING_REQUEST_CAPACITY = 256"

datatype HostFrameSinkError = HostFrameSinkError (sink_error_message: string)

datatype ProtocolSandboxResolutionError =
    BackendNotFound string
  | PermissionDenied string
  | InvalidSelection string

fun display_resolution_error :: "ProtocolSandboxResolutionError \<Rightarrow> string" where
  "display_resolution_error (BackendNotFound backend) =
     ''sandbox backend `'' @ backend @ ''` is not configured on this runtime host''"
| "display_resolution_error (PermissionDenied message) = ''sandbox selection is not permitted: '' @ message"
| "display_resolution_error (InvalidSelection message) = ''sandbox selection is invalid: '' @ message"

definition reject_sandbox :: "ProtocolSandboxSelection \<Rightarrow> ProtocolSandboxResolutionError + SandboxRequest" where
  "reject_sandbox selection = Inl (BackendNotFound (sel_backend selection))"

datatype RemoteRuntimeHostError =
    InvalidFrame ProtocolCodecError
  | RequestIdConflict string
  | RequestCapacityExceeded usize
  | ResponseDelivery string HostFrameSinkError

record RemoteRuntimeHostLimits =
  host_completed_request_capacity :: usize
  host_pending_request_capacity :: usize

definition RemoteRuntimeHostLimits_default :: RemoteRuntimeHostLimits where
  "RemoteRuntimeHostLimits_default =
     \<lparr>host_completed_request_capacity = REQUEST_CACHE_CAPACITY,
      host_pending_request_capacity = PENDING_REQUEST_CAPACITY\<rparr>"

section \<open>The request cache\<close>

type_synonym fingerprint = "u8 list"

text \<open>
  A pending entry holds the sender of a watch channel; the channels are a list of cells and a
  sender or receiver is the number of its cell.
\<close>

datatype (plugins only: code size) CacheEntry =
    Pending fingerprint nat
  | Complete fingerprint "HostFrame list"

record RequestCache =
  cache_entries :: "(string, CacheEntry) hashmap"
  cache_order :: "string list"
  cache_maximum :: usize
  cache_pending :: usize
  cache_pending_maximum :: usize

definition RequestCache_new :: "RemoteRuntimeHostLimits \<Rightarrow> RequestCache" where
  "RequestCache_new limits =
     \<lparr>cache_entries = [], cache_order = [], cache_maximum = host_completed_request_capacity limits,
      cache_pending = 0, cache_pending_maximum = host_pending_request_capacity limits\<rparr>"

definition forget_completed :: "string \<Rightarrow> (string, CacheEntry) hashmap \<Rightarrow> (string, CacheEntry) hashmap" where
  "forget_completed expired entries =
     (case hm_get entries expired of Some (Complete _ _) \<Rightarrow> hm_remove expired entries | _ \<Rightarrow> entries)"

definition evict_completed :: "RequestCache \<Rightarrow> RequestCache" where
  "evict_completed cache =
     (case evict_while (cache_maximum cache) forget_completed (cache_order cache) (cache_entries cache) of
        (order, entries) \<Rightarrow> cache\<lparr>cache_order := order, cache_entries := entries\<rparr>)"

datatype (plugins only: code size) RequestClaim = Owner | Cached "HostFrame list" | Wait nat

definition claim_request ::
    "RequestCache \<Rightarrow> bool list \<Rightarrow> string \<Rightarrow> fingerprint
      \<Rightarrow> (RemoteRuntimeHostError + RequestClaim) \<times> RequestCache \<times> bool list" where
  "claim_request cache watches request_id fingerprint =
     (case hm_get (cache_entries cache) request_id of
        Some (Pending existing completed) \<Rightarrow>
          (if existing = fingerprint then Inr (Wait completed) else Inl (RequestIdConflict request_id), cache, watches)
      | Some (Complete existing frames) \<Rightarrow>
          (if existing = fingerprint then Inr (Cached frames) else Inl (RequestIdConflict request_id), cache, watches)
      | None \<Rightarrow>
          if cache_pending cache \<ge> cache_pending_maximum cache
          then (Inl (RequestCapacityExceeded (cache_pending_maximum cache)), cache, watches)
          else (Inr Owner,
                cache\<lparr>cache_entries := hm_insert request_id (Pending fingerprint (length watches)) (cache_entries cache),
                  cache_pending := cache_pending cache + 1\<rparr>,
                watches @ [False]))"

text \<open>\<open>PendingRequestGuard::complete\<close> and its \<open>drop\<close>; the second result is the channel that is notified.\<close>

definition pending_channel :: "RequestCache \<Rightarrow> string \<Rightarrow> fingerprint \<Rightarrow> nat option" where
  "pending_channel cache request_id fingerprint =
     (case hm_get (cache_entries cache) request_id of
        Some (Pending existing completed) \<Rightarrow> if existing = fingerprint then Some completed else None
      | _ \<Rightarrow> None)"

definition complete_request ::
    "RequestCache \<Rightarrow> bool list \<Rightarrow> string \<Rightarrow> fingerprint \<Rightarrow> HostFrame list \<Rightarrow> RequestCache \<times> bool list" where
  "complete_request cache watches request_id fingerprint frames =
     (case pending_channel cache request_id fingerprint of
        Some completed \<Rightarrow>
          (evict_completed (cache\<lparr>cache_pending := cache_pending cache - 1,
             cache_entries := hm_insert request_id (Complete fingerprint frames)
               (hm_remove request_id (cache_entries cache)),
             cache_order := cache_order cache @ [request_id]\<rparr>),
           watches[completed := True])
      | None \<Rightarrow>
          (case hm_get (cache_entries cache) request_id of
             Some entry \<Rightarrow>
               cache\<lparr>cache_entries := hm_insert request_id entry (hm_remove request_id (cache_entries cache))\<rparr>
           | None \<Rightarrow> cache, watches))"

definition abandon_request ::
    "RequestCache \<Rightarrow> bool list \<Rightarrow> string \<Rightarrow> fingerprint \<Rightarrow> RequestCache \<times> bool list" where
  "abandon_request cache watches request_id fingerprint =
     (case pending_channel cache request_id fingerprint of
        Some completed \<Rightarrow>
          (cache\<lparr>cache_entries := hm_remove request_id (cache_entries cache), cache_pending := cache_pending cache - 1\<rparr>,
           watches[completed := True])
      | None \<Rightarrow> (cache, watches))"

section \<open>Failures and conversions\<close>

definition protocol_failure ::
    "RuntimeId option \<Rightarrow> InvocationId option \<Rightarrow> RuntimeFailureKind \<Rightarrow> string \<Rightarrow> RuntimeFailure" where
  "protocol_failure runtime_id invocation_id kind message =
     \<lparr>failure_runtime_id = runtime_id, failure_invocation_id = invocation_id, failure_kind = kind,
      failure_retry = RetryAdvice.RequiresUserAction, failure_delivery = DeliveryState.NotSent,
      failure_message = message, failure_provider_code = None\<rparr>"

definition active_invocation_failure :: "RuntimeId \<Rightarrow> InvocationId \<Rightarrow> RuntimeFailure" where
  "active_invocation_failure runtime_id invocation_id =
     protocol_failure (Some runtime_id) (Some invocation_id) RuntimeFailureKind.RuntimeNotFound
       ''the active invocation is not attached to this runtime host''"

fun display_broker_error :: "InteractionBrokerError \<Rightarrow> string" where
  "display_broker_error (AlreadyResolved i) = ''interaction `'' @ i @ ''` was already resolved''"
| "display_broker_error (CapacityExceeded mx) =
     ''interaction broker already holds its maximum of '' @ decimal mx @ '' pending responses''"
| "display_broker_error (Expired i) = ''interaction `'' @ i @ ''` is no longer waiting for a response''"

definition interaction_failure :: "RuntimeId \<Rightarrow> InvocationId \<Rightarrow> InteractionBrokerError \<Rightarrow> RuntimeFailure" where
  "interaction_failure runtime_id invocation_id e =
     protocol_failure (Some runtime_id) (Some invocation_id) RuntimeFailureKind.InvalidRequest (display_broker_error e)"

fun display_journal_error :: "EventJournalError \<Rightarrow> string" where
  "display_journal_error (InvalidLimit field) = ''event journal limit `'' @ field @ ''` must be greater than zero''"
| "display_journal_error (UnsupportedSchema version) =
     ''event schema version '' @ decimal (unat version) @ '' is not supported''"
| "display_journal_error (SequenceGap rid i expected actual) =
     ''event sequence gap for runtime '' @ runtime_id_str rid @ '', invocation '' @ invocation_id_str i @
     '': expected '' @ decimal (unat expected) @ '', received '' @ decimal (unat actual)"
| "display_journal_error (SequenceConflict rid i sequence) =
     ''event sequence conflict for runtime '' @ runtime_id_str rid @ '', invocation '' @ invocation_id_str i @
     '' at sequence '' @ decimal (unat sequence)"
| "display_journal_error (ReplayWindowExpired rid i earliest) =
     ''replay window expired for runtime '' @ runtime_id_str rid @ '', invocation '' @ invocation_id_str i @
     ''; earliest retained sequence is '' @ decimal (unat earliest)"
| "display_journal_error (InvalidReplayLimit mx actual) =
     ''replay limit must be between 1 and '' @ decimal mx @ ''; received '' @ decimal actual"
| "display_journal_error (StateInvariant message) = ''event journal state invariant failed: '' @ message"

definition journal_failure :: "RuntimeId \<Rightarrow> EventJournalError \<Rightarrow> RuntimeFailure" where
  "journal_failure runtime_id e =
     \<lparr>failure_runtime_id = Some runtime_id, failure_invocation_id = None,
      failure_kind = RuntimeFailureKind.Indeterminate, failure_retry = RetryAdvice.RequiresUserAction,
      failure_delivery = DeliveryState.Accepted, failure_message = display_journal_error e,
      failure_provider_code = Some ''event_journal''\<rparr>"

definition protocol_environment :: "ProtocolEnvironmentVariable list \<Rightarrow> (string, SecretString) btreemap" where
  "protocol_environment variables =
     bt_from_list (map (\<lambda>v. (var_name v, SecretString (protocol_expose (var_value v)) (var_diagnostic_secret v))) variables)"

definition protocol_turn_input :: "ProtocolTurnInput \<Rightarrow> RuntimeFailure + TurnInput" where
  "protocol_turn_input input =
     (if pinput_timeout_ms input = Some 0 \<or> pinput_interaction_timeout_ms input = Some 0
      then Inl (protocol_failure None (Some (pinput_invocation_id input)) RuntimeFailureKind.InvalidRequest
             ''turn timeout overrides must be greater than zero'')
      else Inr ((TurnInput_new (pinput_invocation_id input) (pinput_prompt input))
        \<lparr>input_invocation_kind := pinput_invocation_kind input, input_provenance := pinput_provenance input,
         input_model := pinput_model input, input_reasoning := pinput_reasoning input,
         input_permission_mode := pinput_permission_mode input, input_harness_options := pinput_harness_options input,
         input_launch_context := pinput_launch_context input, input_auto_compaction := pinput_auto_compaction input,
         input_max_turns := pinput_max_turns input, input_timeout := pinput_timeout input,
         input_interaction_timeout := pinput_interaction_timeout input,
         input_tool_process_policy := pinput_tool_process_policy input,
         input_environment := protocol_environment (pinput_environment input),
         input_attachments := pinput_attachments input, input_interaction_policy := pinput_interaction_policy input,
         input_request_session_title := pinput_request_session_title input,
         input_keep_background_work := pinput_keep_background_work input\<rparr>))"

text \<open>\<open>resolve_sandbox\<close> is the application's sandbox resolver.\<close>

definition runtime_spec ::
    "(ProtocolSandboxSelection \<Rightarrow> ProtocolSandboxResolutionError + SandboxRequest)
      \<Rightarrow> ProtocolRuntimeSpec \<Rightarrow> RuntimeFailure + RuntimeSpec" where
  "runtime_spec resolve_sandbox spec =
     (let rid = pspec_runtime_id spec in
      if pspec_turn_timeout_ms spec = 0 \<or> pspec_interaction_timeout_ms spec = 0
      then Inl (protocol_failure (Some rid) None RuntimeFailureKind.InvalidRequest
             ''runtime timeouts must be greater than zero'')
      else and_then
        (case pspec_sandbox spec of
           None \<Rightarrow> Inr None
         | Some selection \<Rightarrow>
             (case resolve_sandbox selection of
                Inr sandbox \<Rightarrow> Inr (Some sandbox)
              | Inl e \<Rightarrow> Inl (protocol_failure (Some rid) None
                  (case e of PermissionDenied _ \<Rightarrow> RuntimeFailureKind.Permission
                   | _ \<Rightarrow> RuntimeFailureKind.CapabilityUnavailable) (display_resolution_error e))))
        (\<lambda>sandbox. Inr ((RuntimeSpec_new rid (pspec_provider spec) (pspec_working_directory spec))
          \<lparr>spec_model := pspec_model spec, spec_reasoning := pspec_reasoning spec,
           spec_permission_mode := pspec_permission_mode spec, spec_harness_options := pspec_harness_options spec,
           spec_launch_context := pspec_launch_context spec, spec_auto_compaction := pspec_auto_compaction spec,
           spec_provider_session_id := pspec_provider_session_id spec,
           spec_turn_timeout := duration_from_millis (pspec_turn_timeout_ms spec),
           spec_interaction_timeout := duration_from_millis (pspec_interaction_timeout_ms spec),
           spec_tool_process_policy := pspec_tool_process_policy spec,
           spec_environment := protocol_environment (pspec_environment spec), spec_sandbox := sandbox,
           spec_required_sandbox_capabilities :=
             (case pspec_sandbox spec of None \<Rightarrow> capabilities_NONE
              | Some selection \<Rightarrow> sel_required_capabilities selection)\<rparr>)))"

definition interaction_response :: "string \<Rightarrow> string \<Rightarrow> HostFrame list" where
  "interaction_response request_id interaction_id = [Response request_id (InteractionResolved interaction_id)]"

section \<open>The host\<close>

text \<open>
  The operations of a runtime client, of the handles it gives out and of the turns they start.
  \<open>'c\<close> is the state behind the client, \<open>'h\<close> a runtime handle, \<open>'t\<close> a turn handle.
\<close>

record ('c, 'h, 't) RuntimeClientOps =
  ops_acquire :: "'c \<Rightarrow> RuntimeSpec \<Rightarrow> (RuntimeFailure + 'h) \<times> 'c"
  ops_attach :: "'c \<Rightarrow> RuntimeId \<Rightarrow> RuntimeFailure + 'h"
  ops_dispose :: "'c \<Rightarrow> RuntimeId \<Rightarrow> (RuntimeFailure + DisposeOutcome) \<times> 'c"
  ops_runtime_id :: "'h \<Rightarrow> RuntimeId"
  ops_provider :: "'h \<Rightarrow> Provider"
  ops_driver :: "'h \<Rightarrow> RuntimeDriverCapabilities"
  ops_impact :: "'h \<Rightarrow> RuntimeConfigurationKey \<Rightarrow> ConfigurationImpact"
  ops_health :: "'c \<Rightarrow> 'h \<Rightarrow> RuntimeHealth"
  ops_start_turn :: "'c \<Rightarrow> 'h \<Rightarrow> TurnInput \<Rightarrow> bool \<Rightarrow> (RuntimeFailure + 't) \<times> 'c"
  ops_interrupt :: "'c \<Rightarrow> 't \<Rightarrow> InterruptOutcome \<times> 'c"

text \<open>\<open>active_pump_started\<close>: the start signal of the pump was taken and sent.\<close>

record 't ActiveInvocation =
  active_turn :: 't
  active_broker :: "InteractionBroker option"
  active_pump_started :: bool

record ('c, 'h, 't, 's) RemoteRuntimeHost =
  host_client :: 'c
  host_journal :: InMemoryEventJournal
  host_runtimes :: "(RuntimeId, 'h) hashmap"
  host_active :: "(RuntimeId \<times> InvocationId, 't ActiveInvocation) hashmap"
  host_live_sinks :: "(RuntimeId, 's) hashmap"

definition RemoteRuntimeHost_with_limits ::
    "'c \<Rightarrow> InMemoryEventJournal \<Rightarrow> RemoteRuntimeHostLimits
      \<Rightarrow> string + ('c, 'h, 't, 's) RemoteRuntimeHost \<times> RequestCache" where
  "RemoteRuntimeHost_with_limits client journal limits =
     (if host_completed_request_capacity limits = 0 \<or> host_pending_request_capacity limits = 0
      then Inl ''request capacities must be greater than zero''
      else Inr (\<lparr>host_client = client, host_journal = journal, host_runtimes = [], host_active = [],
                 host_live_sinks = []\<rparr>, RequestCache_new limits))"

definition request_requires_deduplication :: "ClientRequest \<Rightarrow> bool" where
  "request_requires_deduplication request =
     (case request of Attach _ _ _ \<Rightarrow> False | ClientRequest.Health _ \<Rightarrow> False | _ \<Rightarrow> True)"

definition configuration_keys :: "RuntimeConfigurationKey list" where
  "configuration_keys = [RuntimeConfigurationKey.Provider, WorkingDirectory, Model, Reasoning,
     RuntimeConfigurationKey.PermissionMode, HarnessOptions, RuntimeConfigurationKey.LaunchContext, AutoCompaction,
     Environment, Timeouts, Sandbox]"

definition runtime_ready :: "('c, 'h, 't) RuntimeClientOps \<Rightarrow> 'c \<Rightarrow> 'h \<Rightarrow> HostResponse" where
  "runtime_ready ops client runtime =
     RuntimeReady (ops_provider ops runtime) (ops_health ops client runtime) (ops_driver ops runtime)
       (map (\<lambda>key. (key, ops_impact ops runtime key)) configuration_keys)"

definition runtime_handle ::
    "('c, 'h, 't) RuntimeClientOps \<Rightarrow> ('c, 'h, 't, 's) RemoteRuntimeHost \<Rightarrow> RuntimeId
      \<Rightarrow> (RuntimeFailure + 'h) \<times> ('c, 'h, 't, 's) RemoteRuntimeHost" where
  "runtime_handle ops host rid =
     (case hm_get (host_runtimes host) rid of
        Some handle \<Rightarrow> (Inr handle, host)
      | None \<Rightarrow>
          (case ops_attach ops (host_client host) rid of
             Inl failure \<Rightarrow> (Inl failure, host)
           | Inr handle \<Rightarrow> (Inr handle, host\<lparr>host_runtimes := hm_insert rid handle (host_runtimes host)\<rparr>)))"

text \<open>The broker of an active invocation, used and put back: the registries are shared by reference.\<close>

definition with_broker ::
    "('c, 'h, 't, 's) RemoteRuntimeHost \<Rightarrow> RuntimeId \<Rightarrow> InvocationId
      \<Rightarrow> (InteractionBroker \<Rightarrow> (InteractionBrokerError + InteractionResolution) \<times> InteractionBroker)
      \<Rightarrow> (RuntimeFailure + unit) \<times> ('c, 'h, 't, 's) RemoteRuntimeHost" where
  "with_broker host rid i use =
     (case hm_get (host_active host) (rid, i) of
        None \<Rightarrow> (Inl (active_invocation_failure rid i), host)
      | Some active \<Rightarrow>
          (case active_broker active of
             None \<Rightarrow> (Inl (active_invocation_failure rid i), host)
           | Some broker \<Rightarrow>
               (case use broker of
                  (outcome, broker') \<Rightarrow>
                    (and_then (map_err (interaction_failure rid i) outcome) (\<lambda>_. Inr ()),
                     host\<lparr>host_active := hm_insert (rid, i) (active\<lparr>active_broker := Some broker'\<rparr>)
                       (host_active host)\<rparr>))))"

definition dispose_runtime ::
    "('c, 'h, 't) RuntimeClientOps \<Rightarrow> ('c, 'h, 't, 's) RemoteRuntimeHost \<Rightarrow> RuntimeId
      \<Rightarrow> (RuntimeFailure + DisposeOutcome) \<times> ('c, 'h, 't, 's) RemoteRuntimeHost" where
  "dispose_runtime ops host rid =
     (case ops_dispose ops (host_client host) rid of
        (Inl failure, client) \<Rightarrow> (Inl failure, host\<lparr>host_client := client\<rparr>)
      | (Inr outcome, client) \<Rightarrow>
          (Inr outcome,
           host\<lparr>host_client := client,
             host_active := filter (\<lambda>((id, _), _). id \<noteq> rid) (host_active host),
             host_runtimes := hm_remove rid (host_runtimes host),
             host_live_sinks := hm_remove rid (host_live_sinks host),
             host_journal := journal_remove_runtime (host_journal host) rid\<rparr>))"

fun dispose_all ::
    "('c, 'h, 't) RuntimeClientOps \<Rightarrow> ('c, 'h, 't, 's) RemoteRuntimeHost \<Rightarrow> RuntimeId list
      \<Rightarrow> (RuntimeFailure + unit) \<times> ('c, 'h, 't, 's) RemoteRuntimeHost" where
  "dispose_all ops host [] = (Inr (), host)"
| "dispose_all ops host (rid # rids) =
     (case dispose_runtime ops host rid of
        (Inl failure, host') \<Rightarrow> (Inl failure, host')
      | (Inr _, host') \<Rightarrow> dispose_all ops host' rids)"

definition dispose_all_runtimes ::
    "('c, 'h, 't) RuntimeClientOps \<Rightarrow> ('c, 'h, 't, 's) RemoteRuntimeHost
      \<Rightarrow> (RuntimeFailure + unit) \<times> ('c, 'h, 't, 's) RemoteRuntimeHost" where
  "dispose_all_runtimes ops host = dispose_all ops host (map fst (host_runtimes host))"

text \<open>
  The three parts of an attach: the handle is looked up and the client's sink registered under the
  delivery gate, then the journal is read. The gate stays taken until the frames are delivered.
\<close>

definition attach_register ::
    "('c, 'h, 't) RuntimeClientOps \<Rightarrow> ('c, 'h, 't, 's) RemoteRuntimeHost \<Rightarrow> RuntimeId \<Rightarrow> 's
      \<Rightarrow> (RuntimeFailure + HostResponse) \<times> ('c, 'h, 't, 's) RemoteRuntimeHost" where
  "attach_register ops host rid sink =
     (case ops_attach ops (host_client host) rid of
        Inl failure \<Rightarrow> (Inl failure, host)
      | Inr handle \<Rightarrow>
          (Inr (runtime_ready ops (host_client host) handle),
           host\<lparr>host_live_sinks := hm_insert rid sink (host_live_sinks host),
             host_runtimes := hm_insert rid handle (host_runtimes host)\<rparr>))"

definition attach_replay ::
    "InMemoryEventJournal \<Rightarrow> string \<Rightarrow> RuntimeId \<Rightarrow> (InvocationId, u64) btreemap \<Rightarrow> usize \<Rightarrow> HostResponse
      \<Rightarrow> RuntimeFailure + HostFrame list" where
  "attach_replay journal request_id rid after limit response =
     (case journal_replay journal \<lparr>replay_runtime_id = rid, replay_after = after,
             replay_only_invocations = Some (map fst after), replay_limit = limit\<rparr> of
        Inl e \<Rightarrow> Inl (journal_failure rid e)
      | Inr batch \<Rightarrow>
          Inr (Response request_id response # map Event (batch_events batch)
            @ [Response request_id (ReplayComplete rid (batch_truncated batch))]))"

definition start_turn_request ::
    "('c, 'h, 't) RuntimeClientOps \<Rightarrow> ('c, 'h, 't, 's) RemoteRuntimeHost \<Rightarrow> RuntimeId \<Rightarrow> ProtocolTurnInput \<Rightarrow> 's
      \<Rightarrow> (RuntimeFailure + InvocationId) \<times> ('c, 'h, 't, 's) RemoteRuntimeHost" where
  "start_turn_request ops host rid pinput sink =
     (case runtime_handle ops host rid of
        (Inl failure, host') \<Rightarrow> (Inl failure, host')
      | (Inr handle, host') \<Rightarrow>
          (case protocol_turn_input pinput of
             Inl failure \<Rightarrow> (Inl failure, host')
           | Inr input \<Rightarrow>
               (let broker = (if input_interaction_policy input = RequireHandler then Some InteractionBroker_default else None) in
                case ops_start_turn ops (host_client host') handle input (broker \<noteq> None) of
                  (Inl failure, client) \<Rightarrow> (Inl failure, host'\<lparr>host_client := client\<rparr>)
                | (Inr turn, client) \<Rightarrow>
                    (Inr (input_invocation_id input),
                     host'\<lparr>host_client := client,
                       host_active := hm_insert (rid, input_invocation_id input)
                         \<lparr>active_turn = turn, active_broker = broker, active_pump_started = False\<rparr> (host_active host'),
                       host_live_sinks := hm_insert rid sink (host_live_sinks host')\<rparr>))))"

definition execute ::
    "('c, 'h, 't) RuntimeClientOps \<Rightarrow> (ProtocolSandboxSelection \<Rightarrow> ProtocolSandboxResolutionError + SandboxRequest)
      \<Rightarrow> ('c, 'h, 't, 's) RemoteRuntimeHost \<Rightarrow> ClientFrame \<Rightarrow> 's
      \<Rightarrow> (RuntimeFailure + HostFrame list) \<times> ('c, 'h, 't, 's) RemoteRuntimeHost" where
  "execute ops resolve_sandbox host frame sink =
     (let request_id = frame_request_id frame;
          reply = (\<lambda>response. Inr [Response request_id response])
      in case frame_request frame of
        Acquire pspec \<Rightarrow>
          (case runtime_spec resolve_sandbox pspec of
             Inl failure \<Rightarrow> (Inl failure, host)
           | Inr spec \<Rightarrow>
               (case ops_acquire ops (host_client host) spec of
                  (Inl failure, client) \<Rightarrow> (Inl failure, host\<lparr>host_client := client\<rparr>)
                | (Inr handle, client) \<Rightarrow>
                    (reply (runtime_ready ops client handle),
                     host\<lparr>host_client := client,
                       host_runtimes := hm_insert (ops_runtime_id ops handle) handle (host_runtimes host)\<rparr>)))
      | Attach rid after limit \<Rightarrow>
          (case attach_register ops host rid sink of
             (Inl failure, host') \<Rightarrow> (Inl failure, host')
           | (Inr response, host') \<Rightarrow>
               (attach_replay (host_journal host') request_id rid after limit response, host'))
      | StartTurn rid pinput \<Rightarrow>
          (case start_turn_request ops host rid pinput sink of
             (Inl failure, host') \<Rightarrow> (Inl failure, host')
           | (Inr i, host') \<Rightarrow> (reply (TurnAccepted rid i), host'))
      | Interrupt rid i \<Rightarrow>
          (case hm_get (host_active host) (rid, i) of
             None \<Rightarrow> (Inl (active_invocation_failure rid i), host)
           | Some active \<Rightarrow>
               (case ops_interrupt ops (host_client host) (active_turn active) of
                  (outcome, client) \<Rightarrow> (reply (HostResponse.Interrupted outcome), host\<lparr>host_client := client\<rparr>)))
      | Dispose rid \<Rightarrow>
          (case dispose_runtime ops host rid of
             (Inl failure, host') \<Rightarrow> (Inl failure, host')
           | (Inr outcome, host') \<Rightarrow> (reply (HostResponse.Disposed outcome), host'))
      | ClientRequest.Health rid \<Rightarrow>
          (case runtime_handle ops host rid of
             (Inl failure, host') \<Rightarrow> (Inl failure, host')
           | (Inr handle, host') \<Rightarrow>
               (reply (HostResponse.Health (ops_health ops (host_client host') handle)), host'))
      | ResolveApproval rid i interaction_id decision \<Rightarrow>
          (case with_broker host rid i (\<lambda>b. resolve_approval b interaction_id decision) of
             (Inl failure, host') \<Rightarrow> (Inl failure, host')
           | (Inr _, host') \<Rightarrow> (Inr (interaction_response request_id interaction_id), host'))
      | ResolveQuestion rid i interaction_id answer \<Rightarrow>
          (case with_broker host rid i (\<lambda>b. resolve_question b interaction_id answer) of
             (Inl failure, host') \<Rightarrow> (Inl failure, host')
           | (Inr _, host') \<Rightarrow> (Inr (interaction_response request_id interaction_id), host'))
      | DeclineQuestion rid i interaction_id \<Rightarrow>
          (case with_broker host rid i (\<lambda>b. decline_question b interaction_id) of
             (Inl failure, host') \<Rightarrow> (Inl failure, host')
           | (Inr _, host') \<Rightarrow> (Inr (interaction_response request_id interaction_id), host')))"

text \<open>The frames a dispatch delivers: a failure of the handler is one failure frame.\<close>

definition execution_frames :: "string \<Rightarrow> RuntimeFailure + HostFrame list \<Rightarrow> HostFrame list" where
  "execution_frames request_id result =
     (case result of Inr frames \<Rightarrow> frames | Inl failure \<Rightarrow> [Failure request_id failure])"

definition release_turn_pump :: "('c, 'h, 't, 's) RemoteRuntimeHost \<Rightarrow> ClientRequest \<Rightarrow> ('c, 'h, 't, 's) RemoteRuntimeHost" where
  "release_turn_pump host request =
     (case request of
        StartTurn rid pinput \<Rightarrow>
          (case hm_get (host_active host) (rid, pinput_invocation_id pinput) of
             None \<Rightarrow> host
           | Some active \<Rightarrow>
               host\<lparr>host_active := hm_insert (rid, pinput_invocation_id pinput)
                 (active\<lparr>active_pump_started := True\<rparr>) (host_active host)\<rparr>)
      | _ \<Rightarrow> host)"

text \<open>
  \<open>send_direct_frames\<close>: one outcome of the sink per frame, \<open>None\<close> for a timeout. The result is the
  frames delivered and the error that stopped the loop.
\<close>

fun send_direct_frames ::
    "string \<Rightarrow> (HostFrameSinkError + unit) option list \<Rightarrow> HostFrame list
      \<Rightarrow> (RemoteRuntimeHostError + unit) \<times> HostFrame list" where
  "send_direct_frames request_id outcomes [] = (Inr (), [])"
| "send_direct_frames request_id outcomes (frame # frames) =
     (case outcomes of
        Some (Inr _) # rest \<Rightarrow>
          (case send_direct_frames request_id rest frames of (res, delivered) \<Rightarrow> (res, frame # delivered))
      | Some (Inl source) # _ \<Rightarrow> (Inl (ResponseDelivery request_id source), [])
      | _ \<Rightarrow> (Inl (ResponseDelivery request_id
          (HostFrameSinkError ''direct response delivery exceeded 5 seconds'')), []))"

text \<open>
  \<open>send_live\<close> to the sink registered for the runtime, with the delivery gate held. A sink that
  fails or times out is removed when it is still the registered one: \<open>later\<close> is the host after the
  attempt.
\<close>

definition drop_failed_sink :: "('c, 'h, 't, 's) RemoteRuntimeHost \<Rightarrow> RuntimeId \<Rightarrow> 's \<Rightarrow> ('c, 'h, 't, 's) RemoteRuntimeHost" where
  "drop_failed_sink host rid sink =
     (if hm_get (host_live_sinks host) rid = Some sink
      then host\<lparr>host_live_sinks := hm_remove rid (host_live_sinks host)\<rparr> else host)"

definition send_live ::
    "('c, 'h, 't, 's) RemoteRuntimeHost \<Rightarrow> RuntimeId \<Rightarrow> HostFrame \<Rightarrow> bool \<Rightarrow> ('c, 'h, 't, 's) RemoteRuntimeHost
      \<Rightarrow> ('s \<times> HostFrame) option \<times> ('c, 'h, 't, 's) RemoteRuntimeHost" where
  "send_live host rid frame delivered later =
     (case hm_get (host_live_sinks host) rid of
        None \<Rightarrow> (None, later)
      | Some sink \<Rightarrow> if delivered then (Some (sink, frame), later) else (None, drop_failed_sink later rid sink))"

text \<open>The frame the pump sends for an envelope, after it was appended; \<open>False\<close> ends the pump.\<close>

definition pump_append ::
    "InMemoryEventJournal \<Rightarrow> RuntimeId \<Rightarrow> InvocationId \<Rightarrow> EventEnvelope
      \<Rightarrow> (HostFrame \<times> bool) \<times> InMemoryEventJournal" where
  "pump_append journal rid i envelope =
     (case journal_append journal envelope of
        (Inl e, journal') \<Rightarrow>
          ((Failure (''invocation:'' @ invocation_id_str i) (journal_failure rid e), False), journal')
      | (Inr _, journal') \<Rightarrow> ((Event envelope, True), journal'))"

definition pump_finish ::
    "('c, 'h, 't, 's) RemoteRuntimeHost \<Rightarrow> RuntimeId \<Rightarrow> InvocationId \<Rightarrow> ('c, 'h, 't, 's) RemoteRuntimeHost" where
  "pump_finish host rid i = host\<lparr>host_active := hm_remove (rid, i) (host_active host)\<rparr>"

end
