(* ===== verification/RequestRuns.thy ===== *)
theory RequestRuns
  imports ProtocolHost
begin

text \<open>
  All interleavings of concurrent dispatches over the request cache of \<^verbatim>\<open>src/protocol_host.rs\<close>: claiming,
  waiting for the owner, executing, completing or being dropped, and replaying cached frames. The
  handler's frames are free; the digest of the encoded frame is a parameter of the whole run.
\<close>

section \<open>The transition system\<close>

text \<open>
  A dispatch between its critical sections: about to claim, waiting on a channel, executing as the
  owner of its request, delivering frames it executed or found, or refused.
\<close>

datatype (plugins only: code size) DispatchPhase =
    Claiming
  | Awaiting nat
  | Owning
  | Delivering "HostFrame list"
  | Refused RemoteRuntimeHostError
  | Dropped

record Dispatch =
  d_request_id :: string
  d_fingerprint :: fingerprint
  d_phase :: DispatchPhase

record RequestWorld =
  rw_cache :: RequestCache
  rw_watches :: "bool list"
  rw_dispatches :: "Dispatch list"

definition request_world_new :: "RemoteRuntimeHostLimits \<Rightarrow> RequestWorld" where
  "request_world_new limits = \<lparr>rw_cache = RequestCache_new limits, rw_watches = [], rw_dispatches = []\<rparr>"

datatype (plugins only: code size) RequestLabel =
    Received string fingerprint
  | Claimed string fingerprint
  | Awaited string fingerprint
  | Replayed string fingerprint "HostFrame list"
  | Declined string
  | Woken string
  | Completed string fingerprint "HostFrame list"
  | Abandoned string fingerprint

abbreviation move :: "RequestWorld \<Rightarrow> nat \<Rightarrow> DispatchPhase \<Rightarrow> Dispatch list" where
  "move w k p \<equiv> (rw_dispatches w)[k := (rw_dispatches w ! k)\<lparr>d_phase := p\<rparr>]"

inductive request_step ::
    "(ClientFrame \<Rightarrow> codec_error + u8 list) \<Rightarrow> (u8 list \<Rightarrow> fingerprint) \<Rightarrow> RequestWorld \<Rightarrow> RequestLabel \<Rightarrow> RequestWorld \<Rightarrow> bool"
  for to_vec digest where
  received:
    "encode_client_frame to_vec frame = Inr encoded \<Longrightarrow> request_requires_deduplication (frame_request frame) \<Longrightarrow>
     request_step to_vec digest w (Received (frame_request_id frame) (digest encoded))
       (w\<lparr>rw_dispatches := rw_dispatches w @
          [\<lparr>d_request_id = frame_request_id frame, d_fingerprint = digest encoded, d_phase = Claiming\<rparr>]\<rparr>)"
| claimed:
    "k < length (rw_dispatches w) \<Longrightarrow> d = rw_dispatches w ! k \<Longrightarrow> d_phase d = Claiming \<Longrightarrow>
     claim_request (rw_cache w) (rw_watches w) (d_request_id d) (d_fingerprint d) = (Inr Owner, cache, watches) \<Longrightarrow>
     request_step to_vec digest w (Claimed (d_request_id d) (d_fingerprint d))
       \<lparr>rw_cache = cache, rw_watches = watches, rw_dispatches = move w k Owning\<rparr>"
| awaited:
    "k < length (rw_dispatches w) \<Longrightarrow> d = rw_dispatches w ! k \<Longrightarrow> d_phase d = Claiming \<Longrightarrow>
     claim_request (rw_cache w) (rw_watches w) (d_request_id d) (d_fingerprint d) = (Inr (Wait c), cache, watches) \<Longrightarrow>
     request_step to_vec digest w (Awaited (d_request_id d) (d_fingerprint d))
       \<lparr>rw_cache = cache, rw_watches = watches, rw_dispatches = move w k (Awaiting c)\<rparr>"
| replayed:
    "k < length (rw_dispatches w) \<Longrightarrow> d = rw_dispatches w ! k \<Longrightarrow> d_phase d = Claiming \<Longrightarrow>
     claim_request (rw_cache w) (rw_watches w) (d_request_id d) (d_fingerprint d) = (Inr (Cached frames), cache, watches) \<Longrightarrow>
     request_step to_vec digest w (Replayed (d_request_id d) (d_fingerprint d) frames)
       \<lparr>rw_cache = cache, rw_watches = watches, rw_dispatches = move w k (Delivering frames)\<rparr>"
| declined:
    "k < length (rw_dispatches w) \<Longrightarrow> d = rw_dispatches w ! k \<Longrightarrow> d_phase d = Claiming \<Longrightarrow>
     claim_request (rw_cache w) (rw_watches w) (d_request_id d) (d_fingerprint d) = (Inl e, cache, watches) \<Longrightarrow>
     request_step to_vec digest w (Declined (d_request_id d))
       \<lparr>rw_cache = cache, rw_watches = watches, rw_dispatches = move w k (Refused e)\<rparr>"
| woken:
    "k < length (rw_dispatches w) \<Longrightarrow> d = rw_dispatches w ! k \<Longrightarrow> d_phase d = Awaiting c \<Longrightarrow> rw_watches w ! c \<Longrightarrow>
     request_step to_vec digest w (Woken (d_request_id d)) (w\<lparr>rw_dispatches := move w k Claiming\<rparr>)"
| completed:
    "k < length (rw_dispatches w) \<Longrightarrow> d = rw_dispatches w ! k \<Longrightarrow> d_phase d = Owning \<Longrightarrow>
     complete_request (rw_cache w) (rw_watches w) (d_request_id d) (d_fingerprint d) frames = (cache, watches) \<Longrightarrow>
     request_step to_vec digest w (Completed (d_request_id d) (d_fingerprint d) frames)
       \<lparr>rw_cache = cache, rw_watches = watches, rw_dispatches = move w k (Delivering frames)\<rparr>"
| abandoned:
    "k < length (rw_dispatches w) \<Longrightarrow> d = rw_dispatches w ! k \<Longrightarrow> d_phase d = Owning \<Longrightarrow>
     abandon_request (rw_cache w) (rw_watches w) (d_request_id d) (d_fingerprint d) = (cache, watches) \<Longrightarrow>
     request_step to_vec digest w (Abandoned (d_request_id d) (d_fingerprint d))
       \<lparr>rw_cache = cache, rw_watches = watches, rw_dispatches = move w k Dropped\<rparr>"

inductive request_run ::
    "(ClientFrame \<Rightarrow> codec_error + u8 list) \<Rightarrow> (u8 list \<Rightarrow> fingerprint) \<Rightarrow> RequestWorld \<Rightarrow> RequestLabel list \<Rightarrow> RequestWorld \<Rightarrow> bool"
  for to_vec digest w where
  request_start: "request_run to_vec digest w [] w"
| request_snoc: "request_run to_vec digest w ls w' \<Longrightarrow> request_step to_vec digest w' l w'' \<Longrightarrow>
    request_run to_vec digest w (ls @ [l]) w''"

section \<open>The cache\<close>

declare map_of_eq_Some_iff [simp del]

definition completed_ids :: "RequestCache \<Rightarrow> string set" where
  "completed_ids cache = {r. \<exists>f frames. hm_get (cache_entries cache) r = Some (Complete f frames)}"

definition cache_ok :: "RequestCache \<Rightarrow> bool" where
  "cache_ok cache \<longleftrightarrow> hm_ok (cache_entries cache) \<and> distinct (cache_order cache)
     \<and> set (cache_order cache) = completed_ids cache
     \<and> length (cache_order cache) \<le> cache_maximum cache \<and> 0 < cache_maximum cache"

lemma forget_completed_get:
  assumes "\<exists>f frames. hm_get entries r = Some (Complete f frames)"
  shows "hm_get (forget_completed r entries) = (hm_get entries)(r := None)"
  using assms by (auto simp: forget_completed_def table_simps)

lemma forget_completed_ok: "hm_ok entries \<Longrightarrow> hm_ok (forget_completed r entries)"
  by (auto simp: forget_completed_def split: option.splits CacheEntry.splits)

lemma fold_forget_ok: "hm_ok entries \<Longrightarrow> hm_ok (fold forget_completed rs entries)"
  by (induction rs arbitrary: entries) (auto simp: forget_completed_ok)

lemma fold_forget_get:
  assumes "distinct rs" "\<forall>r \<in> set rs. \<exists>f frames. hm_get entries r = Some (Complete f frames)"
  shows "hm_get (fold forget_completed rs entries) = (\<lambda>x. if x \<in> set rs then None else hm_get entries x)"
  using assms
proof (induction rs arbitrary: entries)
  case Nil
  then show ?case by simp
next
  case (Cons r rs)
  have get: "hm_get (forget_completed r entries) = (hm_get entries)(r := None)"
    using Cons.prems(2) by (intro forget_completed_get) simp
  have "\<forall>x \<in> set rs. \<exists>f frames. hm_get (forget_completed r entries) x = Some (Complete f frames)"
    unfolding get using Cons.prems by auto
  from Cons.IH [OF _ this] Cons.prems(1) show ?case by (auto simp: get)
qed

lemma complete_request_Some:
  assumes ok: "cache_ok cache" and ch: "pending_channel cache r fp = Some ch"
  defines "n \<equiv> Suc (length (cache_order cache)) - cache_maximum cache"
  assumes res: "complete_request cache watches r fp frames = (cache', watches')"
  shows "cache_order cache' = drop n (cache_order cache @ [r])"
    and "hm_get (cache_entries cache') = (\<lambda>x. if x \<in> set (take n (cache_order cache)) then None
      else if x = r then Some (Complete fp frames) else hm_get (cache_entries cache) x)"
    and "cache_pending cache' = cache_pending cache - 1"
    and "cache_maximum cache' = cache_maximum cache" "cache_pending_maximum cache' = cache_pending_maximum cache"
    and "watches' = watches[ch := True]"
    and "cache_ok cache'"
proof -
  let ?q = "cache_order cache @ [r]"
  let ?e = "hm_insert r (Complete fp frames) (hm_remove r (cache_entries cache))"
  have pend: "\<exists>e c. hm_get (cache_entries cache) r = Some (Pending e c)"
    using ch by (auto simp: pending_channel_def split: option.splits CacheEntry.splits)
  then have rn: "r \<notin> set (cache_order cache)" using ok by (auto simp: cache_ok_def completed_ids_def)
  then have d: "distinct ?q" using ok by (simp add: cache_ok_def)
  have n: "n \<le> 1" "n \<le> length (cache_order cache)" using ok unfolding cache_ok_def n_def by linarith+
  then have tk: "take n ?q = take n (cache_order cache)" by simp
  have comp: "\<exists>f frs. hm_get ?e x = Some (Complete f frs)" if "x \<in> set ?q" for x
  proof (cases "x = r")
    case True
    then show ?thesis by (simp add: table_simps)
  next
    case False
    then have "x \<in> completed_ids cache" using that ok by (auto simp: cache_ok_def)
    then show ?thesis using False by (simp add: table_simps completed_ids_def)
  qed
  have q: "length ?q - cache_maximum cache = n" by (simp add: n_def)
  have c': "cache' = evict_completed (cache\<lparr>cache_pending := cache_pending cache - 1, cache_entries := ?e, cache_order := ?q\<rparr>)"
    and w': "watches' = watches[ch := True]"
    using res ch by (auto simp: complete_request_def)
  have ev: "cache' = cache\<lparr>cache_pending := cache_pending cache - 1,
      cache_entries := fold forget_completed (take n ?q) ?e, cache_order := drop n ?q\<rparr>"
    unfolding c' by (cases cache) (simp add: evict_completed_def evict_while_eq n_def del: drop_append take_append)
  have get: "hm_get (fold forget_completed (take n ?q) ?e) = (\<lambda>x. if x \<in> set (take n ?q) then None else hm_get ?e x)"
  proof (rule fold_forget_get)
    show "distinct (take n ?q)" using d by (rule distinct_take)
    show "\<forall>x \<in> set (take n ?q). \<exists>f frs. hm_get ?e x = Some (Complete f frs)"
      using comp by (blast dest: in_set_takeD)
  qed
  show ord: "cache_order cache' = drop n ?q" by (simp add: ev)
  show g: "hm_get (cache_entries cache') = (\<lambda>x. if x \<in> set (take n (cache_order cache)) then None
      else if x = r then Some (Complete fp frames) else hm_get (cache_entries cache) x)"
    using get [unfolded tk] by (auto simp: ev tk table_simps simp del: take_append)
  show "cache_pending cache' = cache_pending cache - 1" "cache_maximum cache' = cache_maximum cache"
    "cache_pending_maximum cache' = cache_pending_maximum cache" by (simp_all add: ev)
  show "watches' = watches[ch := True]" by (rule w')
  have "set (drop n ?q) = set ?q - set (take n ?q)" by (rule set_drop_distinct [OF d])
  also have "\<dots> = completed_ids cache'"
  proof -
    have "set (cache_order cache) = completed_ids cache" using ok by (simp add: cache_ok_def)
    then show ?thesis unfolding tk using rn by (auto simp: completed_ids_def g dest: in_set_takeD)
  qed
  finally have s: "set (drop n ?q) = completed_ids cache'" .
  have "hm_ok (cache_entries cache')" unfolding ev using ok by (simp add: fold_forget_ok cache_ok_def del: take_append)
  moreover have "distinct (drop n ?q)" using d by (rule distinct_drop)
  moreover have "length (drop n ?q) \<le> cache_maximum cache" by (simp add: n_def)
  moreover have "0 < cache_maximum cache" using ok by (simp add: cache_ok_def)
  ultimately show "cache_ok cache'" unfolding cache_ok_def ord s by (simp add: ev)
qed


section \<open>The invariant\<close>

abbreviation pending_at :: "RequestWorld \<Rightarrow> string \<Rightarrow> fingerprint \<Rightarrow> nat \<Rightarrow> bool" where
  "pending_at w r fp c \<equiv> hm_get (cache_entries (rw_cache w)) r = Some (Pending fp c)"

abbreviation dispatch_id :: "RequestWorld \<Rightarrow> nat \<Rightarrow> string" where
  "dispatch_id w k \<equiv> d_request_id (rw_dispatches w ! k)"

abbreviation dispatch_fp :: "RequestWorld \<Rightarrow> nat \<Rightarrow> fingerprint" where
  "dispatch_fp w k \<equiv> d_fingerprint (rw_dispatches w ! k)"

abbreviation dispatch_phase :: "RequestWorld \<Rightarrow> nat \<Rightarrow> DispatchPhase" where
  "dispatch_phase w k \<equiv> d_phase (rw_dispatches w ! k)"

definition owners :: "RequestWorld \<Rightarrow> nat set" where
  "owners w = {k. k < length (rw_dispatches w) \<and> dispatch_phase w k = Owning}"

text \<open>
  Every pending entry belongs to exactly one dispatch that executes it, with its own channel that
  is not yet notified; a waiting dispatch waits for the pending entry of its own request or was
  notified.
\<close>

definition requests_ok :: "RequestWorld \<Rightarrow> bool" where
  "requests_ok w \<longleftrightarrow> cache_ok (rw_cache w)
     \<and> (\<forall>j \<in> owners w. \<forall>k \<in> owners w. dispatch_id w j = dispatch_id w k \<longrightarrow> j = k)
     \<and> (\<forall>k \<in> owners w. \<exists>c. pending_at w (dispatch_id w k) (dispatch_fp w k) c)
     \<and> (\<forall>r fp c. pending_at w r fp c \<longrightarrow> c < length (rw_watches w) \<and> \<not> rw_watches w ! c
          \<and> (\<exists>k \<in> owners w. dispatch_id w k = r \<and> dispatch_fp w k = fp))
     \<and> (\<forall>r r' fp fp' c. pending_at w r fp c \<longrightarrow> pending_at w r' fp' c \<longrightarrow> r = r')
     \<and> cache_pending (rw_cache w) = card (owners w) \<and> cache_pending (rw_cache w) \<le> cache_pending_maximum (rw_cache w)
     \<and> (\<forall>k < length (rw_dispatches w). \<forall>c. dispatch_phase w k = Awaiting c \<longrightarrow>
          c < length (rw_watches w) \<and> (rw_watches w ! c \<or> pending_at w (dispatch_id w k) (dispatch_fp w k) c))"

lemma requests_okI:
  assumes "cache_ok (rw_cache w)"
    and "\<And>j k. j \<in> owners w \<Longrightarrow> k \<in> owners w \<Longrightarrow> dispatch_id w j = dispatch_id w k \<Longrightarrow> j = k"
    and "\<And>k. k \<in> owners w \<Longrightarrow> \<exists>c. pending_at w (dispatch_id w k) (dispatch_fp w k) c"
    and "\<And>r fp c. pending_at w r fp c \<Longrightarrow> c < length (rw_watches w) \<and> \<not> rw_watches w ! c
          \<and> (\<exists>k \<in> owners w. dispatch_id w k = r \<and> dispatch_fp w k = fp)"
    and "\<And>r r' fp fp' c. pending_at w r fp c \<Longrightarrow> pending_at w r' fp' c \<Longrightarrow> r = r'"
    and "cache_pending (rw_cache w) = card (owners w)" "cache_pending (rw_cache w) \<le> cache_pending_maximum (rw_cache w)"
    and "\<And>k c. k < length (rw_dispatches w) \<Longrightarrow> dispatch_phase w k = Awaiting c \<Longrightarrow>
          c < length (rw_watches w) \<and> (rw_watches w ! c \<or> pending_at w (dispatch_id w k) (dispatch_fp w k) c)"
  shows "requests_ok w"
  using assms unfolding requests_ok_def by blast

lemma requests_okD:
  assumes "requests_ok w"
  shows "cache_ok (rw_cache w)"
    and "j \<in> owners w \<Longrightarrow> k \<in> owners w \<Longrightarrow> dispatch_id w j = dispatch_id w k \<Longrightarrow> j = k"
    and "k \<in> owners w \<Longrightarrow> \<exists>c. pending_at w (dispatch_id w k) (dispatch_fp w k) c"
    and "pending_at w r fp c \<Longrightarrow> c < length (rw_watches w) \<and> \<not> rw_watches w ! c
          \<and> (\<exists>k \<in> owners w. dispatch_id w k = r \<and> dispatch_fp w k = fp)"
    and "pending_at w r fp c \<Longrightarrow> pending_at w r' fp' c \<Longrightarrow> r = r'"
    and "cache_pending (rw_cache w) = card (owners w)" "cache_pending (rw_cache w) \<le> cache_pending_maximum (rw_cache w)"
    and "k < length (rw_dispatches w) \<Longrightarrow> dispatch_phase w k = Awaiting c \<Longrightarrow>
          c < length (rw_watches w) \<and> (rw_watches w ! c \<or> pending_at w (dispatch_id w k) (dispatch_fp w k) c)"
  using assms unfolding requests_ok_def by blast+

lemma owners_finite [simp]: "finite (owners w)"
  by (rule finite_subset [of _ "{..<length (rw_dispatches w)}"]) (auto simp: owners_def)

lemma request_world_new_ok: "0 < host_completed_request_capacity limits \<Longrightarrow> requests_ok (request_world_new limits)"
  by (simp add: requests_ok_def request_world_new_def RequestCache_new_def cache_ok_def completed_ids_def owners_def)

text \<open>A dispatch moves without touching the cache.\<close>

lemma owners_move:
  assumes "k < length (rw_dispatches w)" "rw_dispatches w' = move w k p"
  shows "owners w' = (if p = Owning then insert k (owners w) else owners w - {k})"
  using assms by (auto simp: owners_def nth_list_update)

lemma moved_id [simp]:
  "d_request_id (xs[k := (xs ! k)\<lparr>d_phase := p\<rparr>] ! j) = d_request_id (xs ! j)"
  "d_fingerprint (xs[k := (xs ! k)\<lparr>d_phase := p\<rparr>] ! j) = d_fingerprint (xs ! j)"
  by (cases "k < length xs"; simp add: nth_list_update list_update_beyond)+

lemma moved_ok:
  assumes ok: "requests_ok w" and k: "k < length (rw_dispatches w)" "k \<notin> owners w"
    and p: "p \<noteq> Owning" "\<And>c. p = Awaiting c \<Longrightarrow> pending_at w (dispatch_id w k) (dispatch_fp w k) c"
  shows "requests_ok (w\<lparr>rw_dispatches := move w k p\<rparr>)"
proof -
  let ?w = "w\<lparr>rw_dispatches := move w k p\<rparr>"
  have o: "owners ?w = owners w" using owners_move [OF k(1), of ?w p] p(1) k(2) by simp
  show ?thesis
  proof (rule requests_okI)
    fix j c assume "j < length (rw_dispatches ?w)" "dispatch_phase ?w j = Awaiting c"
    then show "c < length (rw_watches ?w) \<and> (rw_watches ?w ! c \<or> pending_at ?w (dispatch_id ?w j) (dispatch_fp ?w j) c)"
      using p(2) requests_okD(8) [OF ok, of j c] requests_okD(4) [OF ok] by (cases "j = k") auto
  qed (use requests_okD(1-7) [OF ok] in \<open>auto simp: o\<close>)
qed

text \<open>The owner leaves: its pending entry is gone and its channel is notified.\<close>

lemma settled_ok:
  assumes ok: "requests_ok w" and k: "k \<in> owners w"
    and ch: "pending_at w (dispatch_id w k) (dispatch_fp w k) ch"
    and c': "cache_ok cache'" "cache_pending cache' = cache_pending (rw_cache w) - 1"
      "cache_pending_maximum cache' = cache_pending_maximum (rw_cache w)"
    and pend: "\<And>r fp c. hm_get (cache_entries cache') r = Some (Pending fp c) \<longleftrightarrow> r \<noteq> dispatch_id w k \<and> pending_at w r fp c"
    and p: "p \<noteq> Owning" "\<And>c. p \<noteq> Awaiting c"
  shows "requests_ok \<lparr>rw_cache = cache', rw_watches = (rw_watches w)[ch := True], rw_dispatches = move w k p\<rparr>"
    (is "requests_ok ?w")
proof -
  have kl: "k < length (rw_dispatches w)" using k by (simp add: owners_def)
  have o: "owners ?w = owners w - {k}" using owners_move [OF kl, of ?w p] p(1) by simp
  show ?thesis
  proof (rule requests_okI)
    show "cache_ok (rw_cache ?w)" by (simp add: c'(1))
    show "i = j" if "i \<in> owners ?w" "j \<in> owners ?w" "dispatch_id ?w i = dispatch_id ?w j" for i j
      using that requests_okD(2) [OF ok, of i j] by (simp add: o)
    show "\<exists>c. pending_at ?w (dispatch_id ?w j) (dispatch_fp ?w j) c" if "j \<in> owners ?w" for j
    proof -
      have "dispatch_id w j \<noteq> dispatch_id w k" using that requests_okD(2) [OF ok, of j k] k by (auto simp: o)
      then show ?thesis using that requests_okD(3) [OF ok, of j] pend by (auto simp: o)
    qed
    show "c < length (rw_watches ?w) \<and> \<not> rw_watches ?w ! c \<and> (\<exists>j \<in> owners ?w. dispatch_id ?w j = r \<and> dispatch_fp ?w j = fp)"
      if "pending_at ?w r fp c" for r fp c
    proof -
      have old: "r \<noteq> dispatch_id w k" "pending_at w r fp c" using that pend by auto
      have "c \<noteq> ch" using requests_okD(5) [OF ok old(2), of "dispatch_id w k" "dispatch_fp w k"] ch old(1) by auto
      then show ?thesis using requests_okD(4) [OF ok old(2)] old(1) by (auto simp: o)
    qed
    show "r = r'" if "pending_at ?w r fp c" "pending_at ?w r' fp' c" for r r' fp fp' c
      using that pend requests_okD(5) [OF ok, of r fp c r' fp'] by simp
    show "cache_pending (rw_cache ?w) = card (owners ?w)"
      using c'(2) k requests_okD(6) [OF ok] by (simp add: o)
    show "cache_pending (rw_cache ?w) \<le> cache_pending_maximum (rw_cache ?w)"
      using c'(2,3) requests_okD(7) [OF ok] by simp
    show "c < length (rw_watches ?w) \<and> (rw_watches ?w ! c \<or> pending_at ?w (dispatch_id ?w j) (dispatch_fp ?w j) c)"
      if j: "j < length (rw_dispatches ?w)" "dispatch_phase ?w j = Awaiting c" for j c
    proof -
      have "j \<noteq> k" using j kl p(2) by auto
      then have old: "c < length (rw_watches w) \<and> (rw_watches w ! c \<or> pending_at w (dispatch_id w j) (dispatch_fp w j) c)"
        using j requests_okD(8) [OF ok, of j c] by simp
      moreover have "c = ch" if "dispatch_id w j = dispatch_id w k" "pending_at w (dispatch_id w j) (dispatch_fp w j) c"
        using that ch by simp
      moreover have "(rw_watches w)[ch := True] ! c" if "c < length (rw_watches w)" "rw_watches w ! c \<or> c = ch"
        using that by (cases "c = ch") auto
      ultimately show ?thesis using pend by auto
    qed
  qed
qed

text \<open>A fresh request gets a pending entry with a new channel.\<close>

lemma claim_request_Owner:
  assumes "claim_request cache watches r fp = (Inr Owner, cache', watches')"
  shows "hm_get (cache_entries cache) r = None" "cache_pending cache < cache_pending_maximum cache"
    "cache' = cache\<lparr>cache_entries := hm_insert r (Pending fp (length watches)) (cache_entries cache),
       cache_pending := cache_pending cache + 1\<rparr>"
    "watches' = watches @ [False]"
  using assms by (auto simp: claim_request_def split: option.splits CacheEntry.splits if_splits)

lemma claim_request_other:
  assumes "claim_request cache watches r fp = (res, cache', watches')" "res \<noteq> Inr Owner"
  shows "cache' = cache" "watches' = watches"
    "res = Inr (Wait c) \<Longrightarrow> hm_get (cache_entries cache) r = Some (Pending fp c)"
    "res = Inr (Cached frames) \<Longrightarrow> hm_get (cache_entries cache) r = Some (Complete fp frames)"
  using assms by (auto simp: claim_request_def split: option.splits CacheEntry.splits if_splits)

lemma claimed_ok:
  assumes ok: "requests_ok w" and k: "k < length (rw_dispatches w)" "dispatch_phase w k = Claiming"
    and claim: "claim_request (rw_cache w) (rw_watches w) (dispatch_id w k) (dispatch_fp w k) = (Inr Owner, cache', watches')"
  shows "requests_ok \<lparr>rw_cache = cache', rw_watches = watches', rw_dispatches = move w k Owning\<rparr>"
proof -
  define w' where "w' = \<lparr>rw_cache = cache', rw_watches = watches', rw_dispatches = move w k Owning\<rparr>"
  note cl = claim_request_Owner [OF claim]
  have o: "owners w' = insert k (owners w)" using owners_move [OF k(1), of w' Owning] by (simp add: w'_def)
  have ds: "dispatch_id w' j = dispatch_id w j" "dispatch_fp w' j = dispatch_fp w j"
    "length (rw_dispatches w') = length (rw_dispatches w)" for j by (simp_all add: w'_def)
  have ph: "dispatch_phase w' j = (if j = k then Owning else dispatch_phase w j)" for j
    using k(1) by (simp add: w'_def)
  have ws: "rw_watches w' = rw_watches w @ [False]" by (simp add: w'_def cl(4))
  have nk: "k \<notin> owners w" using k(2) by (simp add: owners_def)
  have pend: "pending_at w' r fp c \<longleftrightarrow> (if r = dispatch_id w k then fp = dispatch_fp w k \<and> c = length (rw_watches w) else pending_at w r fp c)"
    for r fp c by (auto simp: w'_def cl(3) table_simps)
  have other: "dispatch_id w j \<noteq> dispatch_id w k" if "j \<in> owners w" for j
    using requests_okD(3) [OF ok that] cl(1) by auto
  have cache: "cache_pending (rw_cache w') = Suc (cache_pending (rw_cache w))"
    "cache_pending_maximum (rw_cache w') = cache_pending_maximum (rw_cache w)" by (simp_all add: w'_def cl(3))
  have "requests_ok w'"
  proof (rule requests_okI)
    have "completed_ids cache' = completed_ids (rw_cache w)" using cl(1) by (auto simp: completed_ids_def cl(3) table_simps)
    then show "cache_ok (rw_cache w')" using requests_okD(1) [OF ok] by (simp add: cache_ok_def cl(3) w'_def)
    show "i = j" if "i \<in> owners w'" "j \<in> owners w'" "dispatch_id w' i = dispatch_id w' j" for i j
      using that requests_okD(2) [OF ok, of i j] other [of i] other [of j] unfolding o ds by (metis insertE)
    show "\<exists>c. pending_at w' (dispatch_id w' j) (dispatch_fp w' j) c" if "j \<in> owners w'" for j
    proof (cases "j = k")
      case True
      then have "pending_at w' (dispatch_id w' j) (dispatch_fp w' j) (length (rw_watches w))" unfolding pend ds by simp
      then show ?thesis ..
    next
      case False
      then have "j \<in> owners w" using that by (simp add: o)
      from requests_okD(3) [OF ok this] other [OF this] show ?thesis unfolding pend ds by simp
    qed
    show "c < length (rw_watches w') \<and> \<not> rw_watches w' ! c \<and> (\<exists>j \<in> owners w'. dispatch_id w' j = r \<and> dispatch_fp w' j = fp)"
      if "pending_at w' r fp c" for r fp c
    proof (cases "r = dispatch_id w k")
      case True
      then show ?thesis using that unfolding pend o ds ws by simp
    next
      case False
      then have "pending_at w r fp c" using that unfolding pend by simp
      from requests_okD(4) [OF ok this] show ?thesis unfolding o ds ws by (auto simp: nth_append)
    qed
    show "r = r'" if "pending_at w' r fp c" "pending_at w' r' fp' c" for r r' fp fp' c
    proof -
      have "c \<noteq> length (rw_watches w)" if "pending_at w x f c" for x f using requests_okD(4) [OF ok that] by simp
      then show ?thesis using that requests_okD(5) [OF ok, of r fp c r' fp'] unfolding pend by (metis (full_types))
    qed
    show "cache_pending (rw_cache w') = card (owners w')" using nk requests_okD(6) [OF ok] by (simp add: o cache)
    show "cache_pending (rw_cache w') \<le> cache_pending_maximum (rw_cache w')" using cl(2) by (simp add: cache)
    show "c < length (rw_watches w') \<and> (rw_watches w' ! c \<or> pending_at w' (dispatch_id w' j) (dispatch_fp w' j) c)"
      if j: "j < length (rw_dispatches w')" "dispatch_phase w' j = Awaiting c" for j c
    proof -
      have "j \<noteq> k" using j by (auto simp: ph)
      then have old: "c < length (rw_watches w)" "rw_watches w ! c \<or> pending_at w (dispatch_id w j) (dispatch_fp w j) c"
        using j requests_okD(8) [OF ok, of j c] by (auto simp: ph ds)
      have "dispatch_id w j \<noteq> dispatch_id w k" if "pending_at w (dispatch_id w j) (dispatch_fp w j) c"
        using that cl(1) by auto
      with old show ?thesis unfolding pend ds ws by (auto simp: nth_append)
    qed
  qed
  then show ?thesis by (simp add: w'_def)
qed


lemma appended_ok:
  assumes ok: "requests_ok w" and d: "d_phase d = Claiming"
  shows "requests_ok (w\<lparr>rw_dispatches := rw_dispatches w @ [d]\<rparr>)" (is "requests_ok ?w")
proof -
  have o: "owners ?w = owners w" using d by (auto simp: owners_def nth_append less_Suc_eq)
  have same: "rw_dispatches ?w ! k = rw_dispatches w ! k" if "k \<in> owners w" for k
    using that by (simp add: owners_def nth_append)
  show ?thesis
  proof (rule requests_okI)
    show "cache_ok (rw_cache ?w)" using requests_okD(1) [OF ok] by simp
    show "j = k" if "j \<in> owners ?w" "k \<in> owners ?w" "dispatch_id ?w j = dispatch_id ?w k" for j k
      using that requests_okD(2) [OF ok, of j k] unfolding o by (simp add: same [simplified])
    show "\<exists>c. pending_at ?w (dispatch_id ?w k) (dispatch_fp ?w k) c" if "k \<in> owners ?w" for k
      using that requests_okD(3) [OF ok, of k] unfolding o by (simp add: same [simplified])
    show "c < length (rw_watches ?w) \<and> \<not> rw_watches ?w ! c \<and> (\<exists>k \<in> owners ?w. dispatch_id ?w k = r \<and> dispatch_fp ?w k = fp)"
      if p: "pending_at ?w r fp c" for r fp c
    proof -
      have "pending_at w r fp c" using p by simp
      from requests_okD(4) [OF ok this] show ?thesis unfolding o using same by auto
    qed
    show "r = r'" if "pending_at ?w r fp c" "pending_at ?w r' fp' c" for r r' fp fp' c
      using that requests_okD(5) [OF ok, of r fp c r' fp'] by simp
    show "cache_pending (rw_cache ?w) = card (owners ?w)" "cache_pending (rw_cache ?w) \<le> cache_pending_maximum (rw_cache ?w)"
      using requests_okD(6,7) [OF ok] unfolding o by simp_all
    show "c < length (rw_watches ?w) \<and> (rw_watches ?w ! c \<or> pending_at ?w (dispatch_id ?w k) (dispatch_fp ?w k) c)"
      if k: "k < length (rw_dispatches ?w)" "dispatch_phase ?w k = Awaiting c" for k c
    proof -
      have "k < length (rw_dispatches w)" using k d by (auto simp: less_Suc_eq)
      then show ?thesis using k(2) requests_okD(8) [OF ok, of k c] by (simp add: nth_append)
    qed
  qed
qed

lemma owner_channel:
  assumes "requests_ok w" "k < length (rw_dispatches w)" "dispatch_phase w k = Owning"
  obtains c where "k \<in> owners w" "pending_at w (dispatch_id w k) (dispatch_fp w k) c"
    "pending_channel (rw_cache w) (dispatch_id w k) (dispatch_fp w k) = Some c"
proof -
  have k: "k \<in> owners w" using assms(2,3) by (simp add: owners_def)
  from requests_okD(3) [OF assms(1) k] obtain c where c: "pending_at w (dispatch_id w k) (dispatch_fp w k) c" ..
  then have "pending_channel (rw_cache w) (dispatch_id w k) (dispatch_fp w k) = Some c" by (simp add: pending_channel_def)
  with k c show ?thesis by (rule that)
qed

lemma pending_not_completed:
  assumes "cache_ok cache" "hm_get (cache_entries cache) r = Some (Pending fp c)"
  shows "r \<notin> set (cache_order cache)"
  using assms by (auto simp: cache_ok_def completed_ids_def)

lemma abandon_request_Some:
  assumes ok: "cache_ok cache" and ch: "pending_channel cache r fp = Some ch"
    and res: "abandon_request cache watches r fp = (cache', watches')"
  shows "cache' = cache\<lparr>cache_entries := hm_remove r (cache_entries cache), cache_pending := cache_pending cache - 1\<rparr>"
    "watches' = watches[ch := True]" "cache_ok cache'"
proof -
  show c': "cache' = cache\<lparr>cache_entries := hm_remove r (cache_entries cache), cache_pending := cache_pending cache - 1\<rparr>"
    "watches' = watches[ch := True]" using res ch by (auto simp: abandon_request_def)
  have "\<exists>e c. hm_get (cache_entries cache) r = Some (Pending e c)"
    using ch by (auto simp: pending_channel_def split: option.splits CacheEntry.splits)
  then have "completed_ids cache' = completed_ids cache" by (auto simp: completed_ids_def c'(1) table_simps)
  then show "cache_ok cache'" using ok by (simp add: cache_ok_def c'(1))
qed

lemma request_step_ok:
  assumes step: "request_step to_vec digest w l w'" and ok: "requests_ok w"
  shows "requests_ok w'"
  using step
proof cases
  case (received frame encoded)
  then show ?thesis using appended_ok [OF ok] by simp
next
  case (claimed k d cache watches)
  then show ?thesis using claimed_ok [OF ok claimed(3)] by simp
next
  case (awaited k d c cache watches)
  note o = claim_request_other [OF awaited(6)]
  have "requests_ok (w\<lparr>rw_dispatches := move w k (Awaiting c)\<rparr>)"
    using awaited(4,5) o(3) by (intro moved_ok [OF ok awaited(3)]) (auto simp: owners_def)
  then show ?thesis using o(1,2) by (cases w) (simp add: awaited(2))
next
  case (replayed k d frames cache watches)
  note o = claim_request_other [OF replayed(6)]
  have "requests_ok (w\<lparr>rw_dispatches := move w k (Delivering frames)\<rparr>)"
    using replayed(4,5) by (intro moved_ok [OF ok replayed(3)]) (auto simp: owners_def)
  then show ?thesis using o(1,2) by (cases w) (simp add: replayed(2))
next
  case (declined k d e cache watches)
  note o = claim_request_other [OF declined(6)]
  have "requests_ok (w\<lparr>rw_dispatches := move w k (Refused e)\<rparr>)"
    using declined(4,5) by (intro moved_ok [OF ok declined(3)]) (auto simp: owners_def)
  then show ?thesis using o(1,2) by (cases w) (simp add: declined(2))
next
  case (woken k d c)
  show ?thesis unfolding woken(2) using woken(4,5) by (intro moved_ok [OF ok woken(3)]) (auto simp: owners_def)
next
  case (completed k d frames cache watches)
  obtain c where c: "k \<in> owners w" "pending_at w (dispatch_id w k) (dispatch_fp w k) c"
    "pending_channel (rw_cache w) (dispatch_id w k) (dispatch_fp w k) = Some c"
    using owner_channel [OF ok completed(3)] completed(4,5) by blast
  note e = complete_request_Some [OF requests_okD(1) [OF ok] c(3) completed(6) [unfolded completed(4)]]
  have "dispatch_id w k \<notin> set (cache_order (rw_cache w))" by (rule pending_not_completed [OF requests_okD(1) [OF ok] c(2)])
  have none: "x \<notin> set (cache_order (rw_cache w))" if "pending_at w x fp c" for x fp c
    by (rule pending_not_completed [OF requests_okD(1) [OF ok] that])
  have "requests_ok \<lparr>rw_cache = cache, rw_watches = (rw_watches w)[c := True], rw_dispatches = move w k (Delivering frames)\<rparr>"
    using none by (intro settled_ok [OF ok c(1,2) e(7,3,5)]) (auto simp: e(2) dest: in_set_takeD)
  then show ?thesis by (simp add: completed(2) e(6))
next
  case (abandoned k d cache watches)
  obtain c where c: "k \<in> owners w" "pending_at w (dispatch_id w k) (dispatch_fp w k) c"
    "pending_channel (rw_cache w) (dispatch_id w k) (dispatch_fp w k) = Some c"
    using owner_channel [OF ok abandoned(3)] abandoned(4,5) by blast
  note e = abandon_request_Some [OF requests_okD(1) [OF ok] c(3) abandoned(6) [unfolded abandoned(4)]]
  have "requests_ok \<lparr>rw_cache = cache, rw_watches = (rw_watches w)[c := True], rw_dispatches = move w k Dropped\<rparr>"
    by (intro settled_ok [OF ok c(1,2) e(3)]) (auto simp: e(1) table_simps)
  then show ?thesis by (simp add: abandoned(2) e(2))
qed

lemma request_run_ok:
  assumes "request_run to_vec digest w ls w'" "requests_ok w"
  shows "requests_ok w'"
  using assms by induction (auto intro: request_step_ok)


section \<open>At most one execution per request\<close>

lemma claim_request_limits:
  assumes "claim_request cache watches r fp = (res, cache', watches')"
  shows "cache_maximum cache' = cache_maximum cache" "cache_pending_maximum cache' = cache_pending_maximum cache"
  using assms by (auto simp: claim_request_def split: option.splits CacheEntry.splits if_splits)

lemma complete_request_limits:
  assumes "complete_request cache watches r fp frames = (cache', watches')"
  shows "cache_maximum cache' = cache_maximum cache" "cache_pending_maximum cache' = cache_pending_maximum cache"
  using assms by (auto simp: complete_request_def evict_completed_def split: option.splits prod.splits)

lemma abandon_request_limits:
  assumes "abandon_request cache watches r fp = (cache', watches')"
  shows "cache_maximum cache' = cache_maximum cache" "cache_pending_maximum cache' = cache_pending_maximum cache"
  using assms by (auto simp: abandon_request_def split: option.splits)

lemma request_step_limits:
  assumes "request_step to_vec digest w l w'"
  shows "cache_maximum (rw_cache w') = cache_maximum (rw_cache w)
    \<and> cache_pending_maximum (rw_cache w') = cache_pending_maximum (rw_cache w)"
  using assms by cases (auto dest: claim_request_limits complete_request_limits abandon_request_limits)

lemma request_run_limits:
  assumes "request_run to_vec digest w ls w'"
  shows "cache_maximum (rw_cache w') = cache_maximum (rw_cache w)
    \<and> cache_pending_maximum (rw_cache w') = cache_pending_maximum (rw_cache w)"
  using assms by induction (auto dest: request_step_limits)

text \<open>The keys of the cache are the completed requests and those of the executing dispatches.\<close>

lemma entries_length:
  assumes ok: "requests_ok w"
  shows "length (cache_entries (rw_cache w)) = length (cache_order (rw_cache w)) + card (owners w)"
proof -
  let ?c = "rw_cache w"
  have c: "hm_ok (cache_entries ?c)" "distinct (cache_order ?c)" "set (cache_order ?c) = completed_ids ?c"
    using requests_okD(1) [OF ok] by (simp_all add: cache_ok_def)
  have own: "dispatch_id w k \<notin> completed_ids ?c \<and> hm_get (cache_entries ?c) (dispatch_id w k) \<noteq> None" if "k \<in> owners w" for k
  proof -
    from requests_okD(3) [OF ok that] obtain ch where p: "pending_at w (dispatch_id w k) (dispatch_fp w k) ch" ..
    with pending_not_completed [OF requests_okD(1) [OF ok] p] c(3) show ?thesis by simp
  qed
  have keys: "fst ` set (cache_entries ?c) = completed_ids ?c \<union> dispatch_id w ` owners w"
  proof -
    have "r \<in> completed_ids ?c \<union> dispatch_id w ` owners w" if "hm_get (cache_entries ?c) r = Some e" for r e
    proof (cases e)
      case (Pending fp ch)
      with requests_okD(4) [OF ok that [unfolded Pending]] show ?thesis by blast
    next
      case (Complete fp frames)
      with that show ?thesis by (auto simp: completed_ids_def)
    qed
    moreover have "hm_get (cache_entries ?c) r \<noteq> None" if "r \<in> completed_ids ?c" for r
      using that by (auto simp: completed_ids_def)
    ultimately show ?thesis using own unfolding dom_map_of_conv_image_fst [symmetric] dom_def by blast
  qed
  have fin: "finite (completed_ids ?c)" using c(3) by (metis List.finite_set)
  have disj: "completed_ids ?c \<inter> dispatch_id w ` owners w = {}" using own by blast
  have inj: "inj_on (dispatch_id w) (owners w)" by (rule inj_onI) (rule requests_okD(2) [OF ok])
  have "length (cache_entries ?c) = card (fst ` set (cache_entries ?c))"
    using c(1) by (metis distinct_card length_map set_map)
  also have "\<dots> = card (completed_ids ?c) + card (dispatch_id w ` owners w)"
    unfolding keys using disj fin by (simp add: card_Un_disjoint)
  also have "\<dots> = length (cache_order ?c) + card (owners w)"
    using c(2,3) inj by (metis card_image distinct_card)
  finally show ?thesis .
qed

text \<open>
  C29: the cache stays within its limits whatever the interleaving: the pending counter is the
  number of executing requests and at most the configured one, at most the configured number of
  completed requests is retained, no entry is left behind, and no two dispatches execute the same
  request at the same time.
\<close>

theorem request_cache_bounded:
  assumes limits: "0 < host_completed_request_capacity limits"
    and run: "request_run to_vec digest (request_world_new limits) ls w"
  shows "cache_pending (rw_cache w) = card (owners w) \<and> card (owners w) \<le> host_pending_request_capacity limits
    \<and> length (cache_order (rw_cache w)) \<le> host_completed_request_capacity limits
    \<and> length (cache_entries (rw_cache w)) = length (cache_order (rw_cache w)) + card (owners w)
    \<and> inj_on (dispatch_id w) (owners w)"
proof -
  have ok: "requests_ok w" by (rule request_run_ok [OF run request_world_new_ok [OF limits]])
  have max: "cache_maximum (rw_cache w) = host_completed_request_capacity limits"
    "cache_pending_maximum (rw_cache w) = host_pending_request_capacity limits"
    using request_run_limits [OF run] by (simp_all add: request_world_new_def RequestCache_new_def)
  have inj: "inj_on (dispatch_id w) (owners w)" by (rule inj_onI) (rule requests_okD(2) [OF ok])
  show ?thesis
    using requests_okD(1,6,7) [OF ok] max entries_length [OF ok] inj by (simp add: cache_ok_def)
qed


section \<open>Replay within the window\<close>

fun is_completed :: "RequestLabel \<Rightarrow> bool" where
  "is_completed (Completed r fp frames) = True"
| "is_completed _ = False"

lemma completed_stepE:
  assumes "request_step to_vec digest w (Completed r fp frames) w'" "requests_ok w"
  obtains n c where "n = Suc (length (cache_order (rw_cache w))) - cache_maximum (rw_cache w)"
    "pending_at w r fp c" "rw_watches w' = (rw_watches w)[c := True]"
    "cache_order (rw_cache w') = drop n (cache_order (rw_cache w) @ [r])"
    "hm_get (cache_entries (rw_cache w')) = (\<lambda>x. if x \<in> set (take n (cache_order (rw_cache w))) then None
      else if x = r then Some (Complete fp frames) else hm_get (cache_entries (rw_cache w)) x)"
  using assms(1)
proof cases
  case (completed k d cache watches)
  obtain c where c: "k \<in> owners w" "pending_at w (dispatch_id w k) (dispatch_fp w k) c"
    "pending_channel (rw_cache w) (dispatch_id w k) (dispatch_fp w k) = Some c"
    using owner_channel [OF assms(2) completed(4)] completed(5,6) by blast
  note e = complete_request_Some [OF requests_okD(1) [OF assms(2)] c(3) completed(7) [unfolded completed(5)]]
  show ?thesis
    by (rule that [OF refl]) (use c(2) e completed in auto)
qed

lemma abandoned_stepE:
  assumes "request_step to_vec digest w (Abandoned r fp) w'" "requests_ok w"
  obtains c where "pending_at w r fp c" "rw_watches w' = (rw_watches w)[c := True]"
    "cache_order (rw_cache w') = cache_order (rw_cache w)"
    "hm_get (cache_entries (rw_cache w')) = (hm_get (cache_entries (rw_cache w)))(r := None)"
  using assms(1)
proof cases
  case (abandoned k d cache watches)
  obtain c where c: "k \<in> owners w" "pending_at w (dispatch_id w k) (dispatch_fp w k) c"
    "pending_channel (rw_cache w) (dispatch_id w k) (dispatch_fp w k) = Some c"
    using owner_channel [OF assms(2) abandoned(4)] abandoned(5,6) by blast
  note e = abandon_request_Some [OF requests_okD(1) [OF assms(2)] c(3) abandoned(7) [unfolded abandoned(5)]]
  show ?thesis
    by (rule that) (use c(2) e abandoned in \<open>auto simp: table_simps\<close>)
qed

lemma claimed_stepE:
  assumes "request_step to_vec digest w (Claimed r fp) w'"
  obtains c where "hm_get (cache_entries (rw_cache w)) r = None"
    "cache_order (rw_cache w') = cache_order (rw_cache w)"
    "hm_get (cache_entries (rw_cache w')) = (hm_get (cache_entries (rw_cache w)))(r \<mapsto> Pending fp c)"
  using assms
proof cases
  case (claimed k d cache watches)
  note cl = claim_request_Owner [OF claimed(7)]
  show ?thesis by (rule that) (use cl claimed in \<open>auto simp: table_simps\<close>)
qed

lemma quiet_step:
  assumes "request_step to_vec digest w l w'"
    and "\<forall>r fp. l \<noteq> Claimed r fp" "\<forall>r fp. l \<noteq> Abandoned r fp" "\<not> is_completed l"
  shows "rw_cache w' = rw_cache w"
    and "l = Replayed r fp frames \<Longrightarrow> hm_get (cache_entries (rw_cache w)) r = Some (Complete fp frames)"
  using assms by (cases; auto dest: claim_request_other)+

lemma drop_keeps:
  assumes "n \<le> length xs"
  shows "drop n ((xs @ r # ys) @ zs) = drop n xs @ r # (ys @ zs)"
  using assms by simp

lemma kept_step:
  assumes ok: "requests_ok w" and step: "request_step to_vec digest w l w'"
    and order: "cache_order (rw_cache w) = xs @ r # ys"
    and entry: "hm_get (cache_entries (rw_cache w)) r = Some (Complete fp frames)"
    and room: "is_completed l \<Longrightarrow> Suc (length ys) < cache_maximum (rw_cache w)"
  shows "\<exists>xs' ys'. cache_order (rw_cache w') = xs' @ r # ys' \<and> length ys' = length ys + (if is_completed l then 1 else 0)"
    and "hm_get (cache_entries (rw_cache w')) r = Some (Complete fp frames)"
    and "l \<noteq> Claimed r f" and "l = Replayed r f fs \<Longrightarrow> f = fp \<and> fs = frames"
proof -
  have "(\<exists>xs' ys'. cache_order (rw_cache w') = xs' @ r # ys' \<and> length ys' = length ys + (if is_completed l then 1 else 0))
    \<and> hm_get (cache_entries (rw_cache w')) r = Some (Complete fp frames) \<and> l \<noteq> Claimed r f
    \<and> (l = Replayed r f fs \<longrightarrow> f = fp \<and> fs = frames)"
  proof (cases l)
    case (Claimed r' fp')
    from step [unfolded Claimed] show ?thesis
      by (rule claimed_stepE) (use order entry Claimed in auto)
  next
    case (Abandoned r' fp')
    from step [unfolded Abandoned] ok show ?thesis
      by (rule abandoned_stepE) (use order entry Abandoned in auto)
  next
    case (Completed r' fp' frames')
    from step [unfolded Completed] ok obtain n c where c:
      "n = Suc (length (cache_order (rw_cache w))) - cache_maximum (rw_cache w)" "pending_at w r' fp' c"
      "cache_order (rw_cache w') = drop n (cache_order (rw_cache w) @ [r'])"
      "hm_get (cache_entries (rw_cache w')) = (\<lambda>x. if x \<in> set (take n (cache_order (rw_cache w))) then None
        else if x = r' then Some (Complete fp' frames') else hm_get (cache_entries (rw_cache w)) x)"
      by (rule completed_stepE) blast
    have cok: "distinct (cache_order (rw_cache w))" "length (cache_order (rw_cache w)) \<le> cache_maximum (rw_cache w)"
      using requests_okD(1) [OF ok] by (simp_all add: cache_ok_def)
    have n: "n \<le> length xs" using room Completed cok(2) order c(1) by (cases xs) auto
    have "r \<notin> set (take n xs)" using cok(1) order by (auto dest: in_set_takeD)
    then have "hm_get (cache_entries (rw_cache w')) r = Some (Complete fp frames)"
      using c(2,4) entry n unfolding order by auto
    moreover have "cache_order (rw_cache w') = drop n xs @ r # (ys @ [r'])"
      using c(3) unfolding order drop_keeps [OF n] .
    then have "\<exists>xs' ys'. cache_order (rw_cache w') = xs' @ r # ys' \<and> length ys' = length ys + 1"
      by (metis length_append_singleton Suc_eq_plus1)
    ultimately show ?thesis using Completed by simp
  qed (use quiet_step [OF step] order entry in auto)
  then show "\<exists>xs' ys'. cache_order (rw_cache w') = xs' @ r # ys' \<and> length ys' = length ys + (if is_completed l then 1 else 0)"
    "hm_get (cache_entries (rw_cache w')) r = Some (Complete fp frames)" "l \<noteq> Claimed r f"
    "l = Replayed r f fs \<Longrightarrow> f = fp \<and> fs = frames" by blast+
qed


lemma kept_run:
  assumes "request_run to_vec digest w ls w'" "requests_ok w"
    and "cache_order (rw_cache w) = xs @ [r]" "hm_get (cache_entries (rw_cache w)) r = Some (Complete fp frames)"
    and "length (filter is_completed ls) < cache_maximum (rw_cache w)"
  shows "(\<exists>xs' ys'. cache_order (rw_cache w') = xs' @ r # ys' \<and> length ys' = length (filter is_completed ls))
    \<and> hm_get (cache_entries (rw_cache w')) r = Some (Complete fp frames)
    \<and> (\<forall>f. Claimed r f \<notin> set ls) \<and> (\<forall>f fs. Replayed r f fs \<in> set ls \<longrightarrow> f = fp \<and> fs = frames)"
  using assms
proof induction
  case request_start
  then show ?case by auto
next
  case (request_snoc ls w' l w'')
  have few: "length (filter is_completed ls) < cache_maximum (rw_cache w)"
    using request_snoc.prems(4) by (cases "is_completed l") auto
  obtain xs' ys' where o: "cache_order (rw_cache w') = xs' @ r # ys'" "length ys' = length (filter is_completed ls)"
    and e: "hm_get (cache_entries (rw_cache w')) r = Some (Complete fp frames)"
    and c: "\<forall>f. Claimed r f \<notin> set ls" "\<forall>f fs. Replayed r f fs \<in> set ls \<longrightarrow> f = fp \<and> fs = frames"
    using request_snoc.IH [OF request_snoc.prems(1-3) few] by blast
  have ok: "requests_ok w'" by (rule request_run_ok [OF request_snoc.hyps(1) request_snoc.prems(1)])
  have room: "Suc (length ys') < cache_maximum (rw_cache w')" if "is_completed l"
    using that request_snoc.prems(4) o(2) request_run_limits [OF request_snoc.hyps(1)] by simp
  note k = kept_step [OF ok request_snoc.hyps(2) o(1) e room]
  have "\<exists>xs' ys'. cache_order (rw_cache w'') = xs' @ r # ys' \<and> length ys' = length (filter is_completed (ls @ [l]))"
    using k(1) o(2) by (cases "is_completed l") simp_all
  moreover have "(\<forall>f. Claimed r f \<notin> set (ls @ [l])) \<and> (\<forall>f fs. Replayed r f fs \<in> set (ls @ [l]) \<longrightarrow> f = fp \<and> fs = frames)"
    using k(3,4) c by auto
  ultimately show ?case using k(2) by blast
qed

text \<open>
  C30: a request is executed at most once while its answer is retained. After its completion, and
  until as many other requests have completed as the cache retains, no dispatch becomes the owner
  of the same request again, and every dispatch that repeats it gets exactly the frames of the
  first execution, for the same bytes.
\<close>

theorem request_replayed_not_repeated:
  assumes limits: "0 < host_completed_request_capacity limits"
    and before: "request_run to_vec digest (request_world_new limits) ls w"
    and first: "request_step to_vec digest w (Completed r fp frames) w1"
    and after: "request_run to_vec digest w1 ls' w2"
    and window: "length (filter is_completed ls') < host_completed_request_capacity limits"
  shows "(\<forall>f. Claimed r f \<notin> set ls') \<and> (\<forall>f fs. Replayed r f fs \<in> set ls' \<longrightarrow> f = fp \<and> fs = frames)"
proof -
  have ok: "requests_ok w" by (rule request_run_ok [OF before request_world_new_ok [OF limits]])
  have ok1: "requests_ok w1" by (rule request_step_ok [OF first ok])
  have max: "cache_maximum (rw_cache w) = host_completed_request_capacity limits"
    using request_run_limits [OF before] by (simp add: request_world_new_def RequestCache_new_def)
  obtain n c where c: "n = Suc (length (cache_order (rw_cache w))) - cache_maximum (rw_cache w)" "pending_at w r fp c"
      "cache_order (rw_cache w1) = drop n (cache_order (rw_cache w) @ [r])"
      "hm_get (cache_entries (rw_cache w1)) = (\<lambda>x. if x \<in> set (take n (cache_order (rw_cache w))) then None
        else if x = r then Some (Complete fp frames) else hm_get (cache_entries (rw_cache w)) x)"
    by (rule completed_stepE [OF first ok]) blast
  have n: "n \<le> length (cache_order (rw_cache w))" using c(1) max limits by simp
  then have o: "cache_order (rw_cache w1) = drop n (cache_order (rw_cache w)) @ [r]" using c(3) by simp
  have "r \<notin> set (cache_order (rw_cache w))" by (rule pending_not_completed [OF requests_okD(1) [OF ok] c(2)])
  then have e: "hm_get (cache_entries (rw_cache w1)) r = Some (Complete fp frames)" using c(4) by (auto dest: in_set_takeD)
  have "length (filter is_completed ls') < cache_maximum (rw_cache w1)"
    using window max request_step_limits [OF first] by simp
  from kept_run [OF after ok1 o e this] show ?thesis by blast
qed

text \<open>
  C31: no waiter is lost. A dispatch that waits for another one has been notified, or the owner of
  its request is executing the same bytes, and the step by which that owner completes or is
  dropped notifies it.
\<close>

theorem waiting_dispatch_is_notified:
  assumes limits: "0 < host_completed_request_capacity limits"
    and run: "request_run to_vec digest (request_world_new limits) ls w"
    and k: "k < length (rw_dispatches w)" "dispatch_phase w k = Awaiting c"
  shows "rw_watches w ! c \<or> (\<exists>j \<in> owners w. dispatch_id w j = dispatch_id w k \<and> dispatch_fp w j = dispatch_fp w k)
    \<and> (\<forall>w' frames. request_step to_vec digest w (Completed (dispatch_id w k) (dispatch_fp w k) frames) w'
          \<or> request_step to_vec digest w (Abandoned (dispatch_id w k) (dispatch_fp w k)) w' \<longrightarrow> rw_watches w' ! c)"
proof -
  have ok: "requests_ok w" by (rule request_run_ok [OF run request_world_new_ok [OF limits]])
  show ?thesis
  proof (cases "rw_watches w ! c")
    case False
    with requests_okD(8) [OF ok k] have p: "pending_at w (dispatch_id w k) (dispatch_fp w k) c" "c < length (rw_watches w)"
      by auto
    have "rw_watches w' ! c" if "request_step to_vec digest w (Completed (dispatch_id w k) (dispatch_fp w k) frames) w'" for w' frames
      by (rule completed_stepE [OF that ok]) (use p in auto)
    moreover have "rw_watches w' ! c" if "request_step to_vec digest w (Abandoned (dispatch_id w k) (dispatch_fp w k)) w'" for w'
      by (rule abandoned_stepE [OF that ok]) (use p in auto)
    ultimately show ?thesis using requests_okD(4) [OF ok p(1)] by blast
  qed simp
qed


section \<open>Refinement of an idempotent executor\<close>

text \<open>
  The contract a client relies on, without channels, counters and eviction order: a request that
  is neither running nor answered may begin; only a running one finishes or is aborted; an answer
  may be given any number of times, and forgotten at any time.
\<close>

record IdempotentHost =
  ih_running :: "string \<rightharpoonup> fingerprint"
  ih_answers :: "string \<rightharpoonup> fingerprint \<times> HostFrame list"

datatype (plugins only: code size) IdempotentEvent =
    Begin string fingerprint
  | Finish string fingerprint "HostFrame list"
  | Abort string fingerprint
  | Answer string fingerprint "HostFrame list"
  | Forget string

inductive idempotent_step :: "IdempotentHost \<Rightarrow> IdempotentEvent \<Rightarrow> IdempotentHost \<Rightarrow> bool" where
  begins: "ih_running s r = None \<Longrightarrow> ih_answers s r = None \<Longrightarrow>
    idempotent_step s (Begin r fp) (s\<lparr>ih_running := (ih_running s)(r \<mapsto> fp)\<rparr>)"
| finishes: "ih_running s r = Some fp \<Longrightarrow>
    idempotent_step s (Finish r fp frames) \<lparr>ih_running = (ih_running s)(r := None), ih_answers = (ih_answers s)(r \<mapsto> (fp, frames))\<rparr>"
| aborts: "ih_running s r = Some fp \<Longrightarrow>
    idempotent_step s (Abort r fp) (s\<lparr>ih_running := (ih_running s)(r := None)\<rparr>)"
| answers: "ih_answers s r = Some (fp, frames) \<Longrightarrow> idempotent_step s (Answer r fp frames) s"
| forgets: "ih_answers s r \<noteq> None \<Longrightarrow> idempotent_step s (Forget r) (s\<lparr>ih_answers := (ih_answers s)(r := None)\<rparr>)"

inductive idempotent_run :: "IdempotentHost \<Rightarrow> IdempotentEvent list \<Rightarrow> IdempotentHost \<Rightarrow> bool" for s where
  idempotent_start: "idempotent_run s [] s"
| idempotent_snoc: "idempotent_run s es s' \<Longrightarrow> idempotent_step s' e s'' \<Longrightarrow> idempotent_run s (es @ [e]) s''"

lemma idempotent_run_append:
  assumes "idempotent_run s' es' s''" "idempotent_run s es s'"
  shows "idempotent_run s (es @ es') s''"
  using assms by induction (auto simp: append_assoc [symmetric] simp del: append_assoc intro: idempotent_snoc)

fun visible :: "IdempotentEvent \<Rightarrow> bool" where
  "visible (Forget r) = False"
| "visible _ = True"

definition running_of :: "CacheEntry option \<Rightarrow> fingerprint option" where
  "running_of e = (case e of Some (Pending fp _) \<Rightarrow> Some fp | _ \<Rightarrow> None)"

definition answer_of :: "CacheEntry option \<Rightarrow> (fingerprint \<times> HostFrame list) option" where
  "answer_of e = (case e of Some (Complete fp frames) \<Rightarrow> Some (fp, frames) | _ \<Rightarrow> None)"

lemma entry_of_simps [simp]:
  "running_of None = None" "running_of (Some (Pending fp c)) = Some fp" "running_of (Some (Complete fp frames)) = None"
  "answer_of None = None" "answer_of (Some (Pending fp c)) = None" "answer_of (Some (Complete fp frames)) = Some (fp, frames)"
  by (simp_all add: running_of_def answer_of_def)

definition abstract_cache :: "RequestCache \<Rightarrow> IdempotentHost" where
  "abstract_cache cache = \<lparr>ih_running = running_of \<circ> hm_get (cache_entries cache),
     ih_answers = answer_of \<circ> hm_get (cache_entries cache)\<rparr>"

fun observed :: "RequestLabel \<Rightarrow> IdempotentEvent list" where
  "observed (Claimed r fp) = [Begin r fp]"
| "observed (Completed r fp frames) = [Finish r fp frames]"
| "observed (Abandoned r fp) = [Abort r fp]"
| "observed (Replayed r fp frames) = [Answer r fp frames]"
| "observed _ = []"

lemma forget_run:
  "distinct rs \<Longrightarrow> \<forall>r \<in> set rs. ih_answers s r \<noteq> None \<Longrightarrow>
    idempotent_run s (map Forget rs) (s\<lparr>ih_answers := (\<lambda>r. if r \<in> set rs then None else ih_answers s r)\<rparr>)"
proof (induction rs rule: rev_induct)
  case Nil
  then show ?case using idempotent_start by simp
next
  case (snoc r rs)
  let ?s = "s\<lparr>ih_answers := (\<lambda>r. if r \<in> set rs then None else ih_answers s r)\<rparr>"
  have "idempotent_step ?s (Forget r) (?s\<lparr>ih_answers := (ih_answers ?s)(r := None)\<rparr>)"
    using snoc.prems by (intro forgets) simp
  with snoc have "idempotent_run s (map Forget rs @ [Forget r]) (?s\<lparr>ih_answers := (ih_answers ?s)(r := None)\<rparr>)"
    by (intro idempotent_snoc) auto
  moreover have "?s\<lparr>ih_answers := (ih_answers ?s)(r := None)\<rparr>
      = s\<lparr>ih_answers := (\<lambda>x. if x \<in> set (rs @ [r]) then None else ih_answers s x)\<rparr>" by (cases s) (auto simp: fun_eq_iff)
  ultimately show ?case by simp
qed

lemma single_run: "idempotent_step s e s' \<Longrightarrow> idempotent_run s [e] s'"
  using idempotent_snoc [OF idempotent_start] by fastforce

lemma completed_refines:
  assumes ok: "requests_ok w" and step: "request_step to_vec digest w (Completed r fp frames) w'"
  obtains rs where "idempotent_run (abstract_cache (rw_cache w)) (Finish r fp frames # map Forget rs) (abstract_cache (rw_cache w'))"
proof -
  from step ok obtain n c where c: "pending_at w r fp c"
      "hm_get (cache_entries (rw_cache w')) = (\<lambda>x. if x \<in> set (take n (cache_order (rw_cache w))) then None
        else if x = r then Some (Complete fp frames) else hm_get (cache_entries (rw_cache w)) x)"
    by (rule completed_stepE) blast
  let ?a = "abstract_cache (rw_cache w)" and ?rs = "take n (cache_order (rw_cache w))"
  let ?m = "\<lparr>ih_running = (ih_running ?a)(r := None), ih_answers = (ih_answers ?a)(r \<mapsto> (fp, frames))\<rparr>"
  have cok: "distinct (cache_order (rw_cache w))" "set (cache_order (rw_cache w)) = completed_ids (rw_cache w)"
    using requests_okD(1) [OF ok] by (simp_all add: cache_ok_def)
  have fin: "\<exists>f fs. hm_get (cache_entries (rw_cache w)) x = Some (Complete f fs)" if "x \<in> set ?rs" for x
    using in_set_takeD [OF that] cok(2) by (auto simp: completed_ids_def)
  have "idempotent_step ?a (Finish r fp frames) ?m" using c(1) by (intro finishes) (simp add: abstract_cache_def)
  moreover have "idempotent_run ?m (map Forget ?rs) (?m\<lparr>ih_answers := (\<lambda>x. if x \<in> set ?rs then None else ih_answers ?m x)\<rparr>)"
    using fin by (intro forget_run distinct_take [OF cok(1)]) (fastforce simp: abstract_cache_def)
  moreover have "?m\<lparr>ih_answers := (\<lambda>x. if x \<in> set ?rs then None else ih_answers ?m x)\<rparr> = abstract_cache (rw_cache w')"
  proof (rule IdempotentHost.equality)
    have "((ih_running ?a)(r := None)) x = ih_running (abstract_cache (rw_cache w')) x" for x
      using fin [of x] by (cases "x \<in> set ?rs") (auto simp: abstract_cache_def c(2))
    then show "ih_running (?m\<lparr>ih_answers := (\<lambda>x. if x \<in> set ?rs then None else ih_answers ?m x)\<rparr>)
        = ih_running (abstract_cache (rw_cache w'))" by (simp add: fun_eq_iff)
  qed (auto simp: abstract_cache_def c(2) fun_eq_iff)
  ultimately have "idempotent_run ?a [Finish r fp frames] ?m" "idempotent_run ?m (map Forget ?rs) (abstract_cache (rw_cache w'))"
    by (simp_all add: single_run)
  then have "idempotent_run ?a ([Finish r fp frames] @ map Forget ?rs) (abstract_cache (rw_cache w'))"
    by (metis idempotent_run_append)
  then show ?thesis using that by simp
qed

lemma step_refines:
  assumes ok: "requests_ok w" and step: "request_step to_vec digest w l w'"
  shows "\<exists>es. idempotent_run (abstract_cache (rw_cache w)) es (abstract_cache (rw_cache w')) \<and> filter visible es = observed l"
proof (cases l)
  case (Claimed r fp)
  from step [unfolded Claimed] obtain c where c: "hm_get (cache_entries (rw_cache w)) r = None"
    "hm_get (cache_entries (rw_cache w')) = (hm_get (cache_entries (rw_cache w)))(r \<mapsto> Pending fp c)"
    by (rule claimed_stepE)
  have "idempotent_step (abstract_cache (rw_cache w)) (Begin r fp) (abstract_cache (rw_cache w'))"
    using begins [of "abstract_cache (rw_cache w)" r fp] c by (simp add: abstract_cache_def fun_upd_comp fun_upd_idem)
  from single_run [OF this] show ?thesis using Claimed by (auto intro!: exI [of _ "[Begin r fp]"])
next
  case (Abandoned r fp)
  from step [unfolded Abandoned] ok obtain c where c: "pending_at w r fp c"
    "hm_get (cache_entries (rw_cache w')) = (hm_get (cache_entries (rw_cache w)))(r := None)"
    by (rule abandoned_stepE)
  have "idempotent_step (abstract_cache (rw_cache w)) (Abort r fp) (abstract_cache (rw_cache w'))"
    using aborts [of "abstract_cache (rw_cache w)" r fp] c by (simp add: abstract_cache_def fun_upd_comp fun_upd_idem)
  from single_run [OF this] show ?thesis using Abandoned by (auto intro!: exI [of _ "[Abort r fp]"])
next
  case (Completed r fp frames)
  obtain rs where "idempotent_run (abstract_cache (rw_cache w)) (Finish r fp frames # map Forget rs) (abstract_cache (rw_cache w'))"
    by (rule completed_refines [OF ok step [unfolded Completed]])
  then show ?thesis using Completed by (auto intro!: exI [of _ "Finish r fp frames # map Forget rs"] simp: filter_empty_conv)
next
  case (Replayed r fp frames)
  have q: "rw_cache w' = rw_cache w" "hm_get (cache_entries (rw_cache w)) r = Some (Complete fp frames)"
    using quiet_step [OF step] Replayed by auto
  have "idempotent_step (abstract_cache (rw_cache w)) (Answer r fp frames) (abstract_cache (rw_cache w'))"
    using answers [of "abstract_cache (rw_cache w)" r fp frames] q by (simp add: abstract_cache_def)
  from single_run [OF this] show ?thesis using Replayed by (auto intro!: exI [of _ "[Answer r fp frames]"])
qed (use quiet_step [OF step] idempotent_start in \<open>auto intro!: exI [of _ "[]"]\<close>)

text \<open>
  C32: the request cache refines the idempotent executor: every interleaving of dispatches is, in
  its executions, completions, abandonments and repeated answers and in their order, a run of the
  abstract host, which forgets an answer where the cache evicts it.
\<close>

theorem request_cache_refines:
  assumes limits: "0 < host_completed_request_capacity limits"
    and run: "request_run to_vec digest (request_world_new limits) ls w"
  shows "\<exists>es. idempotent_run \<lparr>ih_running = Map.empty, ih_answers = Map.empty\<rparr> es (abstract_cache (rw_cache w))
    \<and> filter visible es = concat (map observed ls)"
  using run
proof induction
  case request_start
  have "abstract_cache (rw_cache (request_world_new limits)) = \<lparr>ih_running = Map.empty, ih_answers = Map.empty\<rparr>"
    by (auto simp: abstract_cache_def request_world_new_def RequestCache_new_def fun_eq_iff)
  then show ?case using idempotent_start by (auto intro!: exI [of _ "[]"])
next
  case (request_snoc ls w l w')
  have ok: "requests_ok w" by (rule request_run_ok [OF request_snoc.hyps(1) request_world_new_ok [OF limits]])
  from request_snoc.IH step_refines [OF ok request_snoc.hyps(2)] show ?case
    by (force intro: idempotent_run_append)
qed


section \<open>A sample run\<close>

text \<open>Two dispatches of one request: the first executes it, the second waits and gets the same frames.\<close>

abbreviation sample_limits :: RemoteRuntimeHostLimits where
  "sample_limits \<equiv> \<lparr>host_completed_request_capacity = 2, host_pending_request_capacity = 2\<rparr>"

abbreviation sample_frame :: ClientFrame where
  "sample_frame \<equiv> \<lparr>frame_version = 1, frame_request_id = ''q'', frame_request = Dispose (RuntimeId ''r'')\<rparr>"

abbreviation sample_dispatch :: "DispatchPhase \<Rightarrow> Dispatch" where
  "sample_dispatch p \<equiv> \<lparr>d_request_id = ''q'', d_fingerprint = [], d_phase = p\<rparr>"

abbreviation sample_pending :: RequestCache where
  "sample_pending \<equiv> \<lparr>cache_entries = [(''q'', Pending [] 0)], cache_order = [], cache_maximum = 2,
     cache_pending = 1, cache_pending_maximum = 2\<rparr>"

abbreviation sample_complete :: RequestCache where
  "sample_complete \<equiv> \<lparr>cache_entries = [(''q'', Complete [] [])], cache_order = [''q''], cache_maximum = 2,
     cache_pending = 0, cache_pending_maximum = 2\<rparr>"

abbreviation sample_requests :: "RequestCache \<Rightarrow> bool list \<Rightarrow> DispatchPhase list \<Rightarrow> RequestWorld" where
  "sample_requests cache watches ps \<equiv> \<lparr>rw_cache = cache, rw_watches = watches, rw_dispatches = map sample_dispatch ps\<rparr>"

abbreviation sample_run_to :: "RequestLabel list \<Rightarrow> RequestWorld \<Rightarrow> bool" where
  "sample_run_to \<equiv> request_run (\<lambda>_. Inr []) (\<lambda>_. []) (request_world_new sample_limits)"

abbreviation sample_step :: "RequestWorld \<Rightarrow> RequestLabel \<Rightarrow> RequestWorld \<Rightarrow> bool" where
  "sample_step \<equiv> request_step (\<lambda>_. Inr []) (\<lambda>_. [])"

lemma sample_received:
  "sample_step (sample_requests cache watches ps) (Received ''q'' []) (sample_requests cache watches (ps @ [Claiming]))"
proof -
  have "encode_client_frame (\<lambda>_. Inr []) sample_frame = Inr []" by code_simp
  moreover have "request_requires_deduplication (frame_request sample_frame)" by code_simp
  ultimately show ?thesis
    using received [of "\<lambda>_. Inr []" sample_frame "[]" "\<lambda>_. []" "sample_requests cache watches ps"] by simp
qed

lemma step_eq: "request_step to_vec digest w l v \<Longrightarrow> l = l' \<Longrightarrow> v = v' \<Longrightarrow> request_step to_vec digest w l' v'"
  by simp

lemma sample_claims:
  "sample_step (sample_requests (RequestCache_new sample_limits) [] [Claiming, Claiming]) (Claimed ''q'' [])
     (sample_requests sample_pending [False] [Owning, Claiming])"
  by (rule step_eq [OF claimed [of 0 _ "sample_dispatch Claiming" sample_pending "[False]"]])
    (simp_all add: claim_request_def RequestCache_new_def)

lemma sample_awaits:
  "sample_step (sample_requests sample_pending [False] [Owning, Claiming]) (Awaited ''q'' [])
     (sample_requests sample_pending [False] [Owning, Awaiting 0])"
  by (rule step_eq [OF awaited [of "Suc 0" _ "sample_dispatch Claiming" 0 sample_pending "[False]"]])
    (simp_all add: claim_request_def)

lemma sample_completes:
  "sample_step (sample_requests sample_pending [False] [Owning, Awaiting 0]) (Completed ''q'' [] [])
     (sample_requests sample_complete [True] [Delivering [], Awaiting 0])"
  by (rule step_eq [OF completed [of 0 _ "sample_dispatch Owning" "[]" sample_complete "[True]"]])
    (simp_all add: complete_request_def pending_channel_def evict_completed_def)

lemma sample_wakes:
  "sample_step (sample_requests sample_complete [True] [Delivering [], Awaiting 0]) (Woken ''q'')
     (sample_requests sample_complete [True] [Delivering [], Claiming])"
  by (rule step_eq [OF woken [of "Suc 0" _ "sample_dispatch (Awaiting 0)" 0]]) simp_all

lemma sample_answers:
  "sample_step (sample_requests sample_complete [True] [Delivering [], Claiming]) (Replayed ''q'' [] [])
     (sample_requests sample_complete [True] [Delivering [], Delivering []])"
  by (rule step_eq [OF replayed [of "Suc 0" _ "sample_dispatch Claiming" "[]" sample_complete "[True]"]])
    (simp_all add: claim_request_def)

lemma sample_waiting:
  "sample_run_to [Received ''q'' [], Received ''q'' [], Claimed ''q'' [], Awaited ''q'' []]
     (sample_requests sample_pending [False] [Owning, Awaiting 0])"
proof -
  let ?c = "RequestCache_new sample_limits"
  have "sample_run_to [] (sample_requests ?c [] [])"
    using request_start [of _ _ "request_world_new sample_limits"] by (simp add: request_world_new_def)
  from request_snoc [OF request_snoc [OF this sample_received] sample_received]
  have "sample_run_to [Received ''q'' [], Received ''q'' []] (sample_requests ?c [] [Claiming, Claiming])"
    unfolding append_Nil append_Cons .
  from request_snoc [OF request_snoc [OF this sample_claims] sample_awaits] show ?thesis
    unfolding append_Nil append_Cons .
qed

lemma sample_replays:
  "request_run (\<lambda>_. Inr []) (\<lambda>_. []) (sample_requests sample_complete [True] [Delivering [], Awaiting 0])
     [Woken ''q'', Replayed ''q'' [] []] (sample_requests sample_complete [True] [Delivering [], Delivering []])"
  using request_snoc [OF request_snoc [OF request_start sample_wakes] sample_answers] unfolding append_Nil append_Cons .

theorem request_cache_bounded_witness:
  "length (cache_entries sample_pending)
     = length (cache_order sample_pending) + card (owners (sample_requests sample_pending [False] [Owning, Awaiting 0]))"
  using request_cache_bounded [OF _ sample_waiting] by simp

theorem request_replayed_not_repeated_witness:
  "\<forall>f. Claimed ''q'' f \<notin> set [Woken ''q'', Replayed ''q'' [] []]"
  using request_replayed_not_repeated [OF _ sample_waiting sample_completes sample_replays] by simp

theorem waiting_dispatch_is_notified_witness:
  "\<exists>j \<in> owners (sample_requests sample_pending [False] [Owning, Awaiting 0]).
     dispatch_id (sample_requests sample_pending [False] [Owning, Awaiting 0]) j = ''q''"
  using waiting_dispatch_is_notified [OF _ sample_waiting, of 1 0] by auto

theorem request_cache_refines_witness:
  "\<exists>es. idempotent_run \<lparr>ih_running = Map.empty, ih_answers = Map.empty\<rparr> es (abstract_cache sample_pending)
    \<and> filter visible es = [Begin ''q'' []]"
  using request_cache_refines [OF _ sample_waiting] by simp

end
