(* ===== verification/ProtocolStream.thy ===== *)
theory ProtocolStream
  imports ProtocolHost
begin

text \<open>
  Model of \<^verbatim>\<open>src/protocol_stream.rs\<close>: frames with a four-byte big-endian length prefix over a byte
  stream, the client connection and the loop that serves one connection. A reader is the list of
  the bytes it will still give, ended by the end of the stream; a writer is the list of the bytes
  it took, and may fail after some of them.
\<close>

section \<open>The code\<close>

unbundle bit_operations_syntax

datatype ProtocolStreamError =
    Io string
  | FrameSize usize
  | Codec ProtocolCodecError
  | Host RemoteRuntimeHostError
  | ReadTimeout duration

definition DEFAULT_FRAME_READ_TIMEOUT :: duration where
  "DEFAULT_FRAME_READ_TIMEOUT = 60 * 1000000000"

definition check_size :: "usize \<Rightarrow> ProtocolStreamError + unit" where
  "check_size size' = (if size' = 0 \<or> size' > MAX_PROTOCOL_FRAME_BYTES then Inl (FrameSize size') else Inr ())"

text \<open>\<open>u32::to_be_bytes\<close> and \<open>u32::from_be_bytes\<close>.\<close>

definition to_be_bytes :: "u32 \<Rightarrow> u8 list" where
  "to_be_bytes w = [ucast (drop_bit 24 w), ucast (drop_bit 16 w), ucast (drop_bit 8 w), ucast w]"

definition from_be_bytes :: "u8 \<Rightarrow> u8 \<Rightarrow> u8 \<Rightarrow> u8 \<Rightarrow> u32" where
  "from_be_bytes a b c d =
     push_bit 24 (ucast a) OR push_bit 16 (ucast b) OR push_bit 8 (ucast c) OR ucast d"

text \<open>\<open>read_exact\<close> of \<open>n\<close> bytes: too few are an I/O error and leave nothing to read.\<close>

definition read_exact :: "usize \<Rightarrow> u8 list \<Rightarrow> (ProtocolStreamError + u8 list) \<times> u8 list" where
  "read_exact n reader =
     (if length reader < n then (Inl (Io ''early eof''), []) else (Inr (take n reader), drop n reader))"

definition read_frame :: "u8 list \<Rightarrow> (ProtocolStreamError + u8 list option) \<times> u8 list" where
  "read_frame reader =
     (case reader of
        [] \<Rightarrow> (Inr None, [])
      | first # rest \<Rightarrow>
          (case read_exact 3 rest of
             (Inl e, r) \<Rightarrow> (Inl e, r)
           | (Inr tail, r) \<Rightarrow>
               (let size' = unat (from_be_bytes first (tail ! 0) (tail ! 1) (tail ! 2)) in
                case check_size size' of
                  Inl e \<Rightarrow> (Inl e, r)
                | Inr _ \<Rightarrow>
                    (case read_exact size' r of
                       (Inl e, r') \<Rightarrow> (Inl e, r')
                     | (Inr bs, r') \<Rightarrow> (Inr (Some bs), r')))))"

text \<open>\<open>fault\<close>: the writer fails with a message after it took some bytes of the frame.\<close>

definition write_frame ::
    "(string \<times> nat) option \<Rightarrow> u8 list \<Rightarrow> u8 list \<Rightarrow> (ProtocolStreamError + unit) \<times> u8 list" where
  "write_frame fault writer bs =
     (case check_size (length bs) of
        Inl e \<Rightarrow> (Inl e, writer)
      | Inr _ \<Rightarrow>
          if length bs \<ge> 2 ^ 32 then (Inl (FrameSize (length bs)), writer)
          else let frame = to_be_bytes (of_nat (length bs)) @ bs in
               case fault of
                 None \<Rightarrow> (Inr (), writer @ frame)
               | Some (e, n) \<Rightarrow> (Inl (Io e), writer @ take n frame))"

datatype RemoteTransportError = Disconnected string | Unauthorized string | Rejected string

fun transport_error :: "ProtocolStreamError \<Rightarrow> RemoteTransportError" where
  "transport_error (Io _) = Disconnected ''runtime byte stream closed or failed''"
| "transport_error _ = RemoteTransportError.Rejected ''runtime byte stream rejected an invalid protocol frame''"

definition connection_send ::
    "(ClientFrame \<Rightarrow> codec_error + u8 list) \<Rightarrow> (string \<times> nat) option \<Rightarrow> u8 list \<Rightarrow> ClientFrame
      \<Rightarrow> (RemoteTransportError + unit) \<times> u8 list" where
  "connection_send to_vec fault writer frame =
     (case encode_client_frame to_vec frame of
        Inl e \<Rightarrow> (Inl (transport_error (Codec e)), writer)
      | Inr bs \<Rightarrow> (case write_frame fault writer bs of (res, writer') \<Rightarrow> (map_err transport_error res, writer')))"

definition connection_receive ::
    "(u8 list \<Rightarrow> codec_error + HostFrame) \<Rightarrow> u8 list \<Rightarrow> (RemoteTransportError + HostFrame) \<times> u8 list" where
  "connection_receive from_slice reader =
     (case read_frame reader of
        (Inl e, r) \<Rightarrow> (Inl (transport_error e), r)
      | (Inr None, r) \<Rightarrow> (Inl (Disconnected ''runtime byte stream closed''), r)
      | (Inr (Some bs), r) \<Rightarrow>
          (map_err (\<lambda>e. transport_error (Codec e)) (decode_host_frame from_slice bs), r))"

definition sink_send ::
    "(HostFrame \<Rightarrow> codec_error + u8 list) \<Rightarrow> (string \<times> nat) option \<Rightarrow> u8 list \<Rightarrow> HostFrame
      \<Rightarrow> (HostFrameSinkError + unit) \<times> u8 list" where
  "sink_send to_vec fault writer frame =
     (case encode_host_frame to_vec frame of
        Inl _ \<Rightarrow> (Inl (HostFrameSinkError ''invalid outgoing runtime frame''), writer)
      | Inr bs \<Rightarrow>
          (case write_frame fault writer bs of
             (res, writer') \<Rightarrow> (map_err (\<lambda>_. HostFrameSinkError ''runtime byte stream closed or failed'') res, writer')))"

lemma read_exact_length: "read_exact n reader = (res, r) \<Longrightarrow> length r \<le> length reader"
  by (auto simp: read_exact_def split: if_splits)

lemma read_frame_length: "read_frame reader = (Inr (Some bs), r) \<Longrightarrow> length r < length reader"
  by (auto simp: read_frame_def Let_def le_imp_less_Suc split: list.splits prod.splits sum.splits
      dest!: read_exact_length)

text \<open>
  The serving loop. \<open>timed_out\<close> says whether reading a frame from the given reader exceeds the
  deadline; \<open>dispatch\<close> is the host. The loop ends because every frame consumes bytes.
\<close>

function serve_authenticated_stream_with_read_timeout ::
    "(u8 list \<Rightarrow> codec_error + ClientFrame) \<Rightarrow> ('h \<Rightarrow> ClientFrame \<Rightarrow> (RemoteRuntimeHostError + unit) \<times> 'h)
      \<Rightarrow> (u8 list \<Rightarrow> bool) \<Rightarrow> duration \<Rightarrow> 'h \<Rightarrow> u8 list \<Rightarrow> (ProtocolStreamError + unit) \<times> 'h" where
  "serve_authenticated_stream_with_read_timeout from_slice dispatch timed_out read_timeout host reader =
     (if timed_out reader then (Inl (ReadTimeout read_timeout), host)
      else case read_frame reader of
             (Inl e, _) \<Rightarrow> (Inl e, host)
           | (Inr None, _) \<Rightarrow> (Inr (), host)
           | (Inr (Some bs), reader') \<Rightarrow>
               (case decode_client_frame from_slice bs of
                  Inl e \<Rightarrow> (Inl (Codec e), host)
                | Inr frame \<Rightarrow>
                    (case dispatch host frame of
                       (Inl e, host') \<Rightarrow> (Inl (Host e), host')
                     | (Inr _, host') \<Rightarrow>
                         serve_authenticated_stream_with_read_timeout from_slice dispatch timed_out read_timeout host' reader')))"
  by pat_completeness auto
termination
  by (relation "measure (\<lambda>(_, _, _, _, _, reader). length reader)") (auto dest: read_frame_length [OF sym])

declare serve_authenticated_stream_with_read_timeout.simps [simp del]

definition serve_authenticated_stream ::
    "(u8 list \<Rightarrow> codec_error + ClientFrame) \<Rightarrow> ('h \<Rightarrow> ClientFrame \<Rightarrow> (RemoteRuntimeHostError + unit) \<times> 'h)
      \<Rightarrow> (u8 list \<Rightarrow> bool) \<Rightarrow> 'h \<Rightarrow> u8 list \<Rightarrow> (ProtocolStreamError + unit) \<times> 'h" where
  "serve_authenticated_stream from_slice dispatch timed_out host reader =
     serve_authenticated_stream_with_read_timeout from_slice dispatch timed_out DEFAULT_FRAME_READ_TIMEOUT host reader"

section \<open>The framing\<close>

text \<open>
  A framing of byte strings: what the reader finds at the front of the stream is what the writer
  put there, and the rest of the stream is left alone.
\<close>

locale framing =
  fixes admissible :: "u8 list \<Rightarrow> bool"
    and put :: "u8 list \<Rightarrow> u8 list"
    and get :: "u8 list \<Rightarrow> ('e + u8 list option) \<times> u8 list"
  assumes get_put: "admissible bs \<Longrightarrow> get (put bs @ rest) = (Inr (Some bs), rest)"
    and get_end: "get [] = (Inr None, [])"
begin

lemma get_frames: "admissible bs \<Longrightarrow> get (concat (map put (bs # frames))) = (Inr (Some bs), concat (map put frames))"
  by (simp add: get_put)

lemma put_nonempty: "admissible bs \<Longrightarrow> put bs \<noteq> []"
  using get_put [of bs "[]"] get_end by auto

text \<open>The boundaries of frames are unambiguous.\<close>

lemma frames_injective:
  assumes "list_all admissible xs" "list_all admissible ys" "concat (map put xs) = concat (map put ys)"
  shows "xs = ys"
  using assms
proof (induction xs arbitrary: ys)
  case Nil
  then show ?case using put_nonempty by (cases ys) auto
next
  case (Cons x xs)
  then obtain y zs where ys: "ys = y # zs" using put_nonempty [of x] by (cases ys) auto
  have "get (concat (map put (x # xs))) = (Inr (Some x), concat (map put xs))"
    "get (concat (map put ys)) = (Inr (Some y), concat (map put zs))"
    using Cons.prems(1,2) unfolding ys by (simp_all add: get_put)
  with Cons.prems(3) have "x = y" "concat (map put xs) = concat (map put zs)" by (metis Inr_inject Pair_inject option.inject)+
  with Cons.IH Cons.prems(1,2) ys show ?case by simp
qed

end

lemma from_to_be_bytes:
  "from_be_bytes (ucast (drop_bit 24 w)) (ucast (drop_bit 16 w)) (ucast (drop_bit 8 w)) (ucast w) = w"
proof (rule bit_word_eqI)
  fix n :: nat
  assume "n < LENGTH(32)"
  then consider "n < 8" | "8 \<le> n" "n < 16" | "16 \<le> n" "n < 24" | "24 \<le> n" "n < 32" by force
  then show "bit (from_be_bytes (ucast (drop_bit 24 w)) (ucast (drop_bit 16 w)) (ucast (drop_bit 8 w)) (ucast w)) n \<longleftrightarrow> bit w n"
    unfolding from_be_bytes_def by cases (simp_all add: bit_simps less_diff_conv2)
qed

definition framed :: "u8 list \<Rightarrow> u8 list" where
  "framed bs = to_be_bytes (of_nat (length bs)) @ bs"

definition frame_size_ok :: "u8 list \<Rightarrow> bool" where
  "frame_size_ok bs \<longleftrightarrow> check_size (length bs) = Inr ()"

lemma frame_size_ok_iff: "frame_size_ok bs \<longleftrightarrow> bs \<noteq> [] \<and> length bs \<le> MAX_PROTOCOL_FRAME_BYTES"
  by (auto simp: frame_size_ok_def check_size_def)

lemma write_frame_eq:
  "frame_size_ok bs \<Longrightarrow> write_frame None writer bs = (Inr (), writer @ framed bs)"
  "write_frame None writer bs = (Inr (), writer') \<Longrightarrow> frame_size_ok bs \<and> writer' = writer @ framed bs"
  by (auto simp: frame_size_ok_def write_frame_def framed_def Let_def check_size_def MAX_PROTOCOL_FRAME_BYTES_def
      split: sum.splits if_splits)

lemma unat_length_u32: "length bs \<le> MAX_PROTOCOL_FRAME_BYTES \<Longrightarrow> unat (of_nat (length bs) :: u32) = length bs"
  by (simp add: unsigned_of_nat take_bit_nat_eq_self MAX_PROTOCOL_FRAME_BYTES_def)

lemma length_to_be_bytes [simp]: "length (to_be_bytes w) = 4"
  by (simp add: to_be_bytes_def)

lemma read_prefix:
  "read_frame (to_be_bytes w @ body) =
     (case check_size (unat w) of
        Inl e \<Rightarrow> (Inl e, body)
      | Inr _ \<Rightarrow> (case read_exact (unat w) body of (Inl e, r) \<Rightarrow> (Inl e, r) | (Inr bs, r) \<Rightarrow> (Inr (Some bs), r)))"
proof -
  have "read_exact 3 (a # b # c # body) = (Inr [a, b, c], body)" for a b c
    by (simp add: read_exact_def numeral_3_eq_3)
  then show ?thesis by (simp add: to_be_bytes_def read_frame_def from_to_be_bytes Let_def numeral_2_eq_2)
qed

lemma read_framed:
  assumes "frame_size_ok bs"
  shows "read_frame (framed bs @ rest) = (Inr (Some bs), rest)"
proof -
  have "length bs \<le> MAX_PROTOCOL_FRAME_BYTES" "check_size (length bs) = Inr ()"
    using assms frame_size_ok_iff by (auto simp: frame_size_ok_def)
  then show ?thesis by (simp add: framed_def read_prefix unat_length_u32 read_exact_def)
qed

interpretation wire: framing frame_size_ok framed read_frame
proof
  show "read_frame (framed bs @ rest) = (Inr (Some bs), rest)" if "frame_size_ok bs" for bs rest
    using that by (rule read_framed)
  show "read_frame [] = (Inr None, [])" by (simp add: read_frame_def)
qed


section \<open>Whole connections\<close>

text \<open>A client that sends several frames over one connection and stops at the first error.\<close>

fun send_all :: "(ClientFrame \<Rightarrow> codec_error + u8 list) \<Rightarrow> u8 list \<Rightarrow> ClientFrame list \<Rightarrow> (RemoteTransportError + unit) \<times> u8 list" where
  "send_all to_vec writer [] = (Inr (), writer)"
| "send_all to_vec writer (frame # frames) =
     (case connection_send to_vec None writer frame of
        (Inl e, writer') \<Rightarrow> (Inl e, writer')
      | (Inr _, writer') \<Rightarrow> send_all to_vec writer' frames)"

lemma connection_send_Inr:
  assumes "connection_send to_vec None writer frame = (Inr (), writer')"
  obtains bs where "encode_client_frame to_vec frame = Inr bs" "frame_size_ok bs" "writer' = writer @ framed bs"
  using assms by (auto simp: connection_send_def result_simps dest: write_frame_eq(2) split: sum.splits prod.splits)

lemma send_all_Inr:
  assumes "send_all to_vec writer frames = (Inr (), writer')"
  shows "\<exists>bss. list_all2 (\<lambda>frame bs. encode_client_frame to_vec frame = Inr bs \<and> frame_size_ok bs) frames bss
    \<and> writer' = writer @ concat (map framed bss)"
  using assms
proof (induction frames arbitrary: writer)
  case Nil
  then show ?case by simp
next
  case (Cons frame frames)
  then obtain w1 where w1: "connection_send to_vec None writer frame = (Inr (), w1)" "send_all to_vec w1 frames = (Inr (), writer')"
    by (auto split: prod.splits sum.splits)
  obtain bs where bs: "encode_client_frame to_vec frame = Inr bs" "frame_size_ok bs" "w1 = writer @ framed bs"
    by (rule connection_send_Inr [OF w1(1)])
  from Cons.IH [OF w1(2)] obtain bss where
    "list_all2 (\<lambda>frame bs. encode_client_frame to_vec frame = Inr bs \<and> frame_size_ok bs) frames bss"
    "writer' = w1 @ concat (map framed bss)" by blast
  with bs show ?case by (intro exI [of _ "bs # bss"]) simp
qed

lemma serve_framed:
  assumes codec: "inverse_codec to_vec from_slice"
    and sent: "list_all2 (\<lambda>frame bs. encode_client_frame to_vec frame = Inr bs \<and> frame_size_ok bs) frames bss"
    and accept: "\<And>host frame. fst (dispatch host frame) = Inr ()"
  shows "serve_authenticated_stream_with_read_timeout from_slice dispatch (\<lambda>_. False) deadline host (concat (map framed bss))
    = (Inr (), foldl (\<lambda>h frame. snd (dispatch h frame)) host frames)"
  using sent
proof (induction frames bss arbitrary: host rule: list_all2_induct)
  case Nil
  then show ?case by (simp add: serve_authenticated_stream_with_read_timeout.simps wire.get_end)
next
  case (Cons frame frames bs bss)
  have d: "decode_client_frame from_slice bs = Inr frame" using client_frame_roundtrip(1) [OF codec] Cons.hyps by blast
  obtain host' where h: "dispatch host frame = (Inr (), host')" using accept [of host frame] by (cases "dispatch host frame") auto
  have "read_frame (concat (map framed (bs # bss))) = (Inr (Some bs), concat (map framed bss))"
    using Cons.hyps by (intro wire.get_frames) blast
  then show ?case
    using Cons.IH [of host'] by (subst serve_authenticated_stream_with_read_timeout.simps) (simp add: d h)
qed


text \<open>
  C34: a cut connection never yields a frame. Of a proper, non-empty prefix of a written frame the
  reader reports an I/O error, whether the cut is in the length prefix or in the body; a prefix
  that announces an empty frame or one above the maximum is refused before any byte of its body
  is read.
\<close>

theorem truncated_or_oversized_frame_refused:
  assumes "frame_size_ok bs" "0 < n" "n < length (framed bs)"
    and "size' = 0 \<or> MAX_PROTOCOL_FRAME_BYTES < size'" "size' < 2 ^ 32"
  shows "read_frame (take n (framed bs)) = (Inl (Io ''early eof''), [])
    \<and> read_frame (to_be_bytes (of_nat size') @ body) = (Inl (FrameSize size'), body)"
proof
  have le: "length bs \<le> MAX_PROTOCOL_FRAME_BYTES" "check_size (length bs) = Inr ()"
    using assms(1) frame_size_ok_iff by (auto simp: frame_size_ok_def)
  show "read_frame (take n (framed bs)) = (Inl (Io ''early eof''), [])"
  proof (cases "n < 4")
    case True
    then obtain k where "n = Suc k" "k < 3" using assms(2) by (cases n) auto
    then show ?thesis by (auto simp: framed_def to_be_bytes_def read_frame_def read_exact_def)
  next
    case False
    then obtain k where "n = 4 + k" by (metis le_Suc_ex not_less)
    then show ?thesis
      using le assms(3) by (simp add: framed_def read_prefix unat_length_u32 read_exact_def)
  qed
  have "unat (of_nat size' :: u32) = size'" using assms(5) by (simp add: unsigned_of_nat take_bit_nat_eq_self)
  then show "read_frame (to_be_bytes (of_nat size') @ body) = (Inl (FrameSize size'), body)"
    using assms(4) by (auto simp: read_prefix check_size_def)
qed

section \<open>Sample streams\<close>

text \<open>A codec that knows one frame.\<close>

abbreviation sample_client_frame :: ClientFrame where
  "sample_client_frame \<equiv> \<lparr>frame_version = 4, frame_request_id = ''q'', frame_request = ClientRequest.Health (RuntimeId ''r'')\<rparr>"

definition sample_to_vec :: "ClientFrame \<Rightarrow> codec_error + u8 list" where
  "sample_to_vec frame = (if frame = sample_client_frame then Inr [123, 125] else Inl ''unknown frame'')"

definition sample_from_slice :: "u8 list \<Rightarrow> codec_error + ClientFrame" where
  "sample_from_slice bs = (if bs = [123, 125] then Inr sample_client_frame else Inl ''unknown bytes'')"

lemma sample_inverse: "inverse_codec sample_to_vec sample_from_slice"
  by (auto simp: inverse_codec_def sample_to_vec_def sample_from_slice_def split: if_splits)

lemma sample_valid: "validate_client_frame sample_client_frame = Inr ()"
  by code_simp

lemma sample_sent:
  "send_all sample_to_vec [] [sample_client_frame, sample_client_frame]
     = (Inr (), [0, 0, 0, 2, 123, 125, 0, 0, 0, 2, 123, 125])"
proof -
  have "encode_client_frame sample_to_vec sample_client_frame = Inr [123, 125]"
    by (simp add: encode_client_frame_def encode_bounded_def sample_to_vec_def validate_frame_size_def sample_valid MAX_PROTOCOL_FRAME_BYTES_def)
  moreover have "frame_size_ok [123, 125]" by (simp add: frame_size_ok_iff MAX_PROTOCOL_FRAME_BYTES_def)
  moreover have "framed [123, 125] = [0, 0, 0, 2, 123, 125]" by code_simp
  ultimately show ?thesis by (simp add: connection_send_def write_frame_eq(1))
qed


theorem truncated_or_oversized_frame_refused_witness:
  "read_frame [0, 0, 0, 2, 123] = (Inl (Io ''early eof''), [])
    \<and> read_frame [0, 0, 0, 0, 7] = (Inl (FrameSize 0), [7])"
proof -
  have "frame_size_ok [123, 125]" by (simp add: frame_size_ok_iff MAX_PROTOCOL_FRAME_BYTES_def)
  moreover have "take 5 (framed [123, 125]) = [0, 0, 0, 2, 123]" "length (framed [123, 125]) = 6"
    "to_be_bytes (of_nat 0) = [0, 0, 0, 0]" by code_simp+
  ultimately show ?thesis
    using truncated_or_oversized_frame_refused [of "[123, 125]" 5 0 "[7]"] by simp
qed

end
