(* ===== verification/HostDelivery.thy ===== *)
theory HostDelivery
  imports ProtocolHost JournalReplay
begin

text \<open>
  Delivery of the events of one runtime to an attached client, \<^verbatim>\<open>src/protocol_host.rs\<close> together with
  \<^verbatim>\<open>src/journal.rs\<close>: an attach registers its sink and replays the journal under the delivery gate, while
  the pumps of running turns append to the journal at any time and send under the same gate. The
  steps are the stretches of code between two suspension points.
\<close>

section \<open>The transition system\<close>

text \<open>
  The delivery gate: free, or held by an attach that has registered its sink, or by one whose
  frames are being delivered.
\<close>

datatype (plugins only: code size) 's Gate =
    Free
  | Registered 's string "(InvocationId, u64) btreemap" usize HostResponse
  | Replying 's string "HostFrame list"

text \<open>\<open>dw_pumps\<close> is the frame the pump of an invocation has still to send; \<open>dw_log\<close> what sinks received.\<close>

record ('c, 'h, 't, 's) DeliveryWorld =
  dw_host :: "('c, 'h, 't, 's) RemoteRuntimeHost"
  dw_gate :: "'s Gate"
  dw_pumps :: "InvocationId \<Rightarrow> HostFrame option"
  dw_log :: "('s \<times> HostFrame) list"

datatype (plugins only: code size) 's DeliveryLabel =
    AttachRegisters 's
  | AttachReads 's
  | AttachFails 's
  | DirectReplies 's "HostFrame list"
  | AttachReplies 's "HostFrame list" "HostFrame list"
  | PumpAppends EventEnvelope
  | PumpSends InvocationId bool
  | TurnRegisters 's

inductive delivery_step ::
    "('c, 'h, 't) RuntimeClientOps \<Rightarrow> RuntimeId \<Rightarrow> ('c, 'h, 't, 's) DeliveryWorld \<Rightarrow> 's DeliveryLabel
      \<Rightarrow> ('c, 'h, 't, 's) DeliveryWorld \<Rightarrow> bool"
  for ops rid where
  attach_registers:
    "dw_gate w = Free \<Longrightarrow> attach_register ops (dw_host w) rid sink = (Inr response, host') \<Longrightarrow>
     delivery_step ops rid w (AttachRegisters sink)
       (w\<lparr>dw_host := host', dw_gate := Registered sink request_id after limit response\<rparr>)"
| attach_reads:
    "dw_gate w = Registered sink request_id after limit response \<Longrightarrow>
     attach_replay (host_journal (dw_host w)) request_id rid after limit response = Inr frames \<Longrightarrow>
     delivery_step ops rid w (AttachReads sink) (w\<lparr>dw_gate := Replying sink request_id frames\<rparr>)"
| attach_fails:
    "dw_gate w = Registered sink request_id after limit response \<Longrightarrow>
     attach_replay (host_journal (dw_host w)) request_id rid after limit response = Inl failure \<Longrightarrow>
     delivery_step ops rid w (AttachFails sink) (w\<lparr>dw_gate := Free\<rparr>)"
| direct_reply:
    "frames = [Failure request_id failure] \<or> frames = [Response request_id response] \<Longrightarrow>
     send_direct_frames request_id outcomes frames = (res, delivered) \<Longrightarrow>
     delivery_step ops rid w (DirectReplies sink delivered) (w\<lparr>dw_log := dw_log w @ map (Pair sink) delivered\<rparr>)"
| attach_replies:
    "dw_gate w = Replying sink request_id frames \<Longrightarrow>
     send_direct_frames request_id outcomes frames = (res, delivered) \<Longrightarrow>
     delivery_step ops rid w (AttachReplies sink frames delivered)
       (w\<lparr>dw_gate := Free, dw_log := dw_log w @ map (Pair sink) delivered\<rparr>)"
| pump_appends:
    "dw_pumps w (event_invocation_id e) = None \<Longrightarrow> event_runtime_id e = rid \<Longrightarrow>
     pump_append (host_journal (dw_host w)) rid (event_invocation_id e) e = ((frame, more'), journal') \<Longrightarrow>
     delivery_step ops rid w (PumpAppends e)
       (w\<lparr>dw_host := (dw_host w)\<lparr>host_journal := journal'\<rparr>,
          dw_pumps := (dw_pumps w)(event_invocation_id e \<mapsto> frame)\<rparr>)"
| pump_sends:
    "dw_gate w = Free \<Longrightarrow> dw_pumps w i = Some frame \<Longrightarrow>
     send_live (dw_host w) rid frame delivered (dw_host w) = (out, host') \<Longrightarrow>
     delivery_step ops rid w (PumpSends i delivered)
       (w\<lparr>dw_host := host', dw_pumps := (dw_pumps w)(i := None),
          dw_log := dw_log w @ (case out of None \<Rightarrow> [] | Some entry \<Rightarrow> [entry])\<rparr>)"
| turn_registers:
    "delivery_step ops rid w (TurnRegisters sink)
       (w\<lparr>dw_host := (dw_host w)\<lparr>host_live_sinks := hm_insert rid sink (host_live_sinks (dw_host w))\<rparr>\<rparr>)"

inductive delivery_run ::
    "('c, 'h, 't) RuntimeClientOps \<Rightarrow> RuntimeId \<Rightarrow> ('c, 'h, 't, 's) DeliveryWorld \<Rightarrow> 's DeliveryLabel list
      \<Rightarrow> ('c, 'h, 't, 's) DeliveryWorld \<Rightarrow> bool"
  for ops rid w where
  delivery_start: "delivery_run ops rid w [] w"
| delivery_snoc: "delivery_run ops rid w ls w' \<Longrightarrow> delivery_step ops rid w' l w'' \<Longrightarrow> delivery_run ops rid w (ls @ [l]) w''"

section \<open>What the journal retains\<close>

definition held_events :: "InMemoryEventJournal \<Rightarrow> RuntimeId \<Rightarrow> InvocationId \<Rightarrow> EventEnvelope set" where
  "held_events journal rid i =
     {e. \<exists>r j. hm_get (js_runtimes (journal_inner journal)) rid = Some r \<and> (i, j) \<in> set (rj_invocations r)
        \<and> e \<in> set (ij_events j)}"

lemma set_hm_insert: "set (hm_insert k v m) \<subseteq> insert (k, v) (set m)"
  by (induction m) auto

lemma set_hm_remove: "set (hm_remove k m) \<subseteq> set m"
  by (auto simp: AList.delete_eq)

lemma invocation_append_events:
  assumes "invocation_append j e = (res, j')"
  shows "set (ij_events j') \<subseteq> set (ij_events j) \<union> {e'. e' = e \<and> is_ok res}"
proof -
  have "x \<in> insert e (set (ij_events j))" if "x \<in> set (drop n (ij_events j @ [e]))" for x n
    using set_drop_subset [of n "ij_events j @ [e]"] that by auto
  then show ?thesis
    using assms by (force simp: invocation_append_def Let_def evict_while_eq simp del: drop_append split: if_splits option.splits)
qed

lemma evict_invocation_subset:
  "set (fst (fold evict_invocation is s)) \<subseteq> set (fst s)"
proof (induction "is" arbitrary: s)
  case Nil
  then show ?case by simp
next
  case (Cons i "is")
  have "set (fst (evict_invocation i s)) \<subseteq> set (fst s)"
    using set_hm_remove [of i "fst s"] by (cases s) (auto simp: evict_invocation_def)
  with Cons.IH [of "evict_invocation i s"] show ?case by auto
qed

lemma open_invocation_subset:
  "set (rj_invocations (open_invocation r i mx)) \<subseteq> insert (i, InvocationJournal_new mx) (set (rj_invocations r))"
proof -
  let ?q = "rj_invocation_order r @ [i]" and ?n = "Suc (length (rj_invocation_order r)) - rj_max_invocations r"
  let ?s = "(hm_insert i (InvocationJournal_new mx) (rj_invocations r), rj_evicted_invocations r, rj_evicted_order r)"
  have "rj_invocations (open_invocation r i mx) = fst (fold evict_invocation (take ?n ?q) ?s)"
    by (simp add: open_invocation_def evict_while_eq split: prod.splits del: take_append)
  then show ?thesis
    using evict_invocation_subset [of "take ?n ?q" ?s] set_hm_insert [of i "InvocationJournal_new mx" "rj_invocations r"] by auto
qed


lemma runtime_append_events:
  assumes app: "runtime_append r e mx = (res, r')" and j: "(i, j) \<in> set (rj_invocations r')" "e' \<in> set (ij_events j)"
  shows "(\<exists>j0. (i, j0) \<in> set (rj_invocations r) \<and> e' \<in> set (ij_events j0)) \<or> (e' = e \<and> i = event_invocation_id e \<and> is_ok res)"
proof -
  let ?i = "event_invocation_id e"
  define r1 where "r1 = (if hm_get (rj_invocations r) ?i = None then open_invocation r ?i mx else r)"
  have sub: "set (rj_invocations r1) \<subseteq> insert (?i, InvocationJournal_new mx) (set (rj_invocations r))"
    using open_invocation_subset [of r ?i mx] by (auto simp: r1_def)
  have old: "\<exists>j0. (i, j0) \<in> set (rj_invocations r) \<and> e' \<in> set (ij_events j0)"
    if "(i, j1) \<in> set (rj_invocations r1)" "e' \<in> set (ij_events j1)" for j1
    using sub that by (auto simp: InvocationJournal_new_def)
  have eq: "runtime_append r e mx =
     (if ?i \<in> rj_evicted_invocations r then (Inl (SequenceConflict (event_runtime_id e) ?i (event_sequence e)), r)
      else if hm_get (rj_invocations r) ?i = None \<and> event_sequence e \<noteq> 1
      then (Inl (SequenceGap (event_runtime_id e) ?i 1 (event_sequence e)), r)
      else case hm_get (rj_invocations r1) ?i of
             None \<Rightarrow> (Inl (StateInvariant ''invocation disappeared before append''), r1)
           | Some j1 \<Rightarrow> (case invocation_append j1 e of (res, j2) \<Rightarrow>
               (res, r1\<lparr>rj_invocations := hm_insert ?i j2 (rj_invocations r1)\<rparr>)))"
    unfolding runtime_append_def Let_def r1_def ..
  show ?thesis
  proof (cases "r' = r \<or> r' = r1")
    case True
    then show ?thesis using j old by blast
  next
    case False
    then obtain j1 j2 where 3: "hm_get (rj_invocations r1) ?i = Some j1" "invocation_append j1 e = (res, j2)"
      "r' = r1\<lparr>rj_invocations := hm_insert ?i j2 (rj_invocations r1)\<rparr>"
      using app unfolding eq by (cases "hm_get (rj_invocations r1) ?i") (auto split: if_splits prod.splits)
    from j(1) 3(3) set_hm_insert [of ?i j2 "rj_invocations r1"] consider "i = ?i" "j = j2" | "(i, j) \<in> set (rj_invocations r1)"
      by auto
    then show ?thesis
    proof cases
      case 1
      then show ?thesis using invocation_append_events [OF 3(2)] j(2) old [of j1] map_of_SomeD [OF 3(1)] by blast
    next
      case 2
      then show ?thesis using old j(2) by blast
    qed
  qed
qed

lemma fold_hm_remove_get: "hm_get (fold hm_remove ks m) k = Some v \<Longrightarrow> hm_get m k = Some v"
  by (induction ks arbitrary: m) (fastforce simp: table_simps split: if_splits)+

lemma open_runtime_get:
  assumes "hm_get (js_runtimes (open_runtime limits s rid)) rid = Some r"
  shows "hm_get (js_runtimes s) rid = Some r \<or> rj_invocations r = []"
  using assms
  by (auto simp: open_runtime_def evict_while_eq RuntimeJournal_new_def table_simps simp del: take_append
      dest!: fold_hm_remove_get split: if_splits)

lemma journal_append_retained:
  assumes "journal_append journal e = (res, journal')"
  shows "held_events journal' (event_runtime_id e) i
    \<subseteq> held_events journal (event_runtime_id e) i \<union> {e'. e' = e \<and> i = event_invocation_id e \<and> is_ok res}"
proof
  let ?rid = "event_runtime_id e" and ?s = "open_runtime (journal_limits journal) (journal_inner journal) (event_runtime_id e)"
  fix e' assume "e' \<in> held_events journal' ?rid i"
  then obtain r' j where r': "hm_get (js_runtimes (journal_inner journal')) ?rid = Some r'"
    and j: "(i, j) \<in> set (rj_invocations r')" "e' \<in> set (ij_events j)" by (auto simp: held_events_def)
  consider "journal' = journal" | r where "hm_get (js_runtimes ?s) ?rid = Some r" "r' = r"
    | r where "hm_get (js_runtimes ?s) ?rid = Some r"
      "runtime_append r e (jl_max_events_per_invocation (journal_limits journal)) = (res, r')"
    using assms r' by (auto simp: journal_append_def Let_def table_simps split: if_splits option.splits prod.splits)
  then show "e' \<in> held_events journal ?rid i \<union> {e'. e' = e \<and> i = event_invocation_id e \<and> is_ok res}"
  proof cases
    case 1
    then show ?thesis using r' j by (auto simp: held_events_def)
  next
    case 2
    then show ?thesis using open_runtime_get [OF 2(1)] j by (auto simp: held_events_def)
  next
    case 3
    from runtime_append_events [OF 3(2) j] open_runtime_get [OF 3(1)] show ?thesis by (auto simp: held_events_def)
  qed
qed

lemma attach_replay_covers:
  assumes ok: "journal_ok journal"
    and frames: "attach_replay journal request_id rid after limit response = Inr frames"
    and all: "Response request_id (ReplayComplete rid True) \<notin> set frames"
    and e: "e \<in> held_events journal rid i" "i \<in> fst ` set after" "cursor_of after i < event_sequence e"
  shows "Event e \<in> set frames"
proof -
  let ?q = "\<lparr>replay_runtime_id = rid, replay_after = after, replay_only_invocations = Some (map fst after), replay_limit = limit\<rparr>"
  obtain r j where r: "hm_get (js_runtimes (journal_inner journal)) rid = Some r"
    and j: "(i, j) \<in> set (rj_invocations r)" "e \<in> set (ij_events j)" using e(1) by (auto simp: held_events_def)
  have "event_invocation_id e = i" using rj_ok_event(1) [OF journal_ok_runtime [OF ok r] j] .
  then have p: "e \<in> set (pending_events r (Some (map fst after)) after)"
    using j e(2,3) by (auto simp: set_pending_events)
  obtain batch where b: "journal_replay journal ?q = Inr batch"
    "frames = Response request_id response # map Event (batch_events batch) @ [Response request_id (ReplayComplete rid (batch_truncated batch))]"
    using frames by (auto simp: attach_replay_def split: sum.splits)
  then have "\<not> batch_truncated batch" using all by auto
  then have "batch_events batch = pending_events r (Some (map fst after)) after"
    using b(1) r by (auto simp: journal_replay_def runtime_replay_def Let_def result_simps split: if_splits)
  then show ?thesis using p b(2) by simp
qed


section \<open>No gap after an attach\<close>

text \<open>
  Everything an attached sink still has to see: the events the journal retains after its cursors
  are in what it received, in what its attach is about to deliver, or in the hands of a pump.
\<close>

definition covered ::
    "RuntimeId \<Rightarrow> (InvocationId, u64) btreemap \<Rightarrow> 's \<Rightarrow> ('c, 'h, 't, 's) DeliveryWorld \<Rightarrow> bool" where
  "covered rid after sink w \<longleftrightarrow> hm_get (host_live_sinks (dw_host w)) rid = Some sink
     \<and> (\<forall>i \<in> fst ` set after. \<forall>e \<in> held_events (host_journal (dw_host w)) rid i. cursor_of after i < event_sequence e \<longrightarrow>
          (sink, Event e) \<in> set (dw_log w) \<or> dw_pumps w i = Some (Event e)
          \<or> (\<exists>q frames. dw_gate w = Replying sink q frames \<and> Event e \<in> set frames))
     \<and> (dw_gate w = Free \<or> (\<exists>q frames. dw_gate w = Replying sink q frames))"

text \<open>The sink stays attached: nobody else registers, and what is sent to it arrives.\<close>

fun undisturbed :: "'s DeliveryLabel \<Rightarrow> bool" where
  "undisturbed (AttachReplies sink frames delivered) = (delivered = frames)"
| "undisturbed (DirectReplies sink delivered) = True"
| "undisturbed (PumpAppends e) = True"
| "undisturbed (PumpSends i delivered) = delivered"
| "undisturbed _ = False"

lemma coveredI:
  assumes "hm_get (host_live_sinks (dw_host w)) rid = Some sink"
    and "dw_gate w = Free \<or> (\<exists>q frames. dw_gate w = Replying sink q frames)"
    and "\<And>i e. i \<in> fst ` set after \<Longrightarrow> e \<in> held_events (host_journal (dw_host w)) rid i \<Longrightarrow> cursor_of after i < event_sequence e \<Longrightarrow>
      (sink, Event e) \<in> set (dw_log w) \<or> dw_pumps w i = Some (Event e)
          \<or> (\<exists>q frames. dw_gate w = Replying sink q frames \<and> Event e \<in> set frames)"
  shows "covered rid after sink w"
  using assms unfolding covered_def by blast

lemma coveredD:
  assumes "covered rid after sink w"
  shows "hm_get (host_live_sinks (dw_host w)) rid = Some sink"
    and "dw_gate w = Free \<or> (\<exists>q frames. dw_gate w = Replying sink q frames)"
    and "i \<in> fst ` set after \<Longrightarrow> e \<in> held_events (host_journal (dw_host w)) rid i \<Longrightarrow> cursor_of after i < event_sequence e \<Longrightarrow>
      (sink, Event e) \<in> set (dw_log w) \<or> dw_pumps w i = Some (Event e)
          \<or> (\<exists>q frames. dw_gate w = Replying sink q frames \<and> Event e \<in> set frames)"
  using assms unfolding covered_def by blast+

lemma pump_append_retained:
  assumes "pump_append journal rid i e = ((frame, go), journal')" "event_runtime_id e = rid" "event_invocation_id e = i"
    and "e' \<in> held_events journal' rid k"
  shows "e' \<in> held_events journal rid k \<or> (e' = e \<and> k = i \<and> frame = Event e)"
proof (cases "journal_append journal e")
  case (Pair res j')
  then have "j' = journal'" "is_ok res \<Longrightarrow> frame = Event e" using assms(1) by (auto simp: pump_append_def split: sum.splits)
  then show ?thesis using journal_append_retained [OF Pair] assms(2-4) by blast
qed

lemma covered_step:
  assumes cov: "covered rid after sink w" and step: "delivery_step ops rid w l w'" and l: "undisturbed l"
  shows "covered rid after sink w'"
  using step
proof cases
  case (attach_replies sink' q frames outcomes res delivered)
  have s: "sink' = sink" using coveredD(2) [OF cov] attach_replies(3) by simp
  have d: "delivered = frames" using l attach_replies(1) by simp
  show ?thesis
    by (rule coveredI) (use coveredD [OF cov] attach_replies s d in \<open>auto simp: image_iff\<close>)
next
  case (direct_reply frames q failure response outcomes res delivered sink')
  show ?thesis by (rule coveredI) (use coveredD [OF cov] direct_reply in \<open>auto\<close>)
next
  case (pump_appends e frame go journal')
  show ?thesis
  proof (rule coveredI)
    fix i e' assume i: "i \<in> fst ` set after" and e': "e' \<in> held_events (host_journal (dw_host w')) rid i"
      and c: "cursor_of after i < event_sequence e'"
    have "e' \<in> held_events (host_journal (dw_host w)) rid i \<or> (e' = e \<and> i = event_invocation_id e \<and> frame = Event e)"
      using pump_append_retained [OF pump_appends(5) pump_appends(4) refl] e' pump_appends(2) by simp
    then show "(sink, Event e') \<in> set (dw_log w') \<or> dw_pumps w' i = Some (Event e')
        \<or> (\<exists>q frames. dw_gate w' = Replying sink q frames \<and> Event e' \<in> set frames)"
      using coveredD(3) [OF cov i _ c] pump_appends(2,3) by auto
  qed (use coveredD(1,2) [OF cov] pump_appends(2) in simp_all)
next
  case (pump_sends i frame delivered out host')
  have "out = Some (sink, frame)" "host' = dw_host w"
    using pump_sends(5) coveredD(1) [OF cov] l pump_sends(1) by (auto simp: send_live_def)
  then have w': "w' = w\<lparr>dw_pumps := (dw_pumps w)(i := None), dw_log := dw_log w @ [(sink, frame)]\<rparr>"
    using pump_sends(2) by (cases w) simp
  show ?thesis
  proof (rule coveredI)
    fix k e assume "k \<in> fst ` set after" "e \<in> held_events (host_journal (dw_host w')) rid k" "cursor_of after k < event_sequence e"
    then show "(sink, Event e) \<in> set (dw_log w') \<or> dw_pumps w' k = Some (Event e)
        \<or> (\<exists>q frames. dw_gate w' = Replying sink q frames \<and> Event e \<in> set frames)"
      using coveredD(3) [OF cov, of k e] pump_sends(4) by (cases "k = i") (auto simp: w')
  qed (use coveredD(1,2) [OF cov] in \<open>simp_all add: w'\<close>)
qed (use l in simp_all)

lemma covered_run:
  assumes "delivery_run ops rid w ls w'" "covered rid after sink w" "list_all undisturbed ls"
  shows "covered rid after sink w'"
  using assms by induction (auto intro: covered_step)

text \<open>
  C35: an attach leaves no gap. When an attach reads the journal without truncation, then from that
  moment on, as long as its sink stays the registered one and its deliveries succeed, every event
  of the invocations it asked for that the journal retains after the given cursors has been
  delivered to the sink whenever the gate is free and no pump holds an event: events that pumps
  append while the attach replays are neither lost nor skipped.
\<close>

theorem attach_leaves_no_gap:
  assumes ok: "journal_ok (host_journal (dw_host w))"
    and sink: "dw_gate w = Registered sink request_id after limit response"
      "hm_get (host_live_sinks (dw_host w)) rid = Some sink"
    and read: "attach_replay (host_journal (dw_host w)) request_id rid after limit response = Inr frames"
      "Response request_id (ReplayComplete rid True) \<notin> set frames"
    and step: "delivery_step ops rid w (AttachReads sink) w1"
    and run: "delivery_run ops rid w1 ls w2" "list_all undisturbed ls"
    and settled: "dw_gate w2 = Free" "\<forall>i. dw_pumps w2 i = None"
    and e: "i \<in> fst ` set after" "e \<in> held_events (host_journal (dw_host w2)) rid i" "cursor_of after i < event_sequence e"
  shows "(sink, Event e) \<in> set (dw_log w2)"
proof -
  have w1: "w1 = w\<lparr>dw_gate := Replying sink request_id frames\<rparr>"
    using step by cases (use sink read in auto)
  have "covered rid after sink w1"
    by (rule coveredI) (use sink(2) attach_replay_covers [OF ok read] in \<open>auto simp: w1\<close>)
  from coveredD(3) [OF covered_run [OF run(1) this run(2)] e] settled show ?thesis by simp
qed


section \<open>A sample attach\<close>

text \<open>A turn appends its second event while a client attaches from the beginning.\<close>

abbreviation sample_ready :: HostResponse where
  "sample_ready \<equiv> RuntimeReady Claude \<lparr>health_runtime_id = RuntimeId ''r'', health_status = RuntimeStatus.Busy,
       health_observed_at_unix_ms = 0, health_detail = None\<rparr>
     \<lparr>driver_retained_process = True, driver_session_resume = True, driver_live_interactions = True,
      driver_configurable_auto_compaction = True, driver_manual_compaction = True, driver_compaction_instructions = True,
      driver_context_window_usage = True, driver_native_image_attachments = True, driver_compaction_lifecycle = True,
      driver_live_messages = True\<rparr> []"

abbreviation sample_attach_frames :: "HostFrame list" where
  "sample_attach_frames \<equiv> [Response ''q'' sample_ready, Event (demo_event 1 10), Response ''q'' (ReplayComplete (RuntimeId ''r'') False)]"

abbreviation sample_delivery ::
    "(u64 \<times> u64) list \<Rightarrow> nat Gate \<Rightarrow> HostFrame option \<Rightarrow> HostFrame list \<Rightarrow> (unit, unit, unit, nat) DeliveryWorld" where
  "sample_delivery events gate pump log \<equiv>
     \<lparr>dw_host = \<lparr>host_client = (), host_journal = demo_journal events, host_runtimes = [], host_active = [],
        host_live_sinks = [(RuntimeId ''r'', 7)]\<rparr>,
      dw_gate = gate, dw_pumps = Map.empty(InvocationId ''i'' := pump), dw_log = map (Pair 7) log\<rparr>"

abbreviation sample_gate :: "nat Gate" where
  "sample_gate \<equiv> Registered 7 ''q'' [(InvocationId ''i'', 0)] 4 sample_ready"

abbreviation sample_delivery_step ::
    "(unit, unit, unit, nat) DeliveryWorld \<Rightarrow> nat DeliveryLabel \<Rightarrow> (unit, unit, unit, nat) DeliveryWorld \<Rightarrow> bool" where
  "sample_delivery_step w l w' \<equiv> \<forall>ops. delivery_step ops (RuntimeId ''r'') w l w'"

lemma delivery_step_eq: "delivery_step ops rid w l v \<Longrightarrow> v = v' \<Longrightarrow> delivery_step ops rid w l v'"
  by simp

lemma sample_replay:
  "attach_replay (demo_journal [(1, 10)]) ''q'' (RuntimeId ''r'') [(InvocationId ''i'', 0)] 4 sample_ready = Inr sample_attach_frames"
proof -
  have "journal_replay (demo_journal [(1, 10)]) \<lparr>replay_runtime_id = RuntimeId ''r'', replay_after = [(InvocationId ''i'', 0)],
      replay_only_invocations = Some [InvocationId ''i''], replay_limit = 4\<rparr>
    = Inr \<lparr>batch_events = [demo_event 1 10], batch_next = [(InvocationId ''i'', 1)], batch_truncated = False\<rparr>" by code_simp
  then show ?thesis by (simp add: attach_replay_def)
qed

lemma sample_reads:
  "sample_delivery_step (sample_delivery [(1, 10)] sample_gate None []) (AttachReads 7)
     (sample_delivery [(1, 10)] (Replying 7 ''q'' sample_attach_frames) None [])"
  by (intro allI, intro delivery_step_eq [OF attach_reads [where frames = sample_attach_frames]])
    (use sample_replay in \<open>simp_all\<close>)

lemma sample_appends:
  "sample_delivery_step (sample_delivery [(1, 10)] gate None log) (PumpAppends (demo_event 2 20))
     (sample_delivery [(1, 10), (2, 20)] gate (Some (Event (demo_event 2 20))) log)"
proof -
  have "pump_append (demo_journal [(1, 10)]) (RuntimeId ''r'') (InvocationId ''i'') (demo_event 2 20)
      = ((Event (demo_event 2 20), True), demo_journal [(1, 10), (2, 20)])"
  proof -
    have "journal_append (demo_journal [(1, 10)]) (demo_event 2 20) = (Inr Appended, demo_journal [(1, 10), (2, 20)])" by code_simp
    then show ?thesis by (simp add: pump_append_def)
  qed
  then show ?thesis
    by (intro allI, intro delivery_step_eq [OF pump_appends]) (simp_all add: demo_event_def)
qed

lemma sample_replies:
  "sample_delivery_step (sample_delivery events (Replying 7 ''q'' frames) pump log)
     (AttachReplies 7 frames frames) (sample_delivery events Free pump (log @ frames))"
proof -
  have "send_direct_frames ''q'' (map (\<lambda>_. Some (Inr ())) frames) frames = (Inr (), frames)"
    by (induction frames) simp_all
  then show ?thesis by (intro allI, intro delivery_step_eq [OF attach_replies]) simp_all
qed

lemma sample_sends:
  "sample_delivery_step (sample_delivery events Free (Some frame) log) (PumpSends (InvocationId ''i'') True)
     (sample_delivery events Free None (log @ [frame]))"
  by (intro allI, intro delivery_step_eq [OF pump_sends [where out = "Some (7, frame)"]]) (simp_all add: send_live_def)

theorem attach_leaves_no_gap_witness:
  "(7, Event (demo_event 2 20)) \<in> set (dw_log (sample_delivery [(1, 10), (2, 20)] Free None (sample_attach_frames @ [Event (demo_event 2 20)])))"
proof -
  let ?ops = "undefined :: (unit, unit, unit) RuntimeClientOps"
  let ?w1 = "sample_delivery [(1, 10)] (Replying 7 ''q'' sample_attach_frames) None []"
  let ?w2 = "sample_delivery [(1, 10), (2, 20)] Free None (sample_attach_frames @ [Event (demo_event 2 20)])"
  have run: "delivery_run ?ops (RuntimeId ''r'') ?w1
      [PumpAppends (demo_event 2 20), AttachReplies 7 sample_attach_frames sample_attach_frames, PumpSends (InvocationId ''i'') True] ?w2"
    using delivery_snoc [OF delivery_snoc [OF delivery_snoc [OF delivery_start sample_appends [rule_format]]
        sample_replies [rule_format, where frames = sample_attach_frames and log = "[]"]] sample_sends [rule_format]]
    unfolding append_Nil append_Cons .
  have ok: "journal_ok (demo_journal [(1, 10)])" by (rule demo_journal_ok) code_simp
  have held: "demo_event 2 20 \<in> held_events (demo_journal [(1, 10), (2, 20)]) (RuntimeId ''r'') (InvocationId ''i'')"
  proof -
    have "hm_get (js_runtimes (journal_inner (demo_journal [(1, 10), (2, 20)]))) (RuntimeId ''r'') \<noteq> None" by code_simp
    then obtain r where r: "hm_get (js_runtimes (journal_inner (demo_journal [(1, 10), (2, 20)]))) (RuntimeId ''r'') = Some r" by blast
    then have "r = the (hm_get (js_runtimes (journal_inner (demo_journal [(1, 10), (2, 20)]))) (RuntimeId ''r''))" by simp
    moreover have "hd (rj_invocations (the (hm_get (js_runtimes (journal_inner (demo_journal [(1, 10), (2, 20)]))) (RuntimeId ''r''))))
       = (InvocationId ''i'', \<lparr>ij_events = [demo_event 1 10, demo_event 2 20], ij_evicted_through = 0, ij_maximum = 3\<rparr>)"
      "rj_invocations (the (hm_get (js_runtimes (journal_inner (demo_journal [(1, 10), (2, 20)]))) (RuntimeId ''r''))) \<noteq> []" by code_simp+
    ultimately have "(InvocationId ''i'', \<lparr>ij_events = [demo_event 1 10, demo_event 2 20], ij_evicted_through = 0, ij_maximum = 3\<rparr>) \<in> set (rj_invocations r)"
      by (metis list.set_sel(1))
    then show ?thesis using r by (force simp: held_events_def)
  qed
  have seq: "cursor_of [(InvocationId ''i'', 0)] (InvocationId ''i'') < event_sequence (demo_event 2 20)" by code_simp
  show ?thesis
    by (rule attach_leaves_no_gap [where frames = sample_attach_frames, OF _ _ _ _ _ sample_reads [rule_format] run _ _ _ _ _ seq])
      (use ok held sample_replay in \<open>simp_all\<close>)
qed

end
