(* ===== verification/ProtocolClient.thy ===== *)
theory ProtocolClient
  imports ProtocolStream
begin

text \<open>
  The carrier-independent client of the runtime protocol, \<^verbatim>\<open>src/protocol_client.rs\<close>: requests with
  one retry under the same identifier, routing of the frames a connection receives, attach with
  paged replay, automatic recovery, and the conversion of specifications and turn inputs to their
  wire form.
\<close>

section \<open>Recovery policy\<close>

definition REQUEST_CHANNEL_CAPACITY :: usize where "REQUEST_CHANNEL_CAPACITY = 64"
definition EVENT_CHANNEL_CAPACITY :: usize where "EVENT_CHANNEL_CAPACITY = 128"
definition MAX_REPLAY_PAGES :: usize where "MAX_REPLAY_PAGES = 1024"

record RemoteRecoveryPolicy =
  policy_max_attempts :: u8
  policy_initial_backoff :: duration
  policy_max_backoff :: duration

definition RemoteRecoveryPolicy_default :: RemoteRecoveryPolicy where
  "RemoteRecoveryPolicy_default =
     \<lparr>policy_max_attempts = 12, policy_initial_backoff = 100 * 1000000, policy_max_backoff = 5 * 1000000000\<rparr>"

definition policy_validate :: "RemoteRecoveryPolicy \<Rightarrow> string + RemoteRecoveryPolicy" where
  "policy_validate policy =
     (if policy_max_attempts policy = 0 then Inl ''max_attempts must be greater than zero''
      else if policy_initial_backoff policy = 0 then Inl ''initial_backoff must be greater than zero''
      else if policy_max_backoff policy < policy_initial_backoff policy
      then Inl ''max_backoff must be at least initial_backoff''
      else Inr policy)"

text \<open>\<open>backoff.saturating_mul(2).min(max_backoff)\<close>; the largest \<open>Duration\<close> has \<open>u64::MAX\<close> seconds.\<close>

definition duration_max :: duration where
  "duration_max = (2 ^ 64 - 1) * 1000000000 + 999999999"

definition next_backoff :: "RemoteRecoveryPolicy \<Rightarrow> duration \<Rightarrow> duration" where
  "next_backoff policy backoff = min (min (backoff * 2) duration_max) (policy_max_backoff policy)"

section \<open>Failures\<close>

definition remote_failure ::
    "RuntimeId option \<Rightarrow> InvocationId option \<Rightarrow> RuntimeFailureKind \<Rightarrow> RetryAdvice \<Rightarrow> DeliveryState \<Rightarrow> string
      \<Rightarrow> RuntimeFailure" where
  "remote_failure runtime_id invocation_id kind retry delivery message =
     \<lparr>failure_runtime_id = runtime_id, failure_invocation_id = invocation_id, failure_kind = kind,
      failure_retry = retry, failure_delivery = delivery, failure_message = message,
      failure_provider_code = None\<rparr>"

fun display_remote_transport_error :: "RemoteTransportError \<Rightarrow> string" where
  "display_remote_transport_error (Disconnected message) = ''remote runtime carrier disconnected: '' @ message"
| "display_remote_transport_error (Unauthorized message) = ''remote runtime carrier is not authorized: '' @ message"
| "display_remote_transport_error (RemoteTransportError.Rejected message) =
     ''remote runtime carrier rejected a frame: '' @ message"

definition transport_failure :: "RemoteTransportError \<Rightarrow> DeliveryState \<Rightarrow> RuntimeFailure" where
  "transport_failure e delivery =
     remote_failure None None
       (case e of Unauthorized _ \<Rightarrow> RuntimeFailureKind.Permission | _ \<Rightarrow> RuntimeFailureKind.Transport)
       (if delivery = DeliveryState.NotSent then RetryAdvice.After 100 else ReconnectAndAttach)
       delivery (display_remote_transport_error e)"

definition request_timeout :: RuntimeFailure where
  "request_timeout =
     remote_failure None None RuntimeFailureKind.Timeout ReconnectAndAttach DeliveryState.PossiblySent
       ''remote runtime request exceeded 30 seconds''"

definition request_disconnected :: RuntimeFailure where
  "request_disconnected =
     remote_failure None None RuntimeFailureKind.Transport ReconnectAndAttach DeliveryState.PossiblySent
       ''remote runtime response stream ended before a response''"

definition retryable_transport_failure :: "RuntimeFailure \<Rightarrow> bool" where
  "retryable_transport_failure failure =
     (failure_kind failure \<in> {RuntimeFailureKind.Transport, RuntimeFailureKind.Network, RuntimeFailureKind.Timeout})"

definition unexpected_response :: "RuntimeId option \<Rightarrow> InvocationId option \<Rightarrow> RuntimeFailure" where
  "unexpected_response runtime_id invocation_id =
     remote_failure runtime_id invocation_id RuntimeFailureKind.Indeterminate ReconnectAndAttach
       DeliveryState.PossiblySent ''remote runtime host returned an unexpected protocol response''"

definition degraded_health :: "RuntimeId \<Rightarrow> string \<Rightarrow> RuntimeHealth" where
  "degraded_health runtime_id detail =
     \<lparr>health_runtime_id = runtime_id, health_status = RuntimeStatus.Degraded,
      health_observed_at_unix_ms = 0, health_detail = Some detail\<rparr>"

section \<open>Wire form of specifications and turn inputs\<close>

definition duration_millis :: "duration \<Rightarrow> u64" where
  "duration_millis d = (let ms = d div 1000000 in if ms < 2 ^ 64 then of_nat ms else - 1)"

definition client_protocol_environment :: "(string, SecretString) btreemap \<Rightarrow> ProtocolEnvironmentVariable list" where
  "client_protocol_environment environment =
     map (\<lambda>(name, value). \<lparr>var_name = name, var_value = ProtocolSecret (expose value),
            var_diagnostic_secret = diagnostic_classification value\<rparr>) environment"

definition protocol_runtime_spec :: "RuntimeSpec \<Rightarrow> ProtocolRuntimeSpec" where
  "protocol_runtime_spec spec =
     \<lparr>pspec_runtime_id = spec_runtime_id spec, pspec_provider = spec_provider spec,
      pspec_working_directory = spec_working_directory spec, pspec_model = spec_model spec,
      pspec_reasoning = spec_reasoning spec, pspec_permission_mode = spec_permission_mode spec,
      pspec_harness_options = spec_harness_options spec, pspec_launch_context = spec_launch_context spec,
      pspec_auto_compaction = spec_auto_compaction spec,
      pspec_provider_session_id = spec_provider_session_id spec,
      pspec_turn_timeout_ms = duration_millis (spec_turn_timeout spec),
      pspec_interaction_timeout_ms = duration_millis (spec_interaction_timeout spec),
      pspec_tool_process_policy = spec_tool_process_policy spec,
      pspec_environment = client_protocol_environment (spec_environment spec), pspec_sandbox = None\<rparr>"

definition client_protocol_turn_input :: "TurnInput \<Rightarrow> ProtocolTurnInput" where
  "client_protocol_turn_input input =
     \<lparr>pinput_invocation_id = input_invocation_id input, pinput_invocation_kind = input_invocation_kind input,
      pinput_prompt = input_prompt input, pinput_provenance = input_provenance input,
      pinput_model = input_model input, pinput_reasoning = input_reasoning input,
      pinput_permission_mode = input_permission_mode input, pinput_harness_options = input_harness_options input,
      pinput_launch_context = input_launch_context input, pinput_auto_compaction = input_auto_compaction input,
      pinput_max_turns = input_max_turns input,
      pinput_timeout_ms = map_option duration_millis (input_timeout input),
      pinput_interaction_timeout_ms = map_option duration_millis (input_interaction_timeout input),
      pinput_tool_process_policy = input_tool_process_policy input,
      pinput_environment = client_protocol_environment (input_environment input),
      pinput_attachments = input_attachments input, pinput_interaction_policy = input_interaction_policy input,
      pinput_request_session_title = input_request_session_title input,
      pinput_keep_background_work = input_keep_background_work input\<rparr>"

section \<open>Client state\<close>

text \<open>
  A channel of events is everything that was sent over it and how much of it the consumer has
  taken. An invocation is shared by reference between the table, the routing of a frame and the
  call that started it: it is a cell, and a reference is the number of its cell.
\<close>

record RemoteInvocation =
  rinv_runtime_id :: RuntimeId
  rinv_invocation_id :: InvocationId
  rinv_sent :: "EventEnvelope list"
  rinv_taken :: nat
  rinv_open :: bool
  rinv_sender :: bool
  rinv_completion :: "(RuntimeFailure + TurnResult) option"
  rinv_interactions :: bool
  rinv_last_sequence :: u64
  rinv_completed :: bool

definition RemoteInvocation_new :: "RuntimeId \<Rightarrow> InvocationId \<Rightarrow> bool \<Rightarrow> RemoteInvocation" where
  "RemoteInvocation_new rid i interactions =
     \<lparr>rinv_runtime_id = rid, rinv_invocation_id = i, rinv_sent = [], rinv_taken = 0, rinv_open = True,
      rinv_sender = True, rinv_completion = None, rinv_interactions = interactions,
      rinv_last_sequence = 0, rinv_completed = False\<rparr>"

definition invocation_complete :: "RuntimeFailure + TurnResult \<Rightarrow> RemoteInvocation \<Rightarrow> RemoteInvocation" where
  "invocation_complete result cell =
     (if rinv_completed cell then cell
      else if rinv_sender cell
           then cell\<lparr>rinv_completed := True, rinv_sender := False, rinv_completion := Some result\<rparr>
           else cell\<lparr>rinv_completed := True\<rparr>)"

record RuntimeDescriptor =
  desc_provider :: Provider
  desc_driver :: RuntimeDriverCapabilities
  desc_configuration_impacts :: "(RuntimeConfigurationKey, ConfigurationImpact) btreemap"

record RuntimeReplayPage =
  page_descriptor :: RuntimeDescriptor
  page_truncated :: bool

datatype (plugins only: code size) PendingMessage =
    PendingResponse HostResponse
  | PendingFailure RuntimeFailure
  | PendingDisconnected RemoteTransportError

text \<open>The tasks the client spawns.\<close>

datatype (plugins only: code size) ClientTask =
    InterruptTask RuntimeId InvocationId
  | InteractionTask nat TurnEvent
  | RecoveryTask

text \<open>
  \<open>'e\<close> is the carrier and everything else outside the client. A connection is the number under
  which it was established; the queue of a pending request is what its receiver has not read.
\<close>

record 'e RemoteClientInner =
  rc_world :: 'e
  rc_policy :: RemoteRecoveryPolicy
  rc_connection :: "u64 option"
  rc_pending :: "(string, PendingMessage list) hashmap"
  rc_runtimes :: "(RuntimeId, RuntimeDescriptor) hashmap"
  rc_invocations :: "(RuntimeId \<times> InvocationId, nat) hashmap"
  rc_cells :: "RemoteInvocation list"
  rc_request_prefix :: string
  rc_request_sequence :: u64
  rc_connection_generation :: u64
  rc_recovery_running :: bool
  rc_tasks :: "ClientTask list"

definition with_recovery_policy_unchecked :: "'e \<Rightarrow> RemoteRecoveryPolicy \<Rightarrow> string \<Rightarrow> 'e RemoteClientInner" where
  "with_recovery_policy_unchecked world policy request_prefix =
     \<lparr>rc_world = world, rc_policy = policy, rc_connection = None, rc_pending = [], rc_runtimes = [],
      rc_invocations = [], rc_cells = [], rc_request_prefix = request_prefix, rc_request_sequence = 1,
      rc_connection_generation = 1, rc_recovery_running = False, rc_tasks = []\<rparr>"

definition with_recovery_policy :: "'e \<Rightarrow> RemoteRecoveryPolicy \<Rightarrow> string \<Rightarrow> string + 'e RemoteClientInner" where
  "with_recovery_policy world policy request_prefix =
     and_then (policy_validate policy) (\<lambda>policy. Inr (with_recovery_policy_unchecked world policy request_prefix))"

definition update_cell :: "nat \<Rightarrow> (RemoteInvocation \<Rightarrow> RemoteInvocation) \<Rightarrow> 'e RemoteClientInner \<Rightarrow> 'e RemoteClientInner" where
  "update_cell k f c = c\<lparr>rc_cells := (rc_cells c)[k := f (rc_cells c ! k)]\<rparr>"

definition next_request_id :: "'e RemoteClientInner \<Rightarrow> string \<times> 'e RemoteClientInner" where
  "next_request_id c =
     (rc_request_prefix c @ ''-'' @ decimal (unat (rc_request_sequence c)),
      c\<lparr>rc_request_sequence := rc_request_sequence c + 1\<rparr>)"

section \<open>Routing\<close>

definition spawn_task :: "ClientTask \<Rightarrow> 'e RemoteClientInner \<Rightarrow> 'e RemoteClientInner" where
  "spawn_task t c = c\<lparr>rc_tasks := rc_tasks c @ [t]\<rparr>"

definition schedule_active_recovery :: "'e RemoteClientInner \<Rightarrow> 'e RemoteClientInner" where
  "schedule_active_recovery c =
     (if rc_recovery_running c then c else spawn_task RecoveryTask (c\<lparr>rc_recovery_running := True\<rparr>))"

text \<open>
  \<open>route_event\<close> in the three parts between which another receive loop can run: the sequence number
  is compared, the event is sent over the channel, and the new sequence number is stored.
\<close>

datatype RouteDecision = Ignored | Gap | Accept nat

definition envelope_key :: "EventEnvelope \<Rightarrow> RuntimeId \<times> InvocationId" where
  "envelope_key e = (event_runtime_id e, event_invocation_id e)"

definition route_check :: "'e RemoteClientInner \<Rightarrow> EventEnvelope \<Rightarrow> RouteDecision" where
  "route_check c e =
     (case hm_get (rc_invocations c) (envelope_key e) of
        None \<Rightarrow> Ignored
      | Some k \<Rightarrow>
          (let previous = rinv_last_sequence (rc_cells c ! k) in
           if event_sequence e \<le> previous then Ignored
           else if event_sequence e \<noteq> saturating_add previous 1 then Gap
           else Accept k))"

definition channel_full :: "RemoteInvocation \<Rightarrow> bool" where
  "channel_full cell = (length (rinv_sent cell) - rinv_taken cell \<ge> EVENT_CHANNEL_CAPACITY)"

definition fail_invocation :: "EventEnvelope \<Rightarrow> nat \<Rightarrow> string \<Rightarrow> 'e RemoteClientInner \<Rightarrow> 'e RemoteClientInner" where
  "fail_invocation e k message c =
     update_cell k (invocation_complete (Inl (remote_failure (Some (event_runtime_id e)) (Some (event_invocation_id e))
         RuntimeFailureKind.Transport RetryAdvice.RequiresUserAction DeliveryState.Accepted message)))
       (spawn_task (InterruptTask (event_runtime_id e) (event_invocation_id e))
         (c\<lparr>rc_invocations := hm_remove (envelope_key e) (rc_invocations c)\<rparr>))"

definition route_send :: "'e RemoteClientInner \<Rightarrow> EventEnvelope \<Rightarrow> nat \<Rightarrow> bool \<times> 'e RemoteClientInner" where
  "route_send c e k =
     (if \<not> rinv_open (rc_cells c ! k)
      then (False, fail_invocation e k
         ''remote invocation event channel was closed by its consumer; remote interrupt requested, but its outcome is unconfirmed'' c)
      else if channel_full (rc_cells c ! k)
      then (False, fail_invocation e k
         ''remote invocation event channel is full; the consumer did not drain events fast enough; remote interrupt requested, but its outcome is unconfirmed'' c)
      else (True, update_cell k (\<lambda>cell. cell\<lparr>rinv_sent := rinv_sent cell @ [e]\<rparr>) c))"

definition route_interaction :: "nat \<Rightarrow> TurnEvent \<Rightarrow> 'e RemoteClientInner \<Rightarrow> 'e RemoteClientInner" where
  "route_interaction k event c =
     (if rinv_interactions (rc_cells c ! k) then spawn_task (InteractionTask k event) c else c)"

fun terminal_result :: "RuntimeEvent \<Rightarrow> (RuntimeFailure + TurnResult) option" where
  "terminal_result (InvocationCompleted result) = Some (Inr result)"
| "terminal_result (InvocationFailed failure) = Some (Inl failure)"
| "terminal_result _ = None"

definition route_store :: "'e RemoteClientInner \<Rightarrow> EventEnvelope \<Rightarrow> nat \<Rightarrow> 'e RemoteClientInner" where
  "route_store c e k =
     (let c1 = update_cell k (\<lambda>cell. cell\<lparr>rinv_last_sequence := event_sequence e\<rparr>) c;
          c2 = (case event_payload e of ProviderEvent event \<Rightarrow> route_interaction k event c1 | _ \<Rightarrow> c1)
      in case terminal_result (event_payload e) of
           None \<Rightarrow> c2
         | Some result \<Rightarrow>
             (update_cell k (invocation_complete result) c2)
               \<lparr>rc_invocations := hm_remove (envelope_key e) (rc_invocations c2)\<rparr>)"

definition route_event :: "EventEnvelope \<Rightarrow> 'e RemoteClientInner \<Rightarrow> 'e RemoteClientInner" where
  "route_event e c =
     (case route_check c e of
        Ignored \<Rightarrow> c
      | Gap \<Rightarrow> schedule_active_recovery c
      | Accept k \<Rightarrow>
          (case route_send c e k of
             (False, c') \<Rightarrow> c'
           | (True, c') \<Rightarrow> route_store c' e k))"

definition pending_send :: "string \<Rightarrow> PendingMessage \<Rightarrow> 'e RemoteClientInner \<Rightarrow> 'e RemoteClientInner" where
  "pending_send request_id message c =
     (case hm_get (rc_pending c) request_id of
        None \<Rightarrow> c
      | Some queue \<Rightarrow> c\<lparr>rc_pending := hm_insert request_id (queue @ [message]) (rc_pending c)\<rparr>)"

fun route_frame :: "HostFrame \<Rightarrow> 'e RemoteClientInner \<Rightarrow> 'e RemoteClientInner" where
  "route_frame (Response request_id response) c = pending_send request_id (PendingResponse response) c"
| "route_frame (Failure request_id failure) c = pending_send request_id (PendingFailure failure) c"
| "route_frame (Event envelope) c = route_event envelope c"

definition fail_active_recovery :: "string \<Rightarrow> 'e RemoteClientInner \<Rightarrow> 'e RemoteClientInner" where
  "fail_active_recovery message c =
     fold (\<lambda>k c. update_cell k (\<lambda>cell. invocation_complete (Inl (remote_failure (Some (rinv_runtime_id cell))
             (Some (rinv_invocation_id cell)) RuntimeFailureKind.Transport RetryAdvice.RequiresUserAction
             DeliveryState.Accepted message)) cell) c)
       (map snd (rc_invocations c)) (c\<lparr>rc_invocations := []\<rparr>)"

definition invalidate_connection :: "'e RemoteClientInner \<Rightarrow> 'e RemoteClientInner" where
  "invalidate_connection c = c\<lparr>rc_connection := None\<rparr>"

definition disconnect_generation :: "u64 \<Rightarrow> RemoteTransportError \<Rightarrow> 'e RemoteClientInner \<Rightarrow> 'e RemoteClientInner" where
  "disconnect_generation generation e c =
     (if rc_connection_generation c \<noteq> generation + 1 then c
      else let c' = fold (\<lambda>request_id. pending_send request_id (PendingDisconnected e)) (map fst (rc_pending c))
                      (c\<lparr>rc_connection := None\<rparr>)
           in case e of
                Unauthorized _ \<Rightarrow> fail_active_recovery (display_remote_transport_error e) c'
              | _ \<Rightarrow> schedule_active_recovery c')"

section \<open>Requests\<close>

text \<open>
  What the client finds outside: whether the connector connects and the connection takes a frame,
  and what a pending request receives (with the state after everything other tasks did until
  then). \<open>env_sleep\<close> is what other tasks do during a delay.
\<close>

datatype (plugins only: code size) WaitOutcome = Received PendingMessage | Closed | TimedOut

record 'e ClientEnvironment =
  env_connect :: "'e \<Rightarrow> (RemoteTransportError + unit) \<times> 'e"
  env_send :: "'e \<Rightarrow> ClientFrame \<Rightarrow> (RemoteTransportError + unit) \<times> 'e"
  env_wait :: "'e RemoteClientInner \<Rightarrow> string \<Rightarrow> WaitOutcome \<times> 'e RemoteClientInner"
  env_sleep :: "'e RemoteClientInner \<Rightarrow> duration \<Rightarrow> 'e RemoteClientInner"

definition connection :: "'e ClientEnvironment \<Rightarrow> 'e RemoteClientInner \<Rightarrow> (RemoteTransportError + u64) \<times> 'e RemoteClientInner" where
  "connection env c =
     (case rc_connection c of
        Some connection \<Rightarrow> (Inr connection, c)
      | None \<Rightarrow>
          (case env_connect env (rc_world c) of
             (Inl e, world) \<Rightarrow> (Inl e, c\<lparr>rc_world := world\<rparr>)
           | (Inr _, world) \<Rightarrow>
               (Inr (rc_connection_generation c),
                c\<lparr>rc_world := world, rc_connection := Some (rc_connection_generation c),
                  rc_connection_generation := rc_connection_generation c + 1\<rparr>)))"

definition request_frame :: "string \<Rightarrow> ClientRequest \<Rightarrow> ClientFrame" where
  "request_frame request_id request =
     \<lparr>frame_version = PROTOCOL_VERSION_V2, frame_request_id = request_id, frame_request = request\<rparr>"

definition forget_pending :: "string \<Rightarrow> 'e RemoteClientInner \<Rightarrow> 'e RemoteClientInner" where
  "forget_pending request_id c = c\<lparr>rc_pending := hm_remove request_id (rc_pending c)\<rparr>"

definition begin_request ::
    "'e ClientEnvironment \<Rightarrow> string \<Rightarrow> ClientRequest \<Rightarrow> 'e RemoteClientInner
      \<Rightarrow> (RuntimeFailure + unit) \<times> 'e RemoteClientInner" where
  "begin_request env request_id request c =
     (case connection env (c\<lparr>rc_pending := hm_insert request_id [] (rc_pending c)\<rparr>) of
        (Inl e, c') \<Rightarrow> (Inl (transport_failure e DeliveryState.NotSent), forget_pending request_id c')
      | (Inr _, c') \<Rightarrow>
          (case env_send env (rc_world c') (request_frame request_id request) of
             (Inl e, world) \<Rightarrow>
               (Inl (transport_failure e DeliveryState.PossiblySent),
                invalidate_connection (forget_pending request_id (c'\<lparr>rc_world := world\<rparr>)))
           | (Inr _, world) \<Rightarrow> (Inr (), c'\<lparr>rc_world := world\<rparr>)))"

text \<open>\<open>for attempt in 0..2\<close>: the list holds the attempts left.\<close>

fun request_attempts ::
    "'e ClientEnvironment \<Rightarrow> string \<Rightarrow> ClientRequest \<Rightarrow> nat list \<Rightarrow> 'e RemoteClientInner
      \<Rightarrow> (RuntimeFailure + HostResponse) \<times> 'e RemoteClientInner" where
  "request_attempts env request_id request [] c = (Inl request_disconnected, c)"
| "request_attempts env request_id request (attempt # attempts) c =
     (case begin_request env request_id request c of
        (Inl failure, c1) \<Rightarrow>
          if attempt = 0 \<and> retryable_transport_failure failure
          then request_attempts env request_id request attempts (invalidate_connection c1)
          else (Inl failure, c1)
      | (Inr _, c1) \<Rightarrow>
          (case env_wait env c1 request_id of
             (wait, c2) \<Rightarrow>
               (let c3 = forget_pending request_id c2 in
                case wait of
                  Received (PendingResponse response) \<Rightarrow> (Inr response, c3)
                | Received (PendingFailure failure) \<Rightarrow> (Inl failure, c3)
                | Received (PendingDisconnected e) \<Rightarrow>
                    if attempt = 0 then request_attempts env request_id request attempts (invalidate_connection c3)
                    else (Inl (transport_failure e DeliveryState.PossiblySent), c3)
                | Closed \<Rightarrow>
                    if attempt = 0 then request_attempts env request_id request attempts (invalidate_connection c3)
                    else (Inl request_disconnected, c3)
                | TimedOut \<Rightarrow>
                    if attempt = 0 then request_attempts env request_id request attempts (invalidate_connection c3)
                    else (Inl request_timeout, c3))))"

definition request_with_id ::
    "'e ClientEnvironment \<Rightarrow> string \<Rightarrow> ClientRequest \<Rightarrow> 'e RemoteClientInner
      \<Rightarrow> (RuntimeFailure + HostResponse) \<times> 'e RemoteClientInner" where
  "request_with_id env request_id request c = request_attempts env request_id request [0, 1] c"

definition request ::
    "'e ClientEnvironment \<Rightarrow> ClientRequest \<Rightarrow> 'e RemoteClientInner
      \<Rightarrow> (RuntimeFailure + HostResponse) \<times> 'e RemoteClientInner" where
  "request env req c = (case next_request_id c of (request_id, c') \<Rightarrow> request_with_id env request_id req c')"

text \<open>
  The descriptor of a runtime: remote turns take no messages whatever the host's driver supports.
\<close>

definition runtime_descriptor ::
    "Provider \<Rightarrow> RuntimeDriverCapabilities \<Rightarrow> (RuntimeConfigurationKey, ConfigurationImpact) btreemap \<Rightarrow> RuntimeDescriptor" where
  "runtime_descriptor provider driver impacts =
     \<lparr>desc_provider = provider, desc_driver = driver\<lparr>driver_live_messages := False\<rparr>,
      desc_configuration_impacts = impacts\<rparr>"

text \<open>
  The receive loop of one attempt of \<open>request_runtime\<close>: it returns, or breaks to the next attempt
  (\<open>None\<close>). The host decides how many messages it reads, so it need not end.
\<close>

partial_function (option) await_runtime ::
    "'e ClientEnvironment \<Rightarrow> string \<Rightarrow> bool \<Rightarrow> nat \<Rightarrow> RuntimeDescriptor option \<Rightarrow> 'e RemoteClientInner
      \<Rightarrow> ((RuntimeFailure + RuntimeReplayPage) option \<times> 'e RemoteClientInner) option" where
  "await_runtime env request_id wait_for_replay attempt descriptor c =
     (case env_wait env c request_id of
        (wait, c1) \<Rightarrow>
          (let c2 = forget_pending request_id c1 in
           case wait of
             Closed \<Rightarrow> Some (if attempt = 0 then (None, invalidate_connection c2) else (Some (Inl request_disconnected), c1))
           | TimedOut \<Rightarrow> Some (if attempt = 0 then (None, invalidate_connection c2) else (Some (Inl request_timeout), c1))
           | Received (PendingFailure failure) \<Rightarrow> Some (Some (Inl failure), c2)
           | Received (PendingDisconnected e) \<Rightarrow>
               Some (if attempt = 0 then (None, invalidate_connection c2)
                     else (Some (Inl (transport_failure e DeliveryState.PossiblySent)), c2))
           | Received (PendingResponse response) \<Rightarrow>
               (case response of
                  RuntimeReady provider health driver impacts \<Rightarrow>
                    (let d = runtime_descriptor provider driver impacts in
                     if wait_for_replay then await_runtime env request_id wait_for_replay attempt (Some d) c1
                     else Some (Some (Inr \<lparr>page_descriptor = d, page_truncated = False\<rparr>), c2))
                | ReplayComplete rid truncated \<Rightarrow>
                    Some (Some (case descriptor of
                                  None \<Rightarrow> Inl (unexpected_response None None)
                                | Some d \<Rightarrow> Inr \<lparr>page_descriptor = d, page_truncated = truncated\<rparr>), c2)
                | _ \<Rightarrow> Some (Some (Inl (unexpected_response None None)), c2))))"

fun request_runtime_attempts ::
    "'e ClientEnvironment \<Rightarrow> string \<Rightarrow> ClientRequest \<Rightarrow> bool \<Rightarrow> nat list \<Rightarrow> 'e RemoteClientInner
      \<Rightarrow> ((RuntimeFailure + RuntimeReplayPage) \<times> 'e RemoteClientInner) option" where
  "request_runtime_attempts env request_id req wait_for_replay [] c = Some (Inl request_disconnected, c)"
| "request_runtime_attempts env request_id req wait_for_replay (attempt # attempts) c =
     (case begin_request env request_id req c of
        (Inl failure, c1) \<Rightarrow>
          if attempt = 0 \<and> retryable_transport_failure failure
          then request_runtime_attempts env request_id req wait_for_replay attempts (invalidate_connection c1)
          else Some (Inl failure, c1)
      | (Inr _, c1) \<Rightarrow>
          (case await_runtime env request_id wait_for_replay attempt None c1 of
             None \<Rightarrow> None
           | Some (Some result, c2) \<Rightarrow> Some (result, c2)
           | Some (None, c2) \<Rightarrow> request_runtime_attempts env request_id req wait_for_replay attempts c2))"

definition request_runtime ::
    "'e ClientEnvironment \<Rightarrow> ClientRequest \<Rightarrow> bool \<Rightarrow> 'e RemoteClientInner
      \<Rightarrow> ((RuntimeFailure + RuntimeReplayPage) \<times> 'e RemoteClientInner) option" where
  "request_runtime env req wait_for_replay c =
     (case next_request_id c of
        (request_id, c') \<Rightarrow> request_runtime_attempts env request_id req wait_for_replay [0, 1] c')"

section \<open>Attach and recovery\<close>

definition replay_cursors :: "RuntimeId \<Rightarrow> 'e RemoteClientInner \<Rightarrow> (InvocationId, u64) btreemap" where
  "replay_cursors rid c =
     bt_from_list (map (\<lambda>((_, i), k). (i, rinv_last_sequence (rc_cells c ! k)))
       (filter (\<lambda>((candidate, _), _). candidate = rid) (rc_invocations c)))"

text \<open>\<open>for _page in 0..MAX_REPLAY_PAGES\<close>: the number is of the pages left.\<close>

fun attach_pages ::
    "'e ClientEnvironment \<Rightarrow> RuntimeId \<Rightarrow> nat \<Rightarrow> 'e RemoteClientInner
      \<Rightarrow> ((RuntimeFailure + RuntimeDescriptor) \<times> 'e RemoteClientInner) option" where
  "attach_pages env rid 0 c =
     Some (Inl (remote_failure (Some rid) None RuntimeFailureKind.ProviderProtocol RetryAdvice.RequiresUserAction
       DeliveryState.Accepted ''remote replay exceeded the bounded 1024-page recovery limit''), c)"
| "attach_pages env rid (Suc pages) c =
     (let replay_after = replay_cursors rid c in
      case request_runtime env (Attach rid replay_after DEFAULT_PROTOCOL_REPLAY_EVENTS) True c of
        None \<Rightarrow> None
      | Some (Inl failure, c') \<Rightarrow> Some (Inl failure, c')
      | Some (Inr page, c') \<Rightarrow>
          if \<not> page_truncated page then Some (Inr (page_descriptor page), c')
          else if replay_cursors rid c' = replay_after
          then Some (Inl (remote_failure (Some rid) None RuntimeFailureKind.ProviderProtocol
                 RetryAdvice.RequiresUserAction DeliveryState.Accepted
                 ''remote replay was truncated without advancing an invocation cursor''), c')
          else attach_pages env rid pages c')"

definition attach_runtime ::
    "'e ClientEnvironment \<Rightarrow> RuntimeId \<Rightarrow> 'e RemoteClientInner
      \<Rightarrow> ((RuntimeFailure + RuntimeDescriptor) \<times> 'e RemoteClientInner) option" where
  "attach_runtime env rid c = attach_pages env rid MAX_REPLAY_PAGES c"

definition active_runtime_ids :: "'e RemoteClientInner \<Rightarrow> RuntimeId list" where
  "active_runtime_ids c = remdups_adj (sort (map (\<lambda>((rid, _), _). rid) (rc_invocations c)))"

fun recover_runtimes ::
    "'e ClientEnvironment \<Rightarrow> RuntimeId list \<Rightarrow> bool \<Rightarrow> string \<Rightarrow> 'e RemoteClientInner
      \<Rightarrow> (bool \<times> string \<times> 'e RemoteClientInner) option" where
  "recover_runtimes env [] recovered_all last_error c = Some (recovered_all, last_error, c)"
| "recover_runtimes env (rid # rids) recovered_all last_error c =
     (case attach_runtime env rid c of
        None \<Rightarrow> None
      | Some (Inr descriptor, c') \<Rightarrow>
          recover_runtimes env rids recovered_all last_error
            (c'\<lparr>rc_runtimes := hm_insert rid descriptor (rc_runtimes c')\<rparr>)
      | Some (Inl failure, c') \<Rightarrow> recover_runtimes env rids False (failure_message failure) c')"

fun recovery_attempts ::
    "'e ClientEnvironment \<Rightarrow> nat \<Rightarrow> duration \<Rightarrow> string \<Rightarrow> 'e RemoteClientInner \<Rightarrow> 'e RemoteClientInner option" where
  "recovery_attempts env 0 backoff last_error c =
     Some (fail_active_recovery (''automatic reconnect and attach was exhausted: '' @ last_error) c)"
| "recovery_attempts env (Suc n) backoff last_error c =
     (let c1 = env_sleep env c backoff; rids = active_runtime_ids c1 in
      if rids = [] then Some c1
      else case recover_runtimes env rids True last_error c1 of
             None \<Rightarrow> None
           | Some (recovered_all, last_error', c2) \<Rightarrow>
               if recovered_all \<or> rc_invocations c2 = [] then Some c2
               else recovery_attempts env n (next_backoff (rc_policy c2) backoff) last_error' c2)"

definition recover_active_invocations :: "'e ClientEnvironment \<Rightarrow> 'e RemoteClientInner \<Rightarrow> 'e RemoteClientInner option" where
  "recover_active_invocations env c =
     (if rc_invocations c = [] then Some c
      else recovery_attempts env (unat (policy_max_attempts (rc_policy c))) (policy_initial_backoff (rc_policy c))
             ''the remote runtime carrier disconnected'' c)"

text \<open>The task that \<open>schedule_active_recovery\<close> spawns.\<close>

definition recovery_task :: "'e ClientEnvironment \<Rightarrow> 'e RemoteClientInner \<Rightarrow> 'e RemoteClientInner option" where
  "recovery_task env c = map_option (\<lambda>c'. c'\<lparr>rc_recovery_running := False\<rparr>) (recover_active_invocations env c)"

section \<open>Interactions\<close>

text \<open>\<open>approve\<close> and \<open>answer\<close> are the handler of the application.\<close>

definition interaction_request ::
    "(ApprovalRequest \<Rightarrow> ApprovalDecision) \<Rightarrow> (QuestionRequest \<Rightarrow> QuestionAnswer option)
      \<Rightarrow> RuntimeId \<Rightarrow> InvocationId \<Rightarrow> TurnEvent \<Rightarrow> ClientRequest option" where
  "interaction_request approve answer rid i event =
     (case event of
        ApprovalRequested r \<Rightarrow> Some (ResolveApproval rid i (approval_id r) (approve r))
      | PlanApprovalRequested r \<Rightarrow> Some (ResolveApproval rid i (approval_id r) (approve r))
      | QuestionRequested r \<Rightarrow>
          Some (case answer r of
                  Some a \<Rightarrow> ResolveQuestion rid i (question_id r) a
                | None \<Rightarrow> DeclineQuestion rid i (question_id r))
      | _ \<Rightarrow> None)"

definition fail_interaction_delivery ::
    "RuntimeId \<Rightarrow> InvocationId \<Rightarrow> string \<Rightarrow> RuntimeFailure \<Rightarrow> 'e RemoteClientInner \<Rightarrow> 'e RemoteClientInner" where
  "fail_interaction_delivery rid i interaction_id source c =
     (case hm_get (rc_invocations c) (rid, i) of
        None \<Rightarrow> c
      | Some k \<Rightarrow>
          update_cell k (invocation_complete (Inl (remote_failure (Some rid) (Some i) (failure_kind source)
              RetryAdvice.RequiresUserAction DeliveryState.Accepted
              (''could not deliver response for provider interaction `'' @ interaction_id @
               ''` after bounded recovery: '' @ failure_message source))))
            (c\<lparr>rc_invocations := hm_remove (rid, i) (rc_invocations c)\<rparr>))"

fun interaction_id_of :: "ClientRequest \<Rightarrow> string option" where
  "interaction_id_of (ResolveApproval _ _ interaction_id _) = Some interaction_id"
| "interaction_id_of (ResolveQuestion _ _ interaction_id _) = Some interaction_id"
| "interaction_id_of (DeclineQuestion _ _ interaction_id) = Some interaction_id"
| "interaction_id_of _ = None"

fun interaction_attempts ::
    "'e ClientEnvironment \<Rightarrow> RuntimeId \<Rightarrow> InvocationId \<Rightarrow> string \<Rightarrow> string \<Rightarrow> ClientRequest \<Rightarrow> nat \<Rightarrow> duration
      \<Rightarrow> RuntimeFailure option \<Rightarrow> 'e RemoteClientInner \<Rightarrow> 'e RemoteClientInner" where
  "interaction_attempts env rid i interaction_id request_id req 0 backoff last_failure c =
     fail_interaction_delivery rid i interaction_id
       (case last_failure of Some failure \<Rightarrow> failure | None \<Rightarrow> request_disconnected) c"
| "interaction_attempts env rid i interaction_id request_id req (Suc n) backoff last_failure c =
     (if hm_get (rc_invocations c) (rid, i) = None then c
      else case request_with_id env request_id req c of
             (Inr response, c') \<Rightarrow>
               if response = InteractionResolved interaction_id then c'
               else fail_interaction_delivery rid i interaction_id
                      (remote_failure (Some rid) (Some i) RuntimeFailureKind.ProviderProtocol
                        RetryAdvice.RequiresUserAction DeliveryState.Accepted
                        (''remote host returned an unexpected response while resolving interaction `'' @
                         interaction_id @ ''`'')) c'
           | (Inl failure, c') \<Rightarrow>
               if retryable_transport_failure failure
               then interaction_attempts env rid i interaction_id request_id req n
                      (next_backoff (rc_policy c') backoff) (Some failure) (env_sleep env c' backoff)
               else fail_interaction_delivery rid i interaction_id failure c')"

definition deliver_interaction ::
    "'e ClientEnvironment \<Rightarrow> RuntimeId \<Rightarrow> InvocationId \<Rightarrow> ClientRequest \<Rightarrow> 'e RemoteClientInner \<Rightarrow> 'e RemoteClientInner" where
  "deliver_interaction env rid i req c =
     (case interaction_id_of req of
        None \<Rightarrow> c
      | Some interaction_id \<Rightarrow>
          (case next_request_id c of
             (request_id, c') \<Rightarrow>
               interaction_attempts env rid i interaction_id request_id req
                 (unat (policy_max_attempts (rc_policy c'))) (policy_initial_backoff (rc_policy c')) None c'))"

section \<open>The client's operations\<close>

record RemoteRuntimeHandle =
  rhandle_runtime_id :: RuntimeId
  rhandle_descriptor :: RuntimeDescriptor

definition client_runtime_handle ::
    "RuntimeId \<Rightarrow> RuntimeDescriptor \<Rightarrow> 'e RemoteClientInner \<Rightarrow> RemoteRuntimeHandle \<times> 'e RemoteClientInner" where
  "client_runtime_handle rid descriptor c =
     (\<lparr>rhandle_runtime_id = rid, rhandle_descriptor = descriptor\<rparr>,
      c\<lparr>rc_runtimes := hm_insert rid descriptor (rc_runtimes c)\<rparr>)"

definition acquire_protocol ::
    "'e ClientEnvironment \<Rightarrow> ProtocolRuntimeSpec \<Rightarrow> 'e RemoteClientInner
      \<Rightarrow> ((RuntimeFailure + RemoteRuntimeHandle) \<times> 'e RemoteClientInner) option" where
  "acquire_protocol env spec c =
     (case request_runtime env (Acquire spec) False c of
        None \<Rightarrow> None
      | Some (Inl failure, c') \<Rightarrow> Some (Inl failure, c')
      | Some (Inr page, c') \<Rightarrow>
          Some (map_prod Inr id (client_runtime_handle (pspec_runtime_id spec) (page_descriptor page) c')))"

definition remote_acquire ::
    "'e ClientEnvironment \<Rightarrow> RuntimeSpec \<Rightarrow> 'e RemoteClientInner
      \<Rightarrow> ((RuntimeFailure + RemoteRuntimeHandle) \<times> 'e RemoteClientInner) option" where
  "remote_acquire env spec c =
     (if spec_sandbox spec \<noteq> None
      then Some (Inl (remote_failure (Some (spec_runtime_id spec)) None RuntimeFailureKind.InvalidRequest
             RetryAdvice.RequiresUserAction DeliveryState.NotSent
             ''remote sandbox acquisition requires acquire_protocol with a host-resolved sandbox selection''), c)
      else acquire_protocol env (protocol_runtime_spec spec) c)"

definition recover ::
    "'e ClientEnvironment \<Rightarrow> RuntimeId \<Rightarrow> 'e RemoteClientInner
      \<Rightarrow> ((RuntimeFailure + RemoteRuntimeHandle) \<times> 'e RemoteClientInner) option" where
  "recover env rid c =
     (case attach_runtime env rid c of
        None \<Rightarrow> None
      | Some (Inl failure, c') \<Rightarrow> Some (Inl failure, c')
      | Some (Inr descriptor, c') \<Rightarrow> Some (map_prod Inr id (client_runtime_handle rid descriptor c')))"

definition remote_dispose ::
    "'e ClientEnvironment \<Rightarrow> RuntimeId \<Rightarrow> 'e RemoteClientInner
      \<Rightarrow> (RuntimeFailure + DisposeOutcome) \<times> 'e RemoteClientInner" where
  "remote_dispose env rid c =
     (case request env (Dispose rid) c of
        (Inl failure, c') \<Rightarrow> (Inl failure, c')
      | (Inr (HostResponse.Disposed outcome), c') \<Rightarrow>
          (Inr outcome, c'\<lparr>rc_runtimes := hm_remove rid (rc_runtimes c')\<rparr>)
      | (Inr _, c') \<Rightarrow> (Inl (unexpected_response (Some rid) None), c'))"

definition remote_configuration_impact :: "RemoteRuntimeHandle \<Rightarrow> RuntimeConfigurationKey \<Rightarrow> ConfigurationImpact" where
  "remote_configuration_impact handle key =
     (case map_of (desc_configuration_impacts (rhandle_descriptor handle)) key of
        Some impact \<Rightarrow> impact | None \<Rightarrow> ReacquireRequired)"

definition remote_health ::
    "'e ClientEnvironment \<Rightarrow> RuntimeId \<Rightarrow> 'e RemoteClientInner \<Rightarrow> RuntimeHealth \<times> 'e RemoteClientInner" where
  "remote_health env rid c =
     (case request env (ClientRequest.Health rid) c of
        (Inr (HostResponse.Health health), c') \<Rightarrow> (health, c')
      | (Inr _, c') \<Rightarrow> (degraded_health rid ''remote host returned an unexpected health response'', c')
      | (Inl failure, c') \<Rightarrow> (degraded_health rid (failure_message failure), c'))"

definition remote_interrupt ::
    "'e ClientEnvironment \<Rightarrow> RuntimeId \<Rightarrow> InvocationId \<Rightarrow> 'e RemoteClientInner \<Rightarrow> InterruptOutcome \<times> 'e RemoteClientInner" where
  "remote_interrupt env rid i c =
     (case request env (Interrupt rid i) c of
        (Inr (HostResponse.Interrupted outcome), c') \<Rightarrow> (outcome, c')
      | (_, c') \<Rightarrow> (InterruptOutcome.Unconfirmed, c'))"

text \<open>A turn handle is the identifiers and the cell its channels belong to.\<close>

definition register_invocation ::
    "RuntimeId \<Rightarrow> InvocationId \<Rightarrow> bool \<Rightarrow> 'e RemoteClientInner \<Rightarrow> nat \<times> 'e RemoteClientInner" where
  "register_invocation rid i interactions c =
     (length (rc_cells c),
      c\<lparr>rc_cells := rc_cells c @ [RemoteInvocation_new rid i interactions],
        rc_invocations := hm_insert (rid, i) (length (rc_cells c)) (rc_invocations c)\<rparr>)"

definition withdraw_invocation :: "RuntimeId \<Rightarrow> InvocationId \<Rightarrow> 'e RemoteClientInner \<Rightarrow> 'e RemoteClientInner" where
  "withdraw_invocation rid i c = c\<lparr>rc_invocations := hm_remove (rid, i) (rc_invocations c)\<rparr>"

definition remote_start_turn ::
    "'e ClientEnvironment \<Rightarrow> RuntimeId \<Rightarrow> TurnInput \<Rightarrow> bool \<Rightarrow> 'e RemoteClientInner
      \<Rightarrow> ((RuntimeFailure + nat) \<times> 'e RemoteClientInner) option" where
  "remote_start_turn env rid input interactions c =
     (let i = input_invocation_id input in
      case register_invocation rid i interactions c of
        (k, c1) \<Rightarrow>
          (case request env (StartTurn rid (client_protocol_turn_input input)) c1 of
             (Inr (TurnAccepted _ _), c2) \<Rightarrow> Some (Inr k, c2)
           | (Inr _, c2) \<Rightarrow> Some (Inl (unexpected_response (Some rid) (Some i)), withdraw_invocation rid i c2)
           | (Inl failure, c2) \<Rightarrow>
               if failure_delivery failure = DeliveryState.PossiblySent \<and> retryable_transport_failure failure
               then case attach_runtime env rid c2 of
                      None \<Rightarrow> None
                    | Some (Inl _, c3) \<Rightarrow> Some (Inl failure, withdraw_invocation rid i c3)
                    | Some (Inr descriptor, c3) \<Rightarrow>
                        (let c4 = c3\<lparr>rc_runtimes := hm_insert rid descriptor (rc_runtimes c3)\<rparr> in
                         if rinv_last_sequence (rc_cells c4 ! k) > 0 then Some (Inr k, c4)
                         else Some (Inl failure, withdraw_invocation rid i c4))
               else Some (Inl failure, withdraw_invocation rid i c2)))"

end
