(* ===== verification/ClientRuns.thy ===== *)
theory ClientRuns
  imports ProtocolClient
begin

text \<open>
  Interleavings of the remote client, \<^verbatim>\<open>src/protocol_client.rs\<close>: every connection has a receive loop of
  its own that routes frames, consumers take events or go away, turns are started and withdrawn,
  connections are lost or invalidated and recovery gives up, in any order. A step is a stretch of
  code between two points at which another task can run.
\<close>

section \<open>The transition system\<close>

text \<open>
  A receive loop: waiting for a frame, having compared the sequence number of an event, having
  sent it over the channel, or ended.
\<close>

datatype (plugins only: code size) Receiver =
    Idle
  | Checked EventEnvelope nat
  | Handed EventEnvelope nat
  | Ended

text \<open>The receive loop of the connection established under number \<open>n + 1\<close> is at position \<open>n\<close>.\<close>

record 'e ClientWorld =
  cw_inner :: "'e RemoteClientInner"
  cw_receivers :: "Receiver list"

definition client_world_new :: "'e \<Rightarrow> RemoteRecoveryPolicy \<Rightarrow> string \<Rightarrow> 'e ClientWorld" where
  "client_world_new world policy request_prefix =
     \<lparr>cw_inner = with_recovery_policy_unchecked world policy request_prefix, cw_receivers = []\<rparr>"

datatype (plugins only: code size) ClientLabel =
    Connects
  | ConnectsBeside
  | Checks nat EventEnvelope
  | Sends nat
  | Stores nat
  | Routes nat HostFrame
  | Ends nat RemoteTransportError
  | Takes nat
  | Closes nat
  | Starts RuntimeId InvocationId bool
  | Withdraws RuntimeId InvocationId
  | Invalidates
  | GivesUp string
  | InteractionFails RuntimeId InvocationId

inductive client_step :: "'e ClientEnvironment \<Rightarrow> 'e ClientWorld \<Rightarrow> ClientLabel \<Rightarrow> 'e ClientWorld \<Rightarrow> bool"
  for env where
  connects:
    "rc_connection (cw_inner w) = None \<Longrightarrow> connection env (cw_inner w) = (Inr generation, c) \<Longrightarrow>
     client_step env w (if \<forall>r \<in> set (cw_receivers w). r = Ended then Connects else ConnectsBeside)
       \<lparr>cw_inner = c, cw_receivers = cw_receivers w @ [Idle]\<rparr>"
| checks:
    "n < length (cw_receivers w) \<Longrightarrow> cw_receivers w ! n = Idle \<Longrightarrow> route_check (cw_inner w) e = decision \<Longrightarrow>
     client_step env w (Checks n e)
       (case decision of
          Ignored \<Rightarrow> w
        | Gap \<Rightarrow> w\<lparr>cw_inner := schedule_active_recovery (cw_inner w)\<rparr>
        | Accept k \<Rightarrow> w\<lparr>cw_receivers := (cw_receivers w)[n := Checked e k]\<rparr>)"
| sends:
    "n < length (cw_receivers w) \<Longrightarrow> cw_receivers w ! n = Checked e k \<Longrightarrow> route_send (cw_inner w) e k = (sent, c) \<Longrightarrow>
     client_step env w (Sends n)
       \<lparr>cw_inner = c, cw_receivers = (cw_receivers w)[n := if sent then Handed e k else Idle]\<rparr>"
| stores:
    "n < length (cw_receivers w) \<Longrightarrow> cw_receivers w ! n = Handed e k \<Longrightarrow>
     client_step env w (Stores n)
       \<lparr>cw_inner = route_store (cw_inner w) e k, cw_receivers = (cw_receivers w)[n := Idle]\<rparr>"
| routes:
    "n < length (cw_receivers w) \<Longrightarrow> cw_receivers w ! n = Idle \<Longrightarrow> \<forall>e. frame \<noteq> Event e \<Longrightarrow>
     client_step env w (Routes n frame) (w\<lparr>cw_inner := route_frame frame (cw_inner w)\<rparr>)"
| ends:
    "n < length (cw_receivers w) \<Longrightarrow> cw_receivers w ! n = Idle \<Longrightarrow>
     client_step env w (Ends n e)
       \<lparr>cw_inner = disconnect_generation (of_nat (Suc n)) e (cw_inner w), cw_receivers = (cw_receivers w)[n := Ended]\<rparr>"
| takes:
    "k < length (rc_cells (cw_inner w)) \<Longrightarrow> rinv_taken (rc_cells (cw_inner w) ! k) < length (rinv_sent (rc_cells (cw_inner w) ! k)) \<Longrightarrow>
     client_step env w (Takes k)
       (w\<lparr>cw_inner := update_cell k (\<lambda>cell. cell\<lparr>rinv_taken := rinv_taken cell + 1\<rparr>) (cw_inner w)\<rparr>)"
| closes:
    "k < length (rc_cells (cw_inner w)) \<Longrightarrow>
     client_step env w (Closes k) (w\<lparr>cw_inner := update_cell k (\<lambda>cell. cell\<lparr>rinv_open := False\<rparr>) (cw_inner w)\<rparr>)"
| starts:
    "client_step env w (Starts rid i interactions)
       (w\<lparr>cw_inner := snd (register_invocation rid i interactions (cw_inner w))\<rparr>)"
| withdraws:
    "client_step env w (Withdraws rid i) (w\<lparr>cw_inner := withdraw_invocation rid i (cw_inner w)\<rparr>)"
| invalidates:
    "client_step env w Invalidates (w\<lparr>cw_inner := invalidate_connection (cw_inner w)\<rparr>)"
| gives_up:
    "client_step env w (GivesUp message) (w\<lparr>cw_inner := fail_active_recovery message (cw_inner w)\<rparr>)"
| interaction_fails:
    "client_step env w (InteractionFails rid i)
       (w\<lparr>cw_inner := fail_interaction_delivery rid i interaction_id source (cw_inner w)\<rparr>)"

inductive client_run :: "'e ClientEnvironment \<Rightarrow> 'e ClientWorld \<Rightarrow> ClientLabel list \<Rightarrow> 'e ClientWorld \<Rightarrow> bool"
  for env w where
  client_start: "client_run env w [] w"
| client_snoc: "client_run env w ls w' \<Longrightarrow> client_step env w' l w'' \<Longrightarrow> client_run env w (ls @ [l]) w''"

section \<open>At most one receive loop\<close>

definition live_receivers :: "Receiver list \<Rightarrow> Receiver list" where
  "live_receivers rs = filter (\<lambda>r. r \<noteq> Ended) rs"

definition current :: "Receiver list \<Rightarrow> Receiver" where
  "current rs = (case live_receivers rs of [r] \<Rightarrow> r | _ \<Rightarrow> Ended)"

abbreviation single :: "Receiver list \<Rightarrow> bool" where
  "single rs \<equiv> length (live_receivers rs) \<le> 1"

lemma live_update:
  assumes "single rs" "n < length rs" "rs ! n \<noteq> Ended"
  shows "live_receivers (rs[n := r]) = (if r = Ended then [] else [r])" and "live_receivers rs = [rs ! n]"
proof -
  have rs: "rs = take n rs @ rs ! n # drop (Suc n) rs" using assms(2) by (rule id_take_nth_drop)
  have "live_receivers rs = live_receivers (take n rs) @ rs ! n # live_receivers (drop (Suc n) rs)"
    using assms(3) by (subst rs) (simp add: live_receivers_def)
  with assms(1) have none: "live_receivers (take n rs) = []" "live_receivers (drop (Suc n) rs) = []" by auto
  show "live_receivers (rs[n := r]) = (if r = Ended then [] else [r])"
    using none assms(2) by (simp add: upd_conv_take_nth_drop live_receivers_def)
  show "live_receivers rs = [rs ! n]" using none \<open>live_receivers rs = _\<close> by simp
qed

lemma single_update: "single rs \<Longrightarrow> n < length rs \<Longrightarrow> rs ! n \<noteq> Ended \<Longrightarrow> single (rs[n := r])"
  by (simp add: live_update)

lemma current_update: "single rs \<Longrightarrow> n < length rs \<Longrightarrow> rs ! n \<noteq> Ended \<Longrightarrow> current (rs[n := r]) = r"
  by (simp add: current_def live_update)

lemma current_nth: "single rs \<Longrightarrow> n < length rs \<Longrightarrow> rs ! n \<noteq> Ended \<Longrightarrow> current rs = rs ! n"
  by (simp add: current_def live_update)

lemma live_all_ended: "\<forall>r \<in> set rs. r = Ended \<Longrightarrow> live_receivers rs = []"
  by (auto simp: live_receivers_def)

section \<open>The invariant\<close>

abbreviation cell_key :: "RemoteInvocation \<Rightarrow> RuntimeId \<times> InvocationId" where
  "cell_key cell \<equiv> (rinv_runtime_id cell, rinv_invocation_id cell)"

text \<open>
  What the receive loop \<open>cur\<close> and the cell \<open>k\<close> agree on: the events sent are numbered from one
  without a gap, the stored number is the last one, one less while the loop has yet to store it,
  and a successful completion follows the event that carries it.
\<close>

definition consecutive :: "EventEnvelope list \<Rightarrow> bool" where
  "consecutive es \<longleftrightarrow> map (\<lambda>e. unat (event_sequence e)) es = [1..<Suc (length es)]"

definition cell_ok :: "Receiver \<Rightarrow> nat \<Rightarrow> RemoteInvocation \<Rightarrow> bool" where
  "cell_ok cur k cell \<longleftrightarrow>
     consecutive (rinv_sent cell)
     \<and> (\<forall>e \<in> set (rinv_sent cell). envelope_key e = cell_key cell)
     \<and> length (rinv_sent cell) = unat (rinv_last_sequence cell) + (if \<exists>e. cur = Handed e k then 1 else 0)
     \<and> (\<forall>e. cur = Handed e k \<longrightarrow> rinv_sent cell \<noteq> [] \<and> last (rinv_sent cell) = e)
     \<and> (\<forall>e. cur = Checked e k \<longrightarrow> unat (event_sequence e) = Suc (length (rinv_sent cell)) \<and> envelope_key e = cell_key cell)
     \<and> (\<forall>result. rinv_completion cell = Some (Inr result) \<longrightarrow>
          rinv_sent cell \<noteq> [] \<and> event_payload (last (rinv_sent cell)) = InvocationCompleted result
          \<and> (\<forall>e. cur \<noteq> Checked e k \<and> cur \<noteq> Handed e k))"

definition table_ok :: "'e RemoteClientInner \<Rightarrow> bool" where
  "table_ok c \<longleftrightarrow> (\<forall>key k. hm_get (rc_invocations c) key = Some k \<longrightarrow>
     k < length (rc_cells c) \<and> key = cell_key (rc_cells c ! k)
     \<and> (\<forall>result. rinv_completion (rc_cells c ! k) \<noteq> Some (Inr result)))"

definition inner_ok :: "Receiver \<Rightarrow> 'e RemoteClientInner \<Rightarrow> bool" where
  "inner_ok cur c \<longleftrightarrow> table_ok c \<and> (\<forall>k < length (rc_cells c). cell_ok cur k (rc_cells c ! k))
     \<and> (\<forall>e k. cur = Checked e k \<or> cur = Handed e k \<longrightarrow> k < length (rc_cells c))"

definition client_ok :: "'e ClientWorld \<Rightarrow> bool" where
  "client_ok w \<longleftrightarrow> single (cw_receivers w) \<and> inner_ok (current (cw_receivers w)) (cw_inner w)"

lemma inner_okD:
  assumes "inner_ok cur c"
  shows "hm_get (rc_invocations c) key = Some k \<Longrightarrow> k < length (rc_cells c)"
    and "hm_get (rc_invocations c) key = Some k \<Longrightarrow> key = cell_key (rc_cells c ! k)"
    and "hm_get (rc_invocations c) key = Some k \<Longrightarrow> rinv_completion (rc_cells c ! k) \<noteq> Some (Inr result)"
    and "k < length (rc_cells c) \<Longrightarrow> cell_ok cur k (rc_cells c ! k)"
    and "cur = Checked e k \<or> cur = Handed e k \<Longrightarrow> k < length (rc_cells c)"
  using assms unfolding inner_ok_def table_ok_def by blast+

text \<open>The parts of the state the invariant speaks of.\<close>

lemma inner_ok_cong:
  "rc_invocations c' = rc_invocations c \<Longrightarrow> rc_cells c' = rc_cells c \<Longrightarrow> inner_ok cur c' = inner_ok cur c"
  by (simp add: inner_ok_def table_ok_def)

lemma inner_ok_fewer:
  assumes "inner_ok cur c" "\<And>key k. hm_get (rc_invocations c') key = Some k \<Longrightarrow> hm_get (rc_invocations c) key = Some k"
    and "rc_cells c' = rc_cells c"
  shows "inner_ok cur c'"
  using assms(1,2) unfolding inner_ok_def table_ok_def assms(3) by blast

text \<open>A change of a cell that keeps what was sent, the stored number and the successful completions.\<close>

definition harmless :: "(RemoteInvocation \<Rightarrow> RemoteInvocation) \<Rightarrow> bool" where
  "harmless f \<longleftrightarrow> (\<forall>cell. rinv_sent (f cell) = rinv_sent cell \<and> rinv_last_sequence (f cell) = rinv_last_sequence cell
     \<and> cell_key (f cell) = cell_key cell
     \<and> (\<forall>result. rinv_completion (f cell) = Some (Inr result) \<longrightarrow> rinv_completion cell = Some (Inr result)))"

lemma harmlessD:
  assumes "harmless f"
  shows "rinv_sent (f cell) = rinv_sent cell" "rinv_last_sequence (f cell) = rinv_last_sequence cell"
    "rinv_runtime_id (f cell) = rinv_runtime_id cell" "rinv_invocation_id (f cell) = rinv_invocation_id cell"
    and "rinv_completion (f cell) = Some (Inr result) \<Longrightarrow> rinv_completion cell = Some (Inr result)"
  using assms unfolding harmless_def by blast+

lemma cell_ok_harmless:
  assumes "harmless f" "cell_ok cur k cell"
  shows "cell_ok cur k (f cell)"
  using assms(2) harmlessD(5) [OF assms(1), of cell] unfolding cell_ok_def harmlessD(1-4) [OF assms(1)] by blast

lemma inner_ok_harmless:
  assumes "harmless f" "inner_ok cur c"
  shows "inner_ok cur (update_cell k f c)"
proof -
  have "cell_ok cur j ((rc_cells c)[k := f (rc_cells c ! k)] ! j)" if "j < length (rc_cells c)" for j
    using that inner_okD(4) [OF assms(2)] cell_ok_harmless [OF assms(1)] by (cases "j = k") simp_all
  moreover have "table_ok (update_cell k f c)"
    unfolding table_ok_def
  proof (intro allI impI)
    fix key j
    assume "hm_get (rc_invocations (update_cell k f c)) key = Some j"
    then have j: "hm_get (rc_invocations c) key = Some j" by (simp add: update_cell_def)
    note ok = inner_okD(1-3) [OF assms(2) j]
    show "j < length (rc_cells (update_cell k f c)) \<and> key = cell_key (rc_cells (update_cell k f c) ! j)
        \<and> (\<forall>result. rinv_completion (rc_cells (update_cell k f c) ! j) \<noteq> Some (Inr result))"
    proof (cases "j = k")
      case True
      then show ?thesis using ok harmlessD(5) [OF assms(1), of "rc_cells c ! k"]
        by (auto simp: update_cell_def harmlessD(1-4) [OF assms(1)])
    next
      case False
      then show ?thesis using ok by (simp add: update_cell_def)
    qed
  qed
  ultimately show ?thesis using inner_okD(5) [OF assms(2)] by (auto simp: inner_ok_def update_cell_def)
qed

lemma harmless_complete: "harmless (invocation_complete (Inl failure))"
  by (auto simp: harmless_def invocation_complete_def)

lemma harmless_fail: "harmless (\<lambda>cell. invocation_complete (Inl (failure cell)) cell)"
  by (auto simp: harmless_def invocation_complete_def)

lemma inner_ok_remove:
  "inner_ok cur c \<Longrightarrow> inner_ok cur (c\<lparr>rc_invocations := hm_remove key (rc_invocations c)\<rparr>)"
  by (erule inner_ok_fewer) (auto simp: table_simps split: if_splits)

lemma inner_ok_fold:
  assumes "\<And>k. harmless (f k)"
  shows "inner_ok cur c \<Longrightarrow> inner_ok cur (fold (\<lambda>k. update_cell k (f k)) ks c)"
  by (induction ks arbitrary: c) (simp_all add: inner_ok_harmless assms)

lemma inner_ok_fail_active: "inner_ok cur c \<Longrightarrow> inner_ok cur (fail_active_recovery message c)"
  unfolding fail_active_recovery_def
  by (rule inner_ok_fold [OF harmless_fail]) (erule inner_ok_fewer; simp)

lemma inner_ok_spawn: "inner_ok cur (spawn_task t c) = inner_ok cur c"
  by (rule inner_ok_cong) (simp_all add: spawn_task_def)

lemma schedule_same [simp]:
  "rc_invocations (schedule_active_recovery c) = rc_invocations c"
  "rc_cells (schedule_active_recovery c) = rc_cells c"
  by (simp_all add: schedule_active_recovery_def spawn_task_def)

lemma pending_send_same [simp]:
  "rc_invocations (pending_send q m c) = rc_invocations c" "rc_cells (pending_send q m c) = rc_cells c"
  by (simp_all add: pending_send_def split: option.split)

lemma fold_pending_same [simp]:
  "rc_invocations (fold (\<lambda>q. pending_send q m) qs c) = rc_invocations c"
  "rc_cells (fold (\<lambda>q. pending_send q m) qs c) = rc_cells c"
  by (induction qs arbitrary: c) simp_all

lemma inner_ok_disconnect:
  assumes "inner_ok cur c"
  shows "inner_ok cur (disconnect_generation g e c)"
proof -
  let ?c = "fold (\<lambda>q. pending_send q (PendingDisconnected e)) (map fst (rc_pending c)) (c\<lparr>rc_connection := None\<rparr>)"
  have ok: "inner_ok cur ?c" using assms by (subst inner_ok_cong [of _ c]) simp_all
  then have "inner_ok cur (schedule_active_recovery ?c)" by (subst inner_ok_cong [of _ ?c]) simp_all
  with ok assms show ?thesis
    by (cases e) (simp_all add: disconnect_generation_def inner_ok_fail_active)
qed

lemma inner_ok_connection: "connection env c = (res, c') \<Longrightarrow> inner_ok cur c \<Longrightarrow> inner_ok cur c'"
  by (auto simp: connection_def cong: inner_ok_cong split: option.splits prod.splits sum.splits)

text \<open>A loop that changes between idle and ended leaves the cells alone.\<close>

lemma inner_ok_idle: "inner_ok Idle c \<longleftrightarrow> inner_ok Ended c"
  by (simp add: inner_ok_def cell_ok_def)

lemma inner_ok_step:
  assumes ok: "inner_ok cur c" and k: "k < length (rc_cells c)"
    and cells: "rc_cells c' = (rc_cells c)[k := x]"
    and x: "cell_ok cur' k x" "cell_key x = cell_key (rc_cells c ! k)"
    and other: "\<And>j cell. j \<noteq> k \<Longrightarrow> cell_ok cur j cell \<Longrightarrow> cell_ok cur' j cell"
    and table: "\<And>key j. hm_get (rc_invocations c') key = Some j \<Longrightarrow> hm_get (rc_invocations c) key = Some j"
    and completion: "\<And>key result. hm_get (rc_invocations c') key = Some k \<Longrightarrow> rinv_completion x \<noteq> Some (Inr result)"
    and cur': "\<And>e j. cur' = Checked e j \<or> cur' = Handed e j \<Longrightarrow> j = k"
  shows "inner_ok cur' c'"
proof -
  have "cell_ok cur' j (rc_cells c' ! j)" if "j < length (rc_cells c')" for j
    using that inner_okD(4) [OF ok, of j] other [of j] x(1) k by (cases "j = k") (simp_all add: cells)
  moreover have "table_ok c'"
    unfolding table_ok_def
  proof (intro allI impI)
    fix key j
    assume j: "hm_get (rc_invocations c') key = Some j"
    show "j < length (rc_cells c') \<and> key = cell_key (rc_cells c' ! j)
        \<and> (\<forall>result. rinv_completion (rc_cells c' ! j) \<noteq> Some (Inr result))"
      using inner_okD(1-3) [OF ok table [OF j]] x(2) completion j k by (cases "j = k") (auto simp: cells)
  qed
  ultimately show ?thesis using cur' k by (auto simp: inner_ok_def cells)
qed

lemma saturating_succ:
  fixes a b :: u64
  assumes "a < b" "b = saturating_add a 1"
  shows "unat b = Suc (unat a)"
proof -
  have "unat a < unat b" "unat b < 2 ^ 64" using assms(1) unat_lt64 [of b] by (simp_all add: word_less_nat_alt)
  then show ?thesis using assms(2) by (auto simp: sat_simps)
qed

lemma route_check_Accept:
  assumes "route_check c e = Accept k"
  shows "hm_get (rc_invocations c) (envelope_key e) = Some k"
    and "unat (event_sequence e) = Suc (unat (rinv_last_sequence (rc_cells c ! k)))"
  using assms saturating_succ [of "rinv_last_sequence (rc_cells c ! k)" "event_sequence e"]
  by (auto simp: route_check_def Let_def not_le split: option.splits if_splits)

lemma inner_ok_check:
  assumes ok: "inner_ok Idle c" and accept: "route_check c e = Accept k"
  shows "inner_ok (Checked e k) c"
proof (rule inner_ok_step [OF ok inner_okD(1) [OF ok route_check_Accept(1) [OF accept]]])
  note acc = route_check_Accept [OF accept]
  have "cell_ok Idle k (rc_cells c ! k)" using inner_okD(4) [OF ok inner_okD(1) [OF ok acc(1)]] .
  then show "cell_ok (Checked e k) k (rc_cells c ! k)"
    using acc(2) inner_okD(2,3) [OF ok acc(1)] by (auto simp: cell_ok_def)
  show "rinv_completion (rc_cells c ! k) \<noteq> Some (Inr result)" for result
    using inner_okD(3) [OF ok acc(1)] .
qed (auto simp: cell_ok_def)

lemma consecutive_snoc: "consecutive es \<Longrightarrow> unat (event_sequence e) = Suc (length es) \<Longrightarrow> consecutive (es @ [e])"
  by (simp add: consecutive_def)

lemma inner_ok_send:
  assumes ok: "inner_ok (Checked e k) c" and send: "route_send c e k = (True, c')"
  shows "inner_ok (Handed e k) c'"
proof (rule inner_ok_step [OF ok inner_okD(5) [OF ok]])
  let ?cell = "rc_cells c ! k"
  have cell: "cell_ok (Checked e k) k ?cell" using inner_okD(4,5) [OF ok] by blast
  show "cell_ok (Handed e k) k (?cell\<lparr>rinv_sent := rinv_sent ?cell @ [e]\<rparr>)"
    using cell consecutive_snoc [of "rinv_sent ?cell" e] unfolding cell_ok_def by auto
  show "rinv_completion (?cell\<lparr>rinv_sent := rinv_sent ?cell @ [e]\<rparr>) \<noteq> Some (Inr result)" for result
    using cell by (auto simp: cell_ok_def)
qed (use send in \<open>auto simp: route_send_def update_cell_def cell_ok_def split: if_splits\<close>)

lemma inner_ok_send_fails:
  assumes ok: "inner_ok (Checked e k) c" and send: "route_send c e k = (False, c')"
  shows "inner_ok Idle c'"
proof -
  have "inner_ok Idle c"
    using ok unfolding inner_ok_def by (auto simp: cell_ok_def)
  moreover obtain message where "c' = fail_invocation e k message c"
    using send by (auto simp: route_send_def split: if_splits)
  ultimately show ?thesis
    by (simp add: fail_invocation_def inner_ok_harmless harmless_complete inner_ok_spawn inner_ok_remove)
qed

lemma route_interaction_same [simp]:
  "rc_invocations (route_interaction k event c) = rc_invocations c" "rc_cells (route_interaction k event c) = rc_cells c"
  by (simp_all add: route_interaction_def spawn_task_def)

lemma route_store_cells:
  "rc_cells (route_store c e k) = (rc_cells c)[k :=
     (case terminal_result (event_payload e) of None \<Rightarrow> (rc_cells c ! k)\<lparr>rinv_last_sequence := event_sequence e\<rparr>
      | Some result \<Rightarrow> invocation_complete result ((rc_cells c ! k)\<lparr>rinv_last_sequence := event_sequence e\<rparr>))]"
  if "k < length (rc_cells c)"
  using that by (auto simp: route_store_def Let_def update_cell_def split: option.split RuntimeEvent.split)

lemma route_store_table:
  "rc_invocations (route_store c e k) =
     (if terminal_result (event_payload e) = None then rc_invocations c else hm_remove (envelope_key e) (rc_invocations c))"
  by (auto simp: route_store_def Let_def update_cell_def split: option.split RuntimeEvent.split)

lemma terminal_result_Inr: "terminal_result p = Some (Inr result) \<longleftrightarrow> p = InvocationCompleted result"
  by (cases p) auto

lemma inner_ok_store:
  assumes ok: "inner_ok (Handed e k) c"
  shows "inner_ok Idle (route_store c e k)"
proof (rule inner_ok_step [OF ok inner_okD(5) [OF ok] route_store_cells])
  have k: "k < length (rc_cells c)" using inner_okD(5) [OF ok] by blast
  then show "k < length (rc_cells c)" .
  let ?cell = "rc_cells c ! k" and ?t = "terminal_result (event_payload e)"
  let ?x = "case ?t of None \<Rightarrow> ?cell\<lparr>rinv_last_sequence := event_sequence e\<rparr>
      | Some result \<Rightarrow> invocation_complete result (?cell\<lparr>rinv_last_sequence := event_sequence e\<rparr>)"
  have cell: "cell_ok (Handed e k) k ?cell" using inner_okD(4) [OF ok k] .
  then have sent: "rinv_sent ?cell \<noteq> []" "last (rinv_sent ?cell) = e" "\<And>result. rinv_completion ?cell \<noteq> Some (Inr result)"
    by (auto simp: cell_ok_def)
  then have "e \<in> set (rinv_sent ?cell)" using last_in_set by metis
  then have key: "envelope_key e = cell_key ?cell" using cell by (simp add: cell_ok_def)
  have "consecutive (rinv_sent ?cell)" using cell by (simp add: cell_ok_def)
  then have "last (map (\<lambda>e. unat (event_sequence e)) (rinv_sent ?cell)) = length (rinv_sent ?cell)"
    using sent(1) by (simp add: consecutive_def Suc_le_eq)
  then have len: "length (rinv_sent ?cell) = unat (event_sequence e)" using sent(1,2) by (simp add: last_map)
  show "cell_ok Idle k ?x"
    using cell sent len
    by (auto simp: cell_ok_def invocation_complete_def terminal_result_Inr split: option.split)
  show "cell_key ?x = cell_key ?cell" by (simp add: invocation_complete_def split: option.split)
  show "rinv_completion ?x \<noteq> Some (Inr result)" if "hm_get (rc_invocations (route_store c e k)) key = Some k" for key result
  proof (cases ?t)
    case None
    then show ?thesis using sent(3) by simp
  next
    case (Some r)
    then have "hm_get (rc_invocations c) key = Some k" "key \<noteq> envelope_key e"
      using that by (auto simp: route_store_table table_simps split: if_splits)
    then show ?thesis using inner_okD(2) [OF ok] key by metis
  qed
qed (auto simp: route_store_table table_simps cell_ok_def split: if_splits)

lemma inner_ok_start:
  assumes ok: "inner_ok cur c"
  shows "inner_ok cur (snd (register_invocation rid i interactions c))" (is "inner_ok cur ?c")
proof -
  let ?new = "RemoteInvocation_new rid i interactions" and ?n = "length (rc_cells c)"
  have cells: "rc_cells ?c = rc_cells c @ [?new]"
    and table: "rc_invocations ?c = hm_insert (rid, i) ?n (rc_invocations c)" by (simp_all add: register_invocation_def)
  have "cur \<noteq> Checked e ?n" "cur \<noteq> Handed e ?n" for e
    using inner_okD(5) [OF ok, of e ?n] by blast+
  then have new: "cell_ok cur ?n ?new" by (simp add: cell_ok_def RemoteInvocation_new_def consecutive_def)
  have "cell_ok cur j (rc_cells ?c ! j)" if "j < length (rc_cells ?c)" for j
    using that new inner_okD(4) [OF ok, of j] by (cases "j = ?n") (auto simp: cells nth_append)
  moreover have "table_ok ?c"
    unfolding table_ok_def
  proof (intro allI impI)
    fix key j
    assume "hm_get (rc_invocations ?c) key = Some j"
    then have "((hm_get (rc_invocations c))((rid, i) \<mapsto> ?n)) key = Some j" unfolding table hm_get_insert .
    then consider "key = (rid, i)" "j = ?n" | "hm_get (rc_invocations c) key = Some j"
      by (cases "key = (rid, i)") simp_all
    then show "j < length (rc_cells ?c) \<and> key = cell_key (rc_cells ?c ! j)
        \<and> (\<forall>result. rinv_completion (rc_cells ?c ! j) \<noteq> Some (Inr result))"
    proof cases
      case 1
      then show ?thesis by (simp add: cells RemoteInvocation_new_def)
    next
      case 2
      from inner_okD(1-3) [OF ok 2] show ?thesis by (auto simp: cells nth_append)
    qed
  qed
  moreover have "j < length (rc_cells ?c)" if "cur = Checked e j \<or> cur = Handed e j" for e j
    using inner_okD(5) [OF ok that] by (simp add: cells)
  ultimately show ?thesis unfolding inner_ok_def by blast
qed

lemma inner_ok_interaction: "inner_ok cur c \<Longrightarrow> inner_ok cur (fail_interaction_delivery rid i q source c)"
  by (auto simp: fail_interaction_delivery_def intro!: inner_ok_harmless harmless_complete inner_ok_remove split: option.split)

section \<open>Events arrive in order\<close>

lemma client_ok_new: "client_ok (client_world_new world policy request_prefix)"
  by (simp add: client_ok_def client_world_new_def with_recovery_policy_unchecked_def inner_ok_def table_ok_def
      current_def live_receivers_def)

lemma client_ok_cur:
  assumes "client_ok w" "n < length (cw_receivers w)" "cw_receivers w ! n \<noteq> Ended"
  shows "inner_ok (cw_receivers w ! n) (cw_inner w)"
    and "inner_ok r c \<Longrightarrow> client_ok \<lparr>cw_inner = c, cw_receivers = (cw_receivers w)[n := r]\<rparr>"
  using assms current_nth [of "cw_receivers w" n] current_update [of "cw_receivers w" n r]
    single_update [of "cw_receivers w" n r]
  by (simp_all add: client_ok_def)

lemma client_ok_inner:
  assumes "client_ok w" "\<And>cur. inner_ok cur (cw_inner w) \<Longrightarrow> inner_ok cur c"
  shows "client_ok (w\<lparr>cw_inner := c\<rparr>)"
  using assms by (simp add: client_ok_def)

lemma harmless_taken: "harmless (\<lambda>cell. cell\<lparr>rinv_taken := f cell\<rparr>)" "harmless (\<lambda>cell. cell\<lparr>rinv_open := False\<rparr>)"
  by (simp_all add: harmless_def)

lemma client_ok_step:
  assumes step: "client_step env w l w'" and ok: "client_ok w" and l: "l \<noteq> ConnectsBeside"
  shows "client_ok w'"
  using step
proof cases
  case (connects generation c)
  then have all: "\<forall>r \<in> set (cw_receivers w). r = Ended" using l by (auto split: if_splits)
  have "inner_ok Ended (cw_inner w)" using ok live_all_ended [OF all] by (simp add: client_ok_def current_def)
  then have "inner_ok Idle c" using inner_ok_connection [OF connects(4)] inner_ok_idle by blast
  moreover have "live_receivers (cw_receivers w @ [Idle]) = [Idle]"
    using live_all_ended [OF all] by (simp add: live_receivers_def)
  ultimately show ?thesis by (simp add: connects client_ok_def current_def)
next
  case (checks n e decision)
  have cur: "inner_ok Idle (cw_inner w)" using client_ok_cur(1) [OF ok checks(3)] checks(4) by simp
  show ?thesis
  proof (cases decision)
    case Ignored
    then show ?thesis using ok checks(2) by simp
  next
    case Gap
    have "client_ok (w\<lparr>cw_inner := schedule_active_recovery (cw_inner w)\<rparr>)"
      by (rule client_ok_inner [OF ok]) (subst inner_ok_cong [of _ "cw_inner w"]; simp)
    then show ?thesis using Gap checks(2) by simp
  next
    case (Accept k)
    have "inner_ok (Checked e k) (cw_inner w)" using inner_ok_check [OF cur] checks(5) Accept by simp
    then have "client_ok \<lparr>cw_inner = cw_inner w, cw_receivers = (cw_receivers w)[n := Checked e k]\<rparr>"
      using client_ok_cur(2) [OF ok checks(3)] checks(4) by simp
    then show ?thesis using Accept checks(2) by (simp add: client_ok_def)
  qed
next
  case (sends n e k sent c)
  have cur: "inner_ok (Checked e k) (cw_inner w)" using client_ok_cur(1) [OF ok sends(3)] sends(4) by simp
  have "inner_ok (if sent then Handed e k else Idle) c"
    using inner_ok_send [OF cur] inner_ok_send_fails [OF cur] sends(5) by (cases sent) simp_all
  then show ?thesis unfolding sends(2) by (rule client_ok_cur(2) [OF ok sends(3), rotated]) (simp add: sends(4))
next
  case (stores n e k)
  have cur: "inner_ok (Handed e k) (cw_inner w)" using client_ok_cur(1) [OF ok stores(3)] stores(4) by simp
  show ?thesis using client_ok_cur(2) [OF ok stores(3) _ inner_ok_store [OF cur]] stores(2,4) by simp
next
  case (ends n e)
  have cur: "inner_ok Idle (cw_inner w)" using client_ok_cur(1) [OF ok ends(3)] ends(4) by simp
  then have "inner_ok Ended (cw_inner w)" using inner_ok_idle by blast
  then show ?thesis using client_ok_cur(2) [OF ok ends(3) _ inner_ok_disconnect] ends(2,4) by simp
next
  case (routes n frame)
  have "rc_invocations (route_frame frame (cw_inner w)) = rc_invocations (cw_inner w)"
    "rc_cells (route_frame frame (cw_inner w)) = rc_cells (cw_inner w)"
    using routes(5) by (cases frame; simp)+
  then show ?thesis using client_ok_inner [OF ok] inner_ok_cong routes(2) by metis
next
  case takes
  then show ?thesis using client_ok_inner [OF ok inner_ok_harmless [OF harmless_taken(1)]] by simp
next
  case closes
  then show ?thesis using client_ok_inner [OF ok inner_ok_harmless [OF harmless_taken(2)]] by simp
next
  case starts
  then show ?thesis using client_ok_inner [OF ok inner_ok_start] by simp
next
  case withdraws
  then show ?thesis using client_ok_inner [OF ok inner_ok_remove] by (simp add: withdraw_invocation_def)
next
  case invalidates
  have "client_ok (w\<lparr>cw_inner := invalidate_connection (cw_inner w)\<rparr>)"
    by (rule client_ok_inner [OF ok]) (subst inner_ok_cong [of _ "cw_inner w"]; simp add: invalidate_connection_def)
  then show ?thesis using invalidates by simp
next
  case gives_up
  then show ?thesis using client_ok_inner [OF ok inner_ok_fail_active] by simp
next
  case interaction_fails
  then show ?thesis using client_ok_inner [OF ok inner_ok_interaction] by simp
qed

lemma client_ok_run:
  "client_run env w ls w' \<Longrightarrow> client_ok w \<Longrightarrow> ConnectsBeside \<notin> set ls \<Longrightarrow> client_ok w'"
  by (induction rule: client_run.induct) (auto intro: client_ok_step)

text \<open>
  C36: the events a consumer receives are complete, in order and without repetition. In every run in
  which no connection is established beside a receive loop that still runs, the events sent to a
  turn's consumer are numbered from one without a gap and belong to that turn, whatever frames
  arrive in whatever order; and a turn that completes successfully has sent the event that carries
  its result last.
\<close>

theorem remote_events_in_order:
  assumes run: "client_run env (client_world_new world policy request_prefix) ls w"
    and one: "ConnectsBeside \<notin> set ls"
    and cell: "cell \<in> set (rc_cells (cw_inner w))"
  shows "map (\<lambda>e. unat (event_sequence e)) (rinv_sent cell) = [1..<Suc (length (rinv_sent cell))]
    \<and> (\<forall>e \<in> set (rinv_sent cell). event_runtime_id e = rinv_runtime_id cell \<and> event_invocation_id e = rinv_invocation_id cell)
    \<and> (\<forall>result. rinv_completion cell = Some (Inr result) \<longrightarrow>
      rinv_sent cell \<noteq> [] \<and> event_payload (last (rinv_sent cell)) = InvocationCompleted result)"
proof -
  have "client_ok w" using client_ok_run [OF run client_ok_new one] .
  then obtain k where "cell_ok (current (cw_receivers w)) k cell"
    using cell unfolding client_ok_def inner_ok_def in_set_conv_nth by blast
  then show ?thesis by (auto simp: cell_ok_def consecutive_def envelope_key_def)
qed

section \<open>Two receive loops\<close>

text \<open>
  \<open>invalidate_connection\<close>, for instance after a request that timed out, lets go of the connection but
  not of its receive loop.
\<close>

abbreviation sample_envelope :: EventEnvelope where
  "sample_envelope \<equiv> \<lparr>event_schema_version = 1, event_runtime_id = RuntimeId ''r'', event_invocation_id = InvocationId ''i'',
     event_sequence = 1, event_observed_at_unix_ms = 0, event_payload = InvocationStarted Claude\<rparr>"

abbreviation sample_env :: "unit ClientEnvironment" where
  "sample_env \<equiv> \<lparr>env_connect = (\<lambda>w. (Inr (), w)), env_send = (\<lambda>w f. (Inr (), w)),
     env_wait = (\<lambda>c q. (TimedOut, c)), env_sleep = (\<lambda>c d. c)\<rparr>"

abbreviation sample_cell :: "EventEnvelope list \<Rightarrow> u64 \<Rightarrow> RemoteInvocation" where
  "sample_cell sent last_sequence \<equiv>
     (RemoteInvocation_new (RuntimeId ''r'') (InvocationId ''i'') False)\<lparr>rinv_sent := sent, rinv_last_sequence := last_sequence\<rparr>"

abbreviation sample_client :: "u64 option \<Rightarrow> u64 \<Rightarrow> RemoteInvocation list \<Rightarrow> Receiver list \<Rightarrow> unit ClientWorld" where
  "sample_client conn generation cells receivers \<equiv>
     \<lparr>cw_inner = (with_recovery_policy_unchecked () RemoteRecoveryPolicy_default ''p'')\<lparr>rc_connection := conn,
        rc_connection_generation := generation, rc_cells := cells,
        rc_invocations := (if cells = [] then [] else [((RuntimeId ''r'', InvocationId ''i''), 0)])\<rparr>,
      cw_receivers = receivers\<rparr>"

lemma client_step_eq: "client_step env w l v \<Longrightarrow> l = l' \<Longrightarrow> v = v' \<Longrightarrow> client_step env w l' v'"
  by simp

lemma sample_connects:
  "client_step sample_env (sample_client None g cells rs)
     (if \<forall>r \<in> set rs. r = Ended then Connects else ConnectsBeside) (sample_client (Some g) (g + 1) cells (rs @ [Idle]))"
  by (rule client_step_eq [OF connects])
    (simp_all add: connection_def with_recovery_policy_unchecked_def)

lemma sample_starts:
  "client_step sample_env (sample_client conn g [] rs) (Starts (RuntimeId ''r'') (InvocationId ''i'') False)
     (sample_client conn g [sample_cell [] 0] rs)"
  by (rule client_step_eq [OF starts [where rid = "RuntimeId ''r''" and i = "InvocationId ''i''" and interactions = False]])
    (simp_all add: register_invocation_def with_recovery_policy_unchecked_def RemoteInvocation_new_def)

lemma sample_invalidates: "client_step sample_env (sample_client conn g cells rs) Invalidates (sample_client None g cells rs)"
  by (rule client_step_eq [OF invalidates]) (simp_all add: invalidate_connection_def)

lemma sample_checks:
  "n < length rs \<Longrightarrow> rs ! n = Idle \<Longrightarrow>
   client_step sample_env (sample_client conn g [sample_cell [] 0] rs) (Checks n sample_envelope)
     (sample_client conn g [sample_cell [] 0] (rs[n := Checked sample_envelope 0]))"
  by (rule client_step_eq [OF checks [where decision = "Accept 0"]])
    (simp_all add: route_check_def envelope_key_def RemoteInvocation_new_def saturating_add_def)

lemma sample_client_sends:
  "n < length rs \<Longrightarrow> rs ! n = Checked sample_envelope 0 \<Longrightarrow> length sent < 128 \<Longrightarrow>
   client_step sample_env (sample_client conn g [sample_cell sent s] rs) (Sends n)
     (sample_client conn g [sample_cell (sent @ [sample_envelope]) s] (rs[n := Handed sample_envelope 0]))"
  by (rule client_step_eq [OF sends [where sent = True]])
    (simp_all add: route_send_def channel_full_def EVENT_CHANNEL_CAPACITY_def RemoteInvocation_new_def update_cell_def)

lemma sample_stores:
  "n < length rs \<Longrightarrow> rs ! n = Handed sample_envelope 0 \<Longrightarrow>
   client_step sample_env (sample_client conn g [sample_cell sent s] rs) (Stores n)
     (sample_client conn g [sample_cell sent 1] (rs[n := Idle]))"
  by (rule client_step_eq [OF stores [where e = sample_envelope and k = 0]]) (simp_all add: route_store_def Let_def update_cell_def RemoteInvocation_new_def)

lemma client_run_one: "client_run env u ls w \<Longrightarrow> client_step env w l w' \<Longrightarrow> ls' = ls @ [l] \<Longrightarrow> client_run env u ls' w'"
  using client_snoc by metis

lemma sample_client_new: "client_world_new () RemoteRecoveryPolicy_default ''p'' = sample_client None 1 [] []"
  by (simp add: client_world_new_def with_recovery_policy_unchecked_def)

lemma sample_one_receiver:
  "client_run sample_env (client_world_new () RemoteRecoveryPolicy_default ''p'')
     [Connects, Starts (RuntimeId ''r'') (InvocationId ''i'') False] (sample_client (Some 1) 2 [sample_cell [] 0] [Idle])"
proof -
  have "client_run sample_env (client_world_new () RemoteRecoveryPolicy_default ''p'') [Connects] (sample_client (Some 1) 2 [] [Idle])"
    unfolding sample_client_new
    by (rule client_run_one [OF client_start client_step_eq [OF sample_connects]]) simp_all
  then show ?thesis by (rule client_run_one [OF _ sample_starts]) simp
qed

theorem remote_events_in_order_witness:
  "map (\<lambda>e. unat (event_sequence e)) (rinv_sent (sample_cell [sample_envelope] 1)) = [1]
   \<and> ConnectsBeside \<notin> set [Connects, Starts (RuntimeId ''r'') (InvocationId ''i'') False, Checks 0 sample_envelope, Sends 0, Stores 0]"
proof -
  have 1: "client_run sample_env (client_world_new () RemoteRecoveryPolicy_default ''p'')
      [Connects, Starts (RuntimeId ''r'') (InvocationId ''i'') False, Checks 0 sample_envelope]
      (sample_client (Some 1) 2 [sample_cell [] 0] [Checked sample_envelope 0])"
    by (rule client_run_one [OF sample_one_receiver client_step_eq [OF sample_checks [where n = 0]]]) simp_all
  have 2: "client_run sample_env (client_world_new () RemoteRecoveryPolicy_default ''p'')
      [Connects, Starts (RuntimeId ''r'') (InvocationId ''i'') False, Checks 0 sample_envelope, Sends 0]
      (sample_client (Some 1) 2 [sample_cell [sample_envelope] 0] [Handed sample_envelope 0])"
    by (rule client_run_one [OF 1 client_step_eq [OF sample_client_sends [where n = 0]]]) simp_all
  have 3: "client_run sample_env (client_world_new () RemoteRecoveryPolicy_default ''p'')
      [Connects, Starts (RuntimeId ''r'') (InvocationId ''i'') False, Checks 0 sample_envelope, Sends 0, Stores 0]
      (sample_client (Some 1) 2 [sample_cell [sample_envelope] 1] [Idle])"
    by (rule client_run_one [OF 2 client_step_eq [OF sample_stores [where n = 0]]]) simp_all
  from remote_events_in_order [OF 3, of "sample_cell [sample_envelope] 1"] show ?thesis by simp
qed

text \<open>
  C37: a receive loop that outlives its connection breaks this. Two loops can compare the sequence
  number of the same event before either stores it, and both send it: the consumer receives the
  event twice.
\<close>

theorem two_receive_loops_repeat_an_event:
  "\<exists>ls w. client_run sample_env (client_world_new () RemoteRecoveryPolicy_default ''p'') ls w
     \<and> map rinv_sent (rc_cells (cw_inner w)) = [[sample_envelope, sample_envelope]]"
proof -
  let ?run = "client_run sample_env (client_world_new () RemoteRecoveryPolicy_default ''p'')"
  let ?start = "[Connects, Starts (RuntimeId ''r'') (InvocationId ''i'') False]"
  have 1: "?run (?start @ [Invalidates]) (sample_client None 2 [sample_cell [] 0] [Idle])"
    by (rule client_run_one [OF sample_one_receiver sample_invalidates]) simp
  have 2: "?run (?start @ [Invalidates, ConnectsBeside]) (sample_client (Some 2) 3 [sample_cell [] 0] [Idle, Idle])"
    by (rule client_run_one [OF 1 client_step_eq [OF sample_connects]]) simp_all
  have 3: "?run (?start @ [Invalidates, ConnectsBeside, Checks 0 sample_envelope])
      (sample_client (Some 2) 3 [sample_cell [] 0] [Checked sample_envelope 0, Idle])"
    by (rule client_run_one [OF 2 client_step_eq [OF sample_checks [where n = 0]]]) simp_all
  have 4: "?run (?start @ [Invalidates, ConnectsBeside, Checks 0 sample_envelope, Checks 1 sample_envelope])
      (sample_client (Some 2) 3 [sample_cell [] 0] [Checked sample_envelope 0, Checked sample_envelope 0])"
    by (rule client_run_one [OF 3 client_step_eq [OF sample_checks [where n = 1]]]) simp_all
  have 5: "?run (?start @ [Invalidates, ConnectsBeside, Checks 0 sample_envelope, Checks 1 sample_envelope, Sends 0])
      (sample_client (Some 2) 3 [sample_cell [sample_envelope] 0] [Handed sample_envelope 0, Checked sample_envelope 0])"
    by (rule client_run_one [OF 4 client_step_eq [OF sample_client_sends [where n = 0]]]) simp_all
  have 6: "?run (?start @ [Invalidates, ConnectsBeside, Checks 0 sample_envelope, Checks 1 sample_envelope, Sends 0, Sends 1])
      (sample_client (Some 2) 3 [sample_cell [sample_envelope, sample_envelope] 0] [Handed sample_envelope 0, Handed sample_envelope 0])"
    by (rule client_run_one [OF 5 client_step_eq [OF sample_client_sends [where n = 1]]]) simp_all
  then show ?thesis by (intro exI conjI) (assumption, simp)
qed

end
