(* ===== verification/RemoteReplay.thy ===== *)
theory RemoteReplay
  imports ClientRuns HostDelivery
begin

text \<open>
  The journal of the host and the routing of the client together: what a client makes of the
  frames that an attach replays.
\<close>

section \<open>Routing a list of events\<close>

lemma inner_ok_route_event: "inner_ok Idle c \<Longrightarrow> inner_ok Idle (route_event e c)"
  by (auto simp: route_event_def inner_ok_cong [of "schedule_active_recovery c" c]
      dest: inner_ok_check inner_ok_send inner_ok_send_fails intro: inner_ok_store
      split: RouteDecision.split prod.split bool.split)

lemma fail_invocation_nth: "n \<noteq> k \<Longrightarrow> rc_cells (fail_invocation e k message c) ! n = rc_cells c ! n"
  by (simp add: fail_invocation_def spawn_task_def update_cell_def)

lemma fail_invocation_table: "rc_invocations (fail_invocation e k message c) = hm_remove (envelope_key e) (rc_invocations c)"
  by (simp add: fail_invocation_def spawn_task_def update_cell_def)

lemma route_send_nth: "route_send c e k = (sent, c') \<Longrightarrow> n \<noteq> k \<Longrightarrow> rc_cells c' ! n = rc_cells c ! n"
  by (auto simp: route_send_def fail_invocation_nth update_cell_def split: if_splits)

lemma route_send_table:
  "route_send c e k = (sent, c') \<Longrightarrow>
   rc_invocations c' = (if sent then rc_invocations c else hm_remove (envelope_key e) (rc_invocations c))"
  by (auto simp: route_send_def fail_invocation_table update_cell_def split: if_splits)

lemma route_store_nth: "n \<noteq> k \<Longrightarrow> rc_cells (route_store c e k) ! n = rc_cells c ! n"
  by (auto simp: route_store_def Let_def update_cell_def split: option.split RuntimeEvent.split)

text \<open>An event leaves the cells and the table entries of other invocations alone.\<close>

lemma route_event_other:
  assumes ok: "inner_ok Idle c" and key: "cell_key (rc_cells c ! n) \<noteq> envelope_key e"
  shows "rc_cells (route_event e c) ! n = rc_cells c ! n"
proof (cases "route_check c e")
  case (Accept k)
  have "n \<noteq> k" using inner_okD(2) [OF ok route_check_Accept(1) [OF Accept]] key by metis
  obtain sent c' where send: "route_send c e k = (sent, c')" by force
  show ?thesis
    using Accept send route_send_nth [OF send \<open>n \<noteq> k\<close>] route_store_nth [OF \<open>n \<noteq> k\<close>, of c' e]
    by (cases sent) (simp_all add: route_event_def)
qed (simp_all add: route_event_def)

lemma route_event_table:
  assumes "key \<noteq> envelope_key e"
  shows "hm_get (rc_invocations (route_event e c)) key = hm_get (rc_invocations c) key"
proof (cases "route_check c e")
  case (Accept k)
  obtain sent c' where send: "route_send c e k = (sent, c')" by force
  show ?thesis
    using Accept send route_send_table [OF send] assms
    by (simp add: route_event_def route_store_table table_simps split: bool.split)
qed (simp_all add: route_event_def)

lemma route_events_other:
  assumes "inner_ok Idle c" "\<forall>e \<in> set es. envelope_key e \<noteq> cell_key (rc_cells c ! n)"
  shows "rc_cells (fold route_event es c) ! n = rc_cells c ! n"
  using assms
proof (induction es arbitrary: c)
  case (Cons e es)
  have "rc_cells (route_event e c) ! n = rc_cells c ! n" using Cons.prems by (intro route_event_other) auto
  with Cons inner_ok_route_event [OF Cons.prems(1)] show ?case by simp
qed simp

text \<open>The next event of an invocation whose channel is open and has room.\<close>

lemma route_event_next:
  assumes ok: "inner_ok Idle c" and key: "hm_get (rc_invocations c) (envelope_key e) = Some k"
    and seq: "unat (event_sequence e) = Suc (unat (rinv_last_sequence (rc_cells c ! k)))"
    and room: "rinv_open (rc_cells c ! k)" "\<not> channel_full (rc_cells c ! k)"
  shows "rinv_sent (rc_cells (route_event e c) ! k) = rinv_sent (rc_cells c ! k) @ [e]"
    and "rinv_last_sequence (rc_cells (route_event e c) ! k) = event_sequence e"
    and "rinv_open (rc_cells (route_event e c) ! k)"
    and "rinv_taken (rc_cells (route_event e c) ! k) = rinv_taken (rc_cells c ! k)"
    and "cell_key (rc_cells (route_event e c) ! k) = cell_key (rc_cells c ! k)"
    and "terminal_result (event_payload e) = None \<Longrightarrow> rc_invocations (route_event e c) = rc_invocations c"
proof -
  let ?previous = "rinv_last_sequence (rc_cells c ! k)"
  have k: "k < length (rc_cells c)" using inner_okD(1) [OF ok key] .
  have "unat (saturating_add ?previous 1) = unat (event_sequence e)"
    using seq unat_lt64 [of "event_sequence e"] by (simp add: sat_simps)
  then have "event_sequence e = saturating_add ?previous 1" by (simp add: word_unat_eq_iff)
  moreover have "\<not> event_sequence e \<le> ?previous" using seq by (simp add: word_le_nat_alt)
  ultimately have "route_check c e = Accept k" using key by (simp add: route_check_def)
  moreover have "route_send c e k = (True, update_cell k (\<lambda>cell. cell\<lparr>rinv_sent := rinv_sent cell @ [e]\<rparr>) c)"
    using room by (simp add: route_send_def)
  ultimately have "route_event e c = route_store (update_cell k (\<lambda>cell. cell\<lparr>rinv_sent := rinv_sent cell @ [e]\<rparr>) c) e k"
    by (simp add: route_event_def)
  then show "rinv_sent (rc_cells (route_event e c) ! k) = rinv_sent (rc_cells c ! k) @ [e]"
    and "rinv_last_sequence (rc_cells (route_event e c) ! k) = event_sequence e"
    and "rinv_open (rc_cells (route_event e c) ! k)"
    and "rinv_taken (rc_cells (route_event e c) ! k) = rinv_taken (rc_cells c ! k)"
    and "cell_key (rc_cells (route_event e c) ! k) = cell_key (rc_cells c ! k)"
    and "terminal_result (event_payload e) = None \<Longrightarrow> rc_invocations (route_event e c) = rc_invocations c"
    using k room
    by (simp_all add: route_store_cells route_store_table update_cell_def invocation_complete_def split: option.split)
qed

text \<open>
  Events of any invocations, of which those of one turn are its next ones: all of them are sent, if
  its channel has room for them and only the last may end the turn.
\<close>

lemma route_events:
  assumes "inner_ok Idle c" "hm_get (rc_invocations c) key = Some k"
    and "rinv_open (rc_cells c ! k)"
    and "length (rinv_sent (rc_cells c ! k)) - rinv_taken (rc_cells c ! k) + length fs \<le> EVENT_CHANNEL_CAPACITY"
    and "filter (\<lambda>e. envelope_key e = key) es = fs"
    and "map (\<lambda>e. unat (event_sequence e)) fs
      = [Suc (unat (rinv_last_sequence (rc_cells c ! k)))..<Suc (unat (rinv_last_sequence (rc_cells c ! k)) + length fs)]"
    and "\<forall>e \<in> set (butlast fs). terminal_result (event_payload e) = None"
  shows "rinv_sent (rc_cells (fold route_event es c) ! k) = rinv_sent (rc_cells c ! k) @ fs"
  using assms
proof (induction es arbitrary: c fs)
  case (Cons e es)
  note ok = Cons.prems(1) and key = Cons.prems(2)
  note ok' = inner_ok_route_event [OF ok, of e]
  have k: "cell_key (rc_cells c ! k) = key" using inner_okD(2) [OF ok key] by simp
  show ?case
  proof (cases "envelope_key e = key")
    case False
    have same: "rc_cells (route_event e c) ! k = rc_cells c ! k" using route_event_other [OF ok] k False by simp
    have "hm_get (rc_invocations (route_event e c)) key = Some k" using route_event_table [of key e c] False key by simp
    from Cons.IH [OF ok' this, of fs] Cons.prems(3-7) False same show ?thesis by simp
  next
    case True
    then obtain gs where fs: "fs = e # gs" and gs: "filter (\<lambda>e. envelope_key e = key) es = gs" using Cons.prems(5) by auto
    have seq: "unat (event_sequence e) = Suc (unat (rinv_last_sequence (rc_cells c ! k)))"
      and rest: "map (\<lambda>e. unat (event_sequence e)) gs = [Suc (unat (event_sequence e))..<Suc (unat (event_sequence e) + length gs)]"
      using Cons.prems(6) unfolding fs by (simp_all add: upt_conv_Cons del: upt_Suc)
    have room: "\<not> channel_full (rc_cells c ! k)" using Cons.prems(4) by (simp add: fs channel_full_def)
    have getk: "hm_get (rc_invocations c) (envelope_key e) = Some k" using key True by simp
    note new = route_event_next [OF ok getk seq Cons.prems(3) room]
    show ?thesis
    proof (cases "gs = []")
      case True
      have "cell_key (rc_cells (route_event e c) ! k) = key"
        using new(5) k by simp
      moreover have "\<forall>e \<in> set es. envelope_key e \<noteq> key" using gs True by (simp add: filter_empty_conv)
      ultimately have "rc_cells (fold route_event es (route_event e c)) ! k = rc_cells (route_event e c) ! k"
        using route_events_other [OF ok'] by simp
      then show ?thesis using new(1) fs True by simp
    next
      case False
      have "terminal_result (event_payload e) = None" using Cons.prems(7) False by (simp add: fs)
      then have "hm_get (rc_invocations (route_event e c)) key = Some k" using new(6) key by simp
      from Cons.IH [OF ok' this new(3) _ gs] new(1,2,4) rest Cons.prems(4,7) False
      show ?thesis by (simp add: fs)
    qed
  qed
qed simp

section \<open>What an attach replays\<close>

lemma strict_sorted_key_unique:
  assumes "sorted_wrt (\<lambda>a b. f a < (f b :: 'k::linorder)) xs" "sorted_wrt (\<lambda>a b. f a < f b) ys" "set xs = set ys"
  shows "xs = ys"
proof -
  have srt: "sorted_wrt (<) (map f xs)" "sorted_wrt (<) (map f ys)" using assms(1,2) by (simp_all add: sorted_wrt_map)
  then have "map f xs = map f ys" using assms(3) by (intro strict_sorted_equal) simp_all
  moreover have "inj_on f (set xs)" using srt(1) by (simp add: strict_sorted_iff distinct_map)
  ultimately show ?thesis using assms(3) by (metis map_inj_on sup.idem)
qed

text \<open>The events of one invocation in a replay are its retained ones after the cursor, in order.\<close>

lemma filter_pending:
  assumes ok: "rj_ok limits rid r" and mono: "times_monotone r" and ij: "(i, j) \<in> set (rj_invocations r)"
    and only: "i \<in> set only"
  shows "filter (\<lambda>e. envelope_key e = (rid, i)) (pending_events r (Some only) after)
    = filter (\<lambda>e. cursor_of after i < event_sequence e) (ij_events j)" (is "?xs = ?ys")
proof (rule strict_sorted_key_unique [where f = event_sequence])
  have "sorted_wrt in_sequence ?xs" using pending_in_sequence [OF ok mono] by (rule sorted_wrt_filter)
  then show "sorted_wrt (\<lambda>a b. event_sequence a < event_sequence b) ?xs"
    by (rule sorted_wrt_mono_rel [rotated]) (auto simp: in_sequence_def envelope_key_def)
  have get: "hm_get (rj_invocations r) i = Some j" using ok ij by (simp add: rj_ok_def)
  show "sorted_wrt (\<lambda>a b. event_sequence a < event_sequence b) ?ys"
    using ij_ok_sorted_wrt [OF rj_ok_invocation [OF ok get]] by (rule sorted_wrt_filter)
  show "set ?xs = set ?ys"
  proof (intro equalityI subsetI)
    fix e assume "e \<in> set ?xs"
    then obtain i' j' where e: "(i', j') \<in> set (rj_invocations r)" "e \<in> set (ij_events j')" "envelope_key e = (rid, i)"
      "cursor_of after (event_invocation_id e) < event_sequence e"
      by (auto simp: set_pending_events)
    then have "i' = i" using rj_ok_event(1) [OF ok e(1,2)] by (simp add: envelope_key_def)
    then have "j' = j" using ok e(1) ij by (metis rj_ok_def eq_key_imp_eq_value)
    then show "e \<in> set ?ys" using e by (simp add: envelope_key_def)
  next
    fix e assume e: "e \<in> set ?ys"
    then show "e \<in> set ?xs"
      using rj_ok_event(1,2) [OF ok ij, of e] ij only by (auto simp: set_pending_events envelope_key_def)
  qed
qed

text \<open>Those events are numbered from the one after the cursor.\<close>

lemma numbered_after:
  assumes ok: "ij_ok mx rid i j" and cursor: "ij_evicted_through j \<le> cursor"
  defines "fs \<equiv> filter (\<lambda>e. cursor < event_sequence e) (ij_events j)"
  shows "map (\<lambda>e. unat (event_sequence e)) fs = [Suc (unat cursor)..<Suc (unat cursor + length fs)]"
    and "\<exists>n. fs = drop n (ij_events j)"
proof -
  define n where "n = unat cursor - unat (ij_evicted_through j)"
  have seq: "unat (event_sequence (ij_events j ! m)) = Suc (unat (ij_evicted_through j) + m)" if "m < length (ij_events j)" for m
    using ij_ok_sequences [OF ok that] by simp
  have le: "unat (ij_evicted_through j) \<le> unat cursor" using cursor by (simp add: word_le_nat_alt)
  have above: "cursor < event_sequence (ij_events j ! m) \<longleftrightarrow> n \<le> m" if "m < length (ij_events j)" for m
    using seq [OF that] le by (auto simp: word_less_nat_alt n_def)
  have "fs = drop n (ij_events j)"
  proof -
    have "filter (\<lambda>e. cursor < event_sequence e) (take n (ij_events j)) = []"
      using above by (auto simp: filter_empty_conv in_set_conv_nth)
    moreover have "filter (\<lambda>e. cursor < event_sequence e) (drop n (ij_events j)) = drop n (ij_events j)"
      using above by (auto simp: filter_id_conv in_set_conv_nth)
    ultimately show ?thesis unfolding fs_def by (metis append_Nil append_take_drop_id filter_append)
  qed
  then show "\<exists>n. fs = drop n (ij_events j)" by blast
  show "map (\<lambda>e. unat (event_sequence e)) fs = [Suc (unat cursor)..<Suc (unat cursor + length fs)]"
    unfolding \<open>fs = drop n (ij_events j)\<close>
    by (rule nth_equalityI) (use seq le in \<open>auto simp: n_def nth_append simp del: upt_Suc\<close>)
qed

lemma distinct_of_runtime:
  "hm_ok m \<Longrightarrow> distinct (map fst (map (\<lambda>((_, i), k). (i, g k)) (filter (\<lambda>((candidate, _), _). candidate = rid) m)))"
  for m :: "(RuntimeId \<times> InvocationId, nat) hashmap"
  by (induction m) (force split: prod.splits)+

lemma cursor_of_replay_cursors:
  assumes ok: "hm_ok (rc_invocations c)" and k: "hm_get (rc_invocations c) (rid, i) = Some k"
  shows "map_of (replay_cursors rid c) i = Some (rinv_last_sequence (rc_cells c ! k))"
proof -
  let ?ps = "map (\<lambda>((_, i), k). (i, rinv_last_sequence (rc_cells c ! k)))
       (filter (\<lambda>((candidate, _), _). candidate = rid) (rc_invocations c))"
  have d: "distinct (map fst ?ps)" using ok by (rule distinct_of_runtime)
  have "((rid, i), k) \<in> set (rc_invocations c)" using k by (rule map_of_SomeD)
  then have "(i, rinv_last_sequence (rc_cells c ! k)) \<in> set ?ps" by force
  then have "map_of (rev ?ps) i = Some (rinv_last_sequence (rc_cells c ! k))"
    using d by (intro map_of_is_SomeI) (simp_all add: rev_map [symmetric])
  then show ?thesis unfolding replay_cursors_def bt_from_list_def map_of_foldl_bt_insert by simp
qed

lemma fold_route_frame_events [simp]: "fold route_frame (map Event es) c = fold route_event es c"
  by (induction es arbitrary: c) simp_all

lemma attach_routed:
  assumes "attach_replay journal q rid after limit response = Inr frames"
    and "Response q (ReplayComplete rid True) \<notin> set frames"
    and "hm_get (js_runtimes (journal_inner journal)) rid = Some r"
  shows "rc_cells (fold route_frame frames c)
      = rc_cells (fold route_event (pending_events r (Some (map fst after)) after) (pending_send q (PendingResponse response) c))"
    and "list_all (\<lambda>p. check_cursor r rid p = Inr ()) after"
proof -
  let ?q = "\<lparr>replay_runtime_id = rid, replay_after = after, replay_only_invocations = Some (map fst after), replay_limit = limit\<rparr>"
  obtain batch where b: "journal_replay journal ?q = Inr batch"
    "frames = Response q response # map Event (batch_events batch) @ [Response q (ReplayComplete rid (batch_truncated batch))]"
    using assms(1) by (auto simp: attach_replay_def split: sum.splits)
  then have "\<not> batch_truncated batch" using assms(2) by auto
  then have all: "batch_events batch = pending_events r (Some (map fst after)) after"
    and "list_all (\<lambda>p. check_cursor r rid p = Inr ()) after"
    using b(1) assms(3)
    by (auto simp: journal_replay_def runtime_replay_def Let_def result_simps list_all_iff split: if_splits)
  then show "list_all (\<lambda>p. check_cursor r rid p = Inr ()) after" by blast
  show "rc_cells (fold route_frame frames c)
      = rc_cells (fold route_event (pending_events r (Some (map fst after)) after) (pending_send q (PendingResponse response) c))"
    by (simp add: b(2) all)
qed

lemma terminal_result_None: "terminal_result p = None \<longleftrightarrow> \<not> is_terminal_event p"
  by (cases p) (simp_all add: is_terminal_event_def)

end
