(* ===== verification/ClientContract.thy ===== *)
theory ClientContract
  imports ProtocolClient
begin

text \<open>
  What the remote client (\<^verbatim>\<open>src/protocol_client.rs\<close>) and the remote host (\<^verbatim>\<open>src/protocol_host.rs\<close>)
  agree on: the values that reach the host for a specification and a turn input, the requests the
  protocol version of the client admits, and what the client's recovery and its retries leave behind.
\<close>

section \<open>Values on the wire\<close>

definition whole_millis :: "duration \<Rightarrow> bool" where
  "whole_millis d \<longleftrightarrow> 0 < d \<and> 1000000 dvd d \<and> d div 1000000 < 2 ^ 64"

lemma duration_millis_roundtrip:
  assumes "whole_millis d"
  shows "duration_from_millis (duration_millis d) = d" "duration_millis d \<noteq> 0"
proof -
  have u: "unat (duration_millis d) = d div 1000000"
    using assms by (simp add: whole_millis_def duration_millis_def Let_def unat_of_nat_small)
  then show "duration_from_millis (duration_millis d) = d"
    using assms by (simp add: duration_from_millis_def whole_millis_def)
  have "0 < d div 1000000" using assms by (auto simp: whole_millis_def elim!: dvdE)
  then show "duration_millis d \<noteq> 0" using u by (auto simp: unat_eq_0)
qed

lemma environment_roundtrip: "bt_ok environment \<Longrightarrow> protocol_environment (client_protocol_environment environment) = environment"
  by (simp add: protocol_environment_def client_protocol_environment_def comp_def case_prod_beta bt_from_list_id)

text \<open>
  C38: a turn input reaches the executor of the host as the application gave it, and so does a
  runtime specification except for its sandbox: the remote host runs with the sandbox capabilities
  that the wire form names, which are none, whatever the specification requires. Deadlines are
  carried in whole milliseconds.
\<close>

theorem requests_survive_the_wire:
  assumes "bt_ok (input_environment input)" "pred_option whole_millis (input_timeout input)"
    "pred_option whole_millis (input_interaction_timeout input)"
    and "bt_ok (spec_environment spec)" "whole_millis (spec_turn_timeout spec)" "whole_millis (spec_interaction_timeout spec)"
  shows "protocol_turn_input (client_protocol_turn_input input) = Inr input
    \<and> runtime_spec resolve_sandbox (protocol_runtime_spec spec)
      = Inr (spec\<lparr>spec_sandbox := None, spec_required_sandbox_capabilities := capabilities_NONE\<rparr>)"
proof
  have d: "map_option duration_from_millis (map_option duration_millis t) = t" "map_option duration_millis t \<noteq> Some 0"
    if "pred_option whole_millis t" for t
    using that by (cases t; simp add: duration_millis_roundtrip)+
  show "protocol_turn_input (client_protocol_turn_input input) = Inr input"
    using assms(1) d [OF assms(2)] d [OF assms(3)]
    by (simp add: protocol_turn_input_def client_protocol_turn_input_def TurnInput_new_def environment_roundtrip
        pinput_timeout_def pinput_interaction_timeout_def)
  show "runtime_spec resolve_sandbox (protocol_runtime_spec spec)
      = Inr (spec\<lparr>spec_sandbox := None, spec_required_sandbox_capabilities := capabilities_NONE\<rparr>)"
    using assms(4) duration_millis_roundtrip [OF assms(5)] duration_millis_roundtrip [OF assms(6)]
    by (simp add: runtime_spec_def protocol_runtime_spec_def RuntimeSpec_new_def environment_roundtrip Let_def)
qed

theorem requests_survive_the_wire_witness:
  "protocol_turn_input (client_protocol_turn_input ((TurnInput_new (InvocationId ''i'') ''hi'')
      \<lparr>input_timeout := Some 5000000, input_environment := [(''A'', SecretString ''1'' None)]\<rparr>))
    = Inr ((TurnInput_new (InvocationId ''i'') ''hi'')
        \<lparr>input_timeout := Some 5000000, input_environment := [(''A'', SecretString ''1'' None)]\<rparr>)"
proof -
  have 1: "bt_ok (input_environment ((TurnInput_new (InvocationId ''i'') ''hi'')
      \<lparr>input_timeout := Some 5000000, input_environment := [(''A'', SecretString ''1'' None)]\<rparr>))" by simp
  have 2: "pred_option whole_millis (input_timeout ((TurnInput_new (InvocationId ''i'') ''hi'')
      \<lparr>input_timeout := Some 5000000, input_environment := [(''A'', SecretString ''1'' None)]\<rparr>))"
    by (simp add: whole_millis_def)
  have 3: "pred_option whole_millis (input_interaction_timeout ((TurnInput_new (InvocationId ''i'') ''hi'')
      \<lparr>input_timeout := Some 5000000, input_environment := [(''A'', SecretString ''1'' None)]\<rparr>))"
    by (simp add: TurnInput_new_def)
  have 4: "bt_ok (spec_environment (RuntimeSpec_new (RuntimeId ''r'') Claude ''w''))"
    "whole_millis (spec_turn_timeout (RuntimeSpec_new (RuntimeId ''r'') Claude ''w''))"
    "whole_millis (spec_interaction_timeout (RuntimeSpec_new (RuntimeId ''r'') Claude ''w''))"
    by (simp_all add: RuntimeSpec_new_def whole_millis_def duration_from_mins_def nanos_per_second_def)
  show ?thesis using requests_survive_the_wire [OF 1 2 3 4] by blast
qed

section \<open>Protocol version\<close>

text \<open>
  C39: the client sends every request with protocol version two. A turn with agent provenance needs
  version three and any use of context compaction version four, so the carrier refuses such a
  request before a byte of it is written: the remote client cannot deliver it at all.
\<close>

theorem remote_client_cannot_use_newer_features:
  assumes "has_agent_provenance req \<or> has_context_compaction req"
  shows "connection_send to_vec fault writer (request_frame request_id req)
    = (Inl (RemoteTransportError.Rejected ''runtime byte stream rejected an invalid protocol frame''), writer)"
proof -
  have "\<not> is_ok (validate_client_frame (request_frame request_id req))"
    using assms by (auto simp: validate_client_frame_def request_frame_def PROTOCOL_VERSION_V1_def PROTOCOL_VERSION_V2_def
        PROTOCOL_VERSION_V3_def PROTOCOL_VERSION_V4_def)
  then obtain e where "validate_client_frame (request_frame request_id req) = Inl e"
    by (cases "validate_client_frame (request_frame request_id req)") auto
  then show ?thesis by (simp add: connection_send_def encode_client_frame_def)
qed

theorem remote_client_cannot_use_newer_features_witness:
  "connection_send (\<lambda>_. Inr [0]) None [] (request_frame ''q'' (StartTurn (RuntimeId ''r'')
       (client_protocol_turn_input (into_turn_input (CompactionInput_new (InvocationId ''i''))))))
   = (Inl (RemoteTransportError.Rejected ''runtime byte stream rejected an invalid protocol frame''), [])"
  by (rule remote_client_cannot_use_newer_features)
    (simp add: has_context_compaction_def client_protocol_turn_input_def into_turn_input_def)

section \<open>Retries\<close>

text \<open>An answered request leaves no pending entry, whatever happened in between.\<close>

lemma request_attempts_forgets:
  "request_attempts env request_id req attempts c = (res, c') \<Longrightarrow> attempts \<noteq> [] \<Longrightarrow> hm_get (rc_pending c') request_id = None"
proof (induction env request_id req attempts c rule: request_attempts.induct)
  case (2 env request_id req attempt attempts c)
  have started: "hm_get (rc_pending c1) request_id = None" if "begin_request env request_id req c = (Inl failure, c1)" for failure c1
    using that by (auto simp: begin_request_def forget_pending_def invalidate_connection_def table_simps
        split: prod.splits sum.splits)
  show ?case
  proof (cases "attempts = []")
    case True
    then show ?thesis using "2.prems" started
      by (auto simp: forget_pending_def invalidate_connection_def table_simps Let_def
          split: prod.splits sum.splits if_splits WaitOutcome.splits PendingMessage.splits)
  next
    case False
    then show ?thesis using "2.prems" "2.IH" started
      by (auto simp: forget_pending_def invalidate_connection_def table_simps Let_def
          split: prod.splits sum.splits if_splits WaitOutcome.splits PendingMessage.splits)
  qed
qed simp

section \<open>Recovery\<close>

text \<open>
  A disconnect that arrives after the last answer a recovery waits for, and before the recovery
  clears its flag, schedules nothing: the client is left with an active invocation, without a
  connection and without a recovery.
\<close>

abbreviation lossy_driver :: RuntimeDriverCapabilities where
  "lossy_driver \<equiv> \<lparr>driver_retained_process = True, driver_session_resume = True, driver_live_interactions = True,
      driver_configurable_auto_compaction = True, driver_manual_compaction = True, driver_compaction_instructions = True,
      driver_context_window_usage = True, driver_native_image_attachments = True, driver_compaction_lifecycle = True,
      driver_live_messages = True\<rparr>"

definition lossy_env :: "nat ClientEnvironment" where
  "lossy_env = \<lparr>env_connect = (\<lambda>w. (Inr (), w)), env_send = (\<lambda>w f. (Inr (), w)),
     env_wait = (\<lambda>c q. if rc_world c = 0
        then (Received (PendingResponse (RuntimeReady Claude (degraded_health (RuntimeId ''r'') '''') lossy_driver [])), c\<lparr>rc_world := 1\<rparr>)
        else (Received (PendingResponse (ReplayComplete (RuntimeId ''r'') False)),
              disconnect_generation 1 (Disconnected ''lost'') c)),
     env_sleep = (\<lambda>c d. c)\<rparr>"

definition recovering_client :: "nat RemoteClientInner" where
  "recovering_client = (with_recovery_policy_unchecked 0 RemoteRecoveryPolicy_default ''p'')
     \<lparr>rc_connection := Some 1, rc_connection_generation := 2, rc_recovery_running := True,
      rc_invocations := [((RuntimeId ''r'', InvocationId ''i''), 0)],
      rc_cells := [RemoteInvocation_new (RuntimeId ''r'') (InvocationId ''i'') False]\<rparr>"

lemma lossy_pending:
  "rc_invocations (fold (\<lambda>q. pending_send q m) qs c) = rc_invocations c"
  "rc_connection (fold (\<lambda>q. pending_send q m) qs c) = rc_connection c"
  "rc_recovery_running (fold (\<lambda>q. pending_send q m) qs c) = rc_recovery_running c"
  "rc_tasks (fold (\<lambda>q. pending_send q m) qs c) = rc_tasks c"
  by (induction qs arbitrary: c) (simp_all add: pending_send_def split: option.split)

lemma lossy_await:
  assumes "rc_world c = 0" "rc_connection_generation c = 2" "rc_recovery_running c"
  shows "\<exists>page c'. await_runtime lossy_env q True n None c = Some (Some (Inr page), c') \<and> \<not> page_truncated page
    \<and> rc_invocations c' = rc_invocations c \<and> rc_connection c' = None \<and> rc_recovery_running c' \<and> rc_tasks c' = rc_tasks c"
proof -
  let ?c = "c\<lparr>rc_world := 1\<rparr>"
  let ?d = "runtime_descriptor Claude lossy_driver []"
  have "await_runtime lossy_env q True n None c = await_runtime lossy_env q True n (Some ?d) ?c"
    using assms by (subst await_runtime.simps) (simp add: lossy_env_def Let_def)
  also have "\<dots> = Some (Some (Inr \<lparr>page_descriptor = ?d, page_truncated = False\<rparr>),
      forget_pending q (disconnect_generation 1 (Disconnected ''lost'') ?c))"
    by (subst await_runtime.simps) (simp add: lossy_env_def Let_def)
  finally show ?thesis
    using assms by (auto simp: disconnect_generation_def Let_def forget_pending_def schedule_active_recovery_def lossy_pending)
qed

lemma recovery_misses_disconnect:
  "\<exists>c. recovery_task lossy_env recovering_client = Some c
     \<and> rc_invocations c = rc_invocations recovering_client \<and> rc_connection c = None
     \<and> \<not> rc_recovery_running c \<and> rc_tasks c = []"
proof -
  have ids: "active_runtime_ids recovering_client = [RuntimeId ''r'']"
    by (simp add: active_runtime_ids_def recovering_client_def)
  have pages: "MAX_REPLAY_PAGES = Suc 1023" "unat (policy_max_attempts (rc_policy recovering_client)) = Suc 11"
    by (simp_all add: MAX_REPLAY_PAGES_def recovering_client_def with_recovery_policy_unchecked_def RemoteRecoveryPolicy_default_def)
  have sleep: "env_sleep lossy_env c d = c" for c d by (simp add: lossy_env_def)
  have active: "rc_invocations recovering_client \<noteq> []" by (simp add: recovering_client_def)
  obtain q c0 where nxt: "next_request_id recovering_client = (q, c0)" by force
  define c1 where "c1 = c0\<lparr>rc_pending := hm_insert q [] (rc_pending c0)\<rparr>"
  have c1: "rc_world c1 = 0" "rc_connection_generation c1 = 2" "rc_recovery_running c1" "rc_tasks c1 = []"
    "rc_invocations c1 = rc_invocations recovering_client" "rc_connection c1 = Some 1"
    using nxt by (auto simp: c1_def next_request_id_def recovering_client_def with_recovery_policy_unchecked_def)
  have started: "begin_request lossy_env q req c0 = (Inr (), c1)" for req
    using c1(1,6) by (cases c1) (simp add: begin_request_def connection_def lossy_env_def c1_def [symmetric])
  obtain page c2 where wait: "await_runtime lossy_env q True 0 None c1 = Some (Some (Inr page), c2)" "\<not> page_truncated page"
    and c2: "rc_invocations c2 = rc_invocations recovering_client" "rc_connection c2 = None" "rc_recovery_running c2" "rc_tasks c2 = []"
    using lossy_await [OF c1(1-3), of q 0] c1(4,5) by auto
  have "attach_runtime lossy_env (RuntimeId ''r'') recovering_client = Some (Inr (page_descriptor page), c2)"
    unfolding attach_runtime_def pages attach_pages.simps request_runtime_def nxt
    by (simp add: started wait)
  then have "recover_active_invocations lossy_env recovering_client
      = Some (c2\<lparr>rc_runtimes := hm_insert (RuntimeId ''r'') (page_descriptor page) (rc_runtimes c2)\<rparr>)"
    unfolding recover_active_invocations_def pages recovery_attempts.simps
    by (simp add: Let_def ids sleep active)
  then show ?thesis using c2 by (simp add: recovery_task_def)
qed

end
