(* ===== verification/Spec2Isabelle.thy ===== *)
theory Spec2Isabelle
  imports RelayMcp RelayInbound Base64 Sandbox JournalReplay BrokerRuns RuntimeRuns RequestRuns ProtocolStream HostDelivery RemoteReplay ClientContract
begin

text \<open>
  A verification development for the crate \<^verbatim>\<open>temps-agent-runtime\<close>.
\<close>

section \<open>A client that attaches catches up\<close>

text \<open>
  C40: the journal, the host and the client together. When a host answers the attach of a client
  with an untruncated replay and the recorded times of the invocation do not run backwards, then
  after the client has routed the frames the consumer of the turn has been sent exactly the
  retained events of the invocation it had not been sent before, in order and after the others,
  provided its channel is open and has room and only the newest event may end the turn.
\<close>

theorem attach_brings_client_up_to_date:
  assumes journal: "journal_ok journal" "hm_get (js_runtimes (journal_inner journal)) rid = Some r"
      "times_monotone r" "(i, j) \<in> set (rj_invocations r)"
      "\<forall>e \<in> set (butlast (ij_events j)). \<not> is_terminal_event (event_payload e)"
    and client: "inner_ok Idle c" "hm_ok (rc_invocations c)" "hm_get (rc_invocations c) (rid, i) = Some k"
    and channel: "rinv_open (rc_cells c ! k)"
      "length (rinv_sent (rc_cells c ! k)) - rinv_taken (rc_cells c ! k) + length (ij_events j) \<le> EVENT_CHANNEL_CAPACITY"
    and frames: "attach_replay journal request_id rid (replay_cursors rid c) limit response = Inr frames"
      "Response request_id (ReplayComplete rid True) \<notin> set frames"
  shows "rinv_sent (rc_cells (fold route_frame frames c) ! k)
    = rinv_sent (rc_cells c ! k) @ filter (\<lambda>e. rinv_last_sequence (rc_cells c ! k) < event_sequence e) (ij_events j)"
proof -
  let ?c = "pending_send request_id (PendingResponse response) c" and ?after = "replay_cursors rid c"
  let ?cursor = "rinv_last_sequence (rc_cells c ! k)"
  let ?fs = "filter (\<lambda>e. ?cursor < event_sequence e) (ij_events j)"
  have ok: "rj_ok (journal_limits journal) rid r" using journal(1,2) by (rule journal_ok_runtime)
  have get: "hm_get (rj_invocations r) i = Some j" using ok journal(4) by (simp add: rj_ok_def)
  have at: "map_of ?after i = Some ?cursor" using client(2,3) by (rule cursor_of_replay_cursors)
  then have cursor: "(i, ?cursor) \<in> set ?after" "cursor_of ?after i = ?cursor"
    by (simp_all add: map_of_SomeD cursor_of_def)
  have "check_cursor r rid (i, ?cursor) = Inr ()"
    using attach_routed(2) [OF frames journal(2)] cursor(1) by (simp add: list_all_iff)
  then have kept: "ij_evicted_through j \<le> ?cursor" using get by (auto simp: check_cursor_def split: if_splits)
  note num = numbered_after [OF rj_ok_invocation [OF ok get] kept]
  have "i \<in> set (map fst ?after)" using cursor(1) by force
  then have own: "filter (\<lambda>e. envelope_key e = (rid, i)) (pending_events r (Some (map fst ?after)) ?after) = ?fs"
    using filter_pending [OF ok journal(3,4)] cursor(2) by simp
  have room: "length (rinv_sent (rc_cells c ! k)) - rinv_taken (rc_cells c ! k) + length ?fs \<le> EVENT_CHANNEL_CAPACITY"
    using channel(2) length_filter_le [of "\<lambda>e. ?cursor < event_sequence e" "ij_events j"] by linarith
  obtain n where "?fs = drop n (ij_events j)" using num(2) by blast
  then have quiet: "\<forall>e \<in> set (butlast ?fs). terminal_result (event_payload e) = None"
    using journal(5) by (auto simp: butlast_drop terminal_result_None dest!: in_set_dropD)
  have "inner_ok Idle ?c" using client(1) by (subst inner_ok_cong [of _ c]) simp_all
  then have "rinv_sent (rc_cells (fold route_event (pending_events r (Some (map fst ?after)) ?after) ?c) ! k)
      = rinv_sent (rc_cells ?c ! k) @ ?fs"
    by (rule route_events [OF _ _ _ _ own _ quiet]) (use client(3) channel(1) room num(1) in \<open>simp_all del: upt_Suc\<close>)
  then show ?thesis unfolding attach_routed(1) [OF frames journal(2)] by simp
qed

abbreviation sample_remote_client :: "unit RemoteClientInner" where
  "sample_remote_client \<equiv> (with_recovery_policy_unchecked () RemoteRecoveryPolicy_default ''p'')
     \<lparr>rc_invocations := [((RuntimeId ''r'', InvocationId ''i''), 0)],
      rc_cells := [(RemoteInvocation_new (RuntimeId ''r'') (InvocationId ''i'') False)
        \<lparr>rinv_sent := [demo_event 1 10], rinv_taken := 1, rinv_last_sequence := 1\<rparr>]\<rparr>"

theorem attach_brings_client_up_to_date_witness:
  "map event_sequence (rinv_sent (rc_cells (fold route_frame
     [Response ''q'' sample_ready, Event (demo_event 2 20), Response ''q'' (ReplayComplete (RuntimeId ''r'') False)]
     sample_remote_client) ! 0)) = [1, 2]"
proof -
  let ?j = "demo_journal [(1, 10), (2, 20)]" and ?c = sample_remote_client
  let ?frames = "[Response ''q'' sample_ready, Event (demo_event 2 20), Response ''q'' (ReplayComplete (RuntimeId ''r'') False)]"
  define r where "r = the (hm_get (js_runtimes (journal_inner ?j)) (RuntimeId ''r''))"
  define j where "j = the (hm_get (rj_invocations r) (InvocationId ''i''))"
  have r: "hm_get (js_runtimes (journal_inner ?j)) (RuntimeId ''r'') = Some r" unfolding r_def by code_simp
  have "hm_get (rj_invocations r) (InvocationId ''i'') = Some j" unfolding j_def r_def by code_simp
  then have j: "(InvocationId ''i'', j) \<in> set (rj_invocations r)" by (rule map_of_SomeD)
  have events: "ij_events j = [demo_event 1 10, demo_event 2 20]" unfolding j_def r_def by code_simp
  have ok: "journal_ok ?j" by (rule demo_journal_ok) code_simp
  have mono: "times_monotone r" unfolding r_def by code_simp
  have quiet: "\<forall>e \<in> set (butlast (ij_events j)). \<not> is_terminal_event (event_payload e)"
    by (simp add: events demo_event_def is_terminal_event_def)
  have client: "inner_ok Idle ?c"
    by (simp add: inner_ok_def table_ok_def cell_ok_def consecutive_def RemoteInvocation_new_def demo_event_def envelope_key_def)
  have cursors: "replay_cursors (RuntimeId ''r'') ?c = [(InvocationId ''i'', 1)]"
    by (simp add: replay_cursors_def bt_from_list_def)
  have replay: "journal_replay ?j \<lparr>replay_runtime_id = RuntimeId ''r'', replay_after = [(InvocationId ''i'', 1)],
      replay_only_invocations = Some [InvocationId ''i''], replay_limit = 4\<rparr>
    = Inr \<lparr>batch_events = [demo_event 2 20], batch_next = [(InvocationId ''i'', 2)], batch_truncated = False\<rparr>" by code_simp
  have frames: "attach_replay ?j ''q'' (RuntimeId ''r'') (replay_cursors (RuntimeId ''r'') ?c) 4 sample_ready = Inr ?frames"
    unfolding cursors by (simp add: attach_replay_def replay)
  show ?thesis
    using attach_brings_client_up_to_date [OF ok r mono j quiet client _ _ _ _ frames, of 0]
    by (simp add: events RemoteInvocation_new_def EVENT_CHANNEL_CAPACITY_def demo_event_def)
qed

end
